(* ===== verification/Lazuli_Prelude.thy ===== *)
theory Lazuli_Prelude
  imports Main "HOL-Library.Char_ord" "HOL-Library.List_Lexorder"
    "HOL-Library.Product_Lexorder" "HOL-Library.Sublist"
begin

text \<open>
  Shared substrate of the development: the part of Rust's standard library that the Lazuli
  compiler is written against.

  A Rust \<^verbatim>\<open>&str\<close> is modelled by its UTF-8 bytes, so a \<open>string\<close> here is a byte
  sequence, lengths and offsets are byte counts, and slices are \<open>take\<close>/\<open>drop\<close>. The functions
  that Rust defines on Unicode \<^verbatim>\<open>White_Space\<close> (\<^verbatim>\<open>trim\<close>,
  \<^verbatim>\<open>split_whitespace\<close>, \<^verbatim>\<open>char::is_whitespace\<close>) recognise the UTF-8 encodings
  of exactly those code points, in one, two or three bytes; the functions Rust restricts to ASCII
  (\<^verbatim>\<open>is_ascii_lowercase\<close> and its kin) look at single bytes, which is the same thing
  because every byte of a multi-byte sequence is at least 0x80. Byte order on strings
  (\<^verbatim>\<open>List_Lexorder\<close> over \<^verbatim>\<open>Char_ord\<close>) is Rust's \<^verbatim>\<open>Ord for str\<close>.
  A \<^verbatim>\<open>BTreeSet\<close> is a strictly sorted list and a \<^verbatim>\<open>BTreeMap\<close> an
  association list strictly sorted by key, so iteration order is visible.

  Contents: character classes, trimming, splitting, searching, joining, number parsing and
  printing, ordered sets and maps, the result type and its sequencing, and three interfaces
  (locales) the components share: a closed catalog of tokens, a block parser over source lines,
  and a keyed difference.
\<close>

named_theorems text_simps \<open>evaluation of the Rust string functions\<close>
named_theorems parse_splits \<open>case splits of the parsers' result types\<close>

section \<open>Results\<close>

type_synonym ('e, 'a) result = "'e + 'a"

abbreviation Err :: "'e \<Rightarrow> ('e, 'a) result" where "Err \<equiv> Inl"
abbreviation Ok :: "'a \<Rightarrow> ('e, 'a) result" where "Ok \<equiv> Inr"

text \<open>The \<^verbatim>\<open>?\<close> operator.\<close>

definition try_bind :: "('e, 'a) result \<Rightarrow> ('a \<Rightarrow> ('e, 'b) result) \<Rightarrow> ('e, 'b) result" where
  "try_bind r k = (case r of Inl e \<Rightarrow> Inl e | Inr a \<Rightarrow> k a)"

lemma try_bind_simps [simp]: "try_bind (Inl e) k = Inl e" "try_bind (Inr a) k = k a"
  by (simp_all add: try_bind_def)

lemma try_bind_Ok_iff: "try_bind r k = Inr b \<longleftrightarrow> (\<exists>a. r = Inr a \<and> k a = Inr b)"
  by (cases r) auto

lemma try_bind_OkE [elim!]:
  assumes "try_bind r k = Inr b"
  obtains a where "r = Inr a" "k a = Inr b"
  using assms by (auto simp: try_bind_Ok_iff)

lemma try_bind_cong [fundef_cong]:
  assumes "r = r'" and "\<And>a. r' = Inr a \<Longrightarrow> k a = k' a"
  shows "try_bind r k = try_bind r' k'"
  using assms by (cases r') auto

section \<open>Characters\<close>

abbreviation code :: "char \<Rightarrow> nat" where "code c \<equiv> of_char c"

definition is_ascii_lowercase :: "char \<Rightarrow> bool" where
  "is_ascii_lowercase c \<longleftrightarrow> 97 \<le> code c \<and> code c \<le> 122"

definition is_ascii_uppercase :: "char \<Rightarrow> bool" where
  "is_ascii_uppercase c \<longleftrightarrow> 65 \<le> code c \<and> code c \<le> 90"

definition is_ascii_digit :: "char \<Rightarrow> bool" where
  "is_ascii_digit c \<longleftrightarrow> 48 \<le> code c \<and> code c \<le> 57"

definition is_ascii_alphabetic :: "char \<Rightarrow> bool" where
  "is_ascii_alphabetic c \<longleftrightarrow> is_ascii_lowercase c \<or> is_ascii_uppercase c"

definition is_ascii_alphanumeric :: "char \<Rightarrow> bool" where
  "is_ascii_alphanumeric c \<longleftrightarrow> is_ascii_alphabetic c \<or> is_ascii_digit c"

text \<open>\<^verbatim>\<open>u8::is_ascii_whitespace\<close>: space, tab, line feed, form feed, carriage return.\<close>

definition is_ascii_whitespace :: "char \<Rightarrow> bool" where
  "is_ascii_whitespace c \<longleftrightarrow> code c = 32 \<or> code c = 9 \<or> code c = 10 \<or> code c = 12 \<or> code c = 13"

text \<open>\<^verbatim>\<open>char::is_whitespace\<close>, by the length of the UTF-8 encoding.\<close>

definition ws1 :: "char \<Rightarrow> bool" where
  "ws1 c \<longleftrightarrow> code c = 32 \<or> (9 \<le> code c \<and> code c \<le> 13)"

definition ws2 :: "char \<Rightarrow> char \<Rightarrow> bool" where
  "ws2 a b \<longleftrightarrow> code a = 0xC2 \<and> (code b = 0x85 \<or> code b = 0xA0)"

definition ws3 :: "char \<Rightarrow> char \<Rightarrow> char \<Rightarrow> bool" where
  "ws3 a b c \<longleftrightarrow>
     (code a = 0xE1 \<and> code b = 0x9A \<and> code c = 0x80) \<or>
     (code a = 0xE2 \<and> code b = 0x80 \<and>
        (0x80 \<le> code c \<and> code c \<le> 0x8A \<or> code c = 0xA8 \<or> code c = 0xA9 \<or> code c = 0xAF)) \<or>
     (code a = 0xE2 \<and> code b = 0x81 \<and> code c = 0x9F) \<or>
     (code a = 0xE3 \<and> code b = 0x80 \<and> code c = 0x80)"

text \<open>Visible ASCII: the bytes no whitespace encoding contains.\<close>

definition graphic :: "char \<Rightarrow> bool" where
  "graphic c \<longleftrightarrow> 32 < code c \<and> code c < 127"

lemmas char_class_defs = is_ascii_lowercase_def is_ascii_uppercase_def is_ascii_digit_def
  is_ascii_alphabetic_def is_ascii_alphanumeric_def is_ascii_whitespace_def
  ws1_def ws2_def ws3_def graphic_def

lemma graphic_not_ws [simp]:
  assumes "graphic c"
  shows "\<not> ws1 c" "\<not> ws2 c b" "\<not> ws2 b c" "\<not> ws3 c a b" "\<not> ws3 a c b" "\<not> ws3 a b c"
    "\<not> is_ascii_whitespace c"
  using assms by (auto simp: char_class_defs)

lemma lowercase_graphic [intro]: "is_ascii_lowercase c \<Longrightarrow> graphic c"
  by (simp add: char_class_defs)

lemma digit_graphic [intro]: "is_ascii_digit c \<Longrightarrow> graphic c"
  by (simp add: char_class_defs)

definition to_ascii_uppercase_char :: "char \<Rightarrow> char" where
  "to_ascii_uppercase_char c = (if is_ascii_lowercase c then char_of (code c - 32) else c)"

definition to_ascii_lowercase_char :: "char \<Rightarrow> char" where
  "to_ascii_lowercase_char c = (if is_ascii_uppercase c then char_of (code c + 32) else c)"

definition to_ascii_uppercase :: "string \<Rightarrow> string" where
  "to_ascii_uppercase s = map to_ascii_uppercase_char s"

definition to_ascii_lowercase :: "string \<Rightarrow> string" where
  "to_ascii_lowercase s = map to_ascii_lowercase_char s"

section \<open>Characters of a string\<close>

text \<open>\<^verbatim>\<open>str::chars\<close>: the UTF-8 encodings of the characters, in order. In valid UTF-8 a character is a
  byte followed by its continuation bytes, so comparing encodings is comparing characters.\<close>

definition is_continuation :: "char \<Rightarrow> bool" where
  "is_continuation c \<longleftrightarrow> 128 \<le> code c \<and> code c < 192"

function utf8_chars :: "string \<Rightarrow> string list" where
  "utf8_chars [] = []"
| "utf8_chars (c # s) = (c # takeWhile is_continuation s) # utf8_chars (dropWhile is_continuation s)"
  by pat_completeness auto
termination by (relation "measure length") (auto simp: length_dropWhile_le less_Suc_eq_le)

lemma concat_utf8_chars [simp]: "concat (utf8_chars s) = s"
  by (induction s rule: utf8_chars.induct) simp_all

definition is_ascii :: "string \<Rightarrow> bool" where
  "is_ascii s \<longleftrightarrow> list_all (\<lambda>c. code c < 128) s"

lemma utf8_chars_ascii: "is_ascii s \<Longrightarrow> utf8_chars s = map (\<lambda>c. [c]) s"
proof (induction s)
  case (Cons c s)
  then have "takeWhile is_continuation s = []" "dropWhile is_continuation s = s"
    by (cases s; simp add: is_ascii_def is_continuation_def)+
  with Cons show ?case by (simp add: is_ascii_def)
qed simp

text \<open>\<^verbatim>\<open>str::is_char_boundary\<close>: slicing anywhere else panics.\<close>

definition is_char_boundary :: "string \<Rightarrow> nat \<Rightarrow> bool" where
  "is_char_boundary s i \<longleftrightarrow> i = length s \<or> (i < length s \<and> \<not> is_continuation (s ! i))"

lemma is_char_boundary_ascii: "is_ascii s \<Longrightarrow> i \<le> length s \<Longrightarrow> is_char_boundary s i"
  unfolding is_char_boundary_def is_ascii_def is_continuation_def list_all_length
  by (metis le_neq_implies_less not_less)

section \<open>Loops over an index\<close>

text \<open>Induction for the index loops \<^verbatim>\<open>while i < lines.len()\<close>, whose body may move the index to any
  later line.\<close>

lemma index_induct [case_names step]:
  fixes i n :: nat
  assumes "\<And>i. (\<And>j. i < n \<Longrightarrow> i < j \<Longrightarrow> P j) \<Longrightarrow> P i"
  shows "P i"
proof (induction "n - i" arbitrary: i rule: less_induct)
  case less
  show ?case
  proof (rule assms)
    fix j assume "i < n" "i < j"
    then have "n - j < n - i" by linarith
    then show "P j" by (rule less)
  qed
qed

lemma set_map_filter_iff: "c \<in> set (List.map_filter g xs) \<longleftrightarrow> (\<exists>x \<in> set xs. g x = Some c)"
  by (induction xs) (auto simp: List.map_filter_def)

lemma map_filter_Nil_iff: "List.map_filter g xs = [] \<longleftrightarrow> (\<forall>x \<in> set xs. g x = None)"
  by (induction xs) (auto simp: List.map_filter_def)

lemma find_SomeD: "find P xs = Some x \<Longrightarrow> x \<in> set xs \<and> P x"
  by (induction xs) (auto split: if_splits)

text \<open>\<^verbatim>\<open>Iterator::position\<close>.\<close>

fun first_index :: "('a \<Rightarrow> bool) \<Rightarrow> 'a list \<Rightarrow> nat option" where
  "first_index P [] = None"
| "first_index P (x # xs) = (if P x then Some 0 else map_option Suc (first_index P xs))"

lemma first_index_Some_iff: "first_index P xs = Some i \<longleftrightarrow> i < length xs \<and> P (xs ! i) \<and> (\<forall>j < i. \<not> P (xs ! j))"
proof (induction xs arbitrary: i)
  case (Cons x xs)
  then show ?case by (cases i) (auto simp: All_less_Suc2)
qed simp

lemma first_index_None_iff: "first_index P xs = None \<longleftrightarrow> (\<forall>x \<in> set xs. \<not> P x)"
  by (induction xs) auto

lemma first_index_map: "first_index P (map g xs) = first_index (\<lambda>x. P (g x)) xs"
  by (induction xs) auto

section \<open>Trimming\<close>

fun trim_by :: "(char \<Rightarrow> bool) \<Rightarrow> (char \<Rightarrow> char \<Rightarrow> bool) \<Rightarrow> (char \<Rightarrow> char \<Rightarrow> char \<Rightarrow> bool) \<Rightarrow> string \<Rightarrow> string" where
  "trim_by p1 p2 p3 [] = []"
| "trim_by p1 p2 p3 (a # s) =
     (if p1 a then trim_by p1 p2 p3 s
      else case s of [] \<Rightarrow> a # s
        | b # t \<Rightarrow> (if p2 a b then trim_by p1 p2 p3 t
            else case t of [] \<Rightarrow> a # s
              | c # u \<Rightarrow> (if p3 a b c then trim_by p1 p2 p3 u else a # s)))"

declare trim_by.simps(2) [simp del]

definition trim_start :: "string \<Rightarrow> string" where
  "trim_start s = trim_by ws1 ws2 ws3 s"

definition trim_end :: "string \<Rightarrow> string" where
  "trim_end s = rev (trim_by ws1 (\<lambda>b a. ws2 a b) (\<lambda>c b a. ws3 a b c) (rev s))"

definition trim :: "string \<Rightarrow> string" where
  "trim s = trim_end (trim_start s)"

lemma trim_by_Cons_cases:
  obtains (stop) "trim_by p1 p2 p3 (a # s) = a # s"
  | (one) "p1 a" "trim_by p1 p2 p3 (a # s) = trim_by p1 p2 p3 s"
  | (two) b t where "\<not> p1 a" "s = b # t" "p2 a b" "trim_by p1 p2 p3 (a # s) = trim_by p1 p2 p3 t"
  | (three) b c u where "\<not> p1 a" "s = b # c # u" "\<not> p2 a b" "p3 a b c"
      "trim_by p1 p2 p3 (a # s) = trim_by p1 p2 p3 u"
proof (cases "p1 a")
  case True
  then show ?thesis using one by (simp add: trim_by.simps(2))
next
  case p1: False
  show ?thesis
  proof (cases s)
    case Nil
    with p1 show ?thesis using stop by (simp add: trim_by.simps(2))
  next
    case (Cons b t)
    show ?thesis
    proof (cases "p2 a b")
      case True
      with p1 Cons show ?thesis using two by (simp add: trim_by.simps(2))
    next
      case p2: False
      show ?thesis
      proof (cases "\<exists>c u. t = c # u \<and> p3 a b c")
        case True
        with p1 p2 Cons show ?thesis using three by (auto simp: trim_by.simps(2))
      next
        case False
        with p1 p2 Cons show ?thesis by (intro stop) (auto simp: trim_by.simps(2) split: list.split)
      qed
    qed
  qed
qed

lemma suffix_trim_by: "suffix (trim_by p1 p2 p3 s) s"
proof (induction s rule: length_induct)
  case (1 s)
  show ?case
  proof (cases s)
    case (Cons a t)
    show ?thesis
      by (rule trim_by_Cons_cases[of p1 p2 p3 a t])
        (use 1 Cons in \<open>auto intro!: suffix_ConsI\<close>)
  qed simp
qed

lemma trim_by_suffix: "\<exists>p. s = p @ trim_by p1 p2 p3 s"
  using suffix_trim_by unfolding suffix_def .

lemma trim_start_suffix: "\<exists>p. s = p @ trim_start s"
  unfolding trim_start_def by (rule trim_by_suffix)

lemma trim_end_prefix: "\<exists>q. s = trim_end s @ q"
proof -
  obtain p where "rev s = p @ trim_by ws1 (\<lambda>b a. ws2 a b) (\<lambda>c b a. ws3 a b c) (rev s)"
    using trim_by_suffix by blast
  then have "s = trim_end s @ rev p"
    unfolding trim_end_def by (metis rev_append rev_rev_ident)
  then show ?thesis ..
qed

lemma length_trim_start [simp]: "length (trim_start s) \<le> length s"
  using trim_start_suffix[of s] by (metis length_append le_add2)

lemma length_trim_end [simp]: "length (trim_end s) \<le> length s"
  using trim_end_prefix[of s] by (metis length_append le_add1)

lemma length_trim [simp]: "length (trim s) \<le> length s"
  unfolding trim_def by (rule order_trans[OF length_trim_end length_trim_start])

lemma set_trim_start: "set (trim_start s) \<subseteq> set s"
  using trim_start_suffix[of s] by (metis set_append Un_upper2)

lemma set_trim_end: "set (trim_end s) \<subseteq> set s"
  using trim_end_prefix[of s] by (metis set_append Un_upper1)

lemma set_trim: "set (trim s) \<subseteq> set s"
  unfolding trim_def using set_trim_end set_trim_start by blast

lemma trim_Nil [simp]: "trim_start [] = []" "trim_end [] = []" "trim [] = []"
  by (simp_all add: trim_start_def trim_end_def trim_def)

lemma trim_start_graphic [simp]: "graphic c \<Longrightarrow> trim_start (c # s) = c # s"
  by (rule trim_by_Cons_cases[of ws1 ws2 ws3 c s]) (auto simp: trim_start_def)

lemma trim_start_space [simp]: "ws1 c \<Longrightarrow> trim_start (c # s) = trim_start s"
  by (simp add: trim_start_def trim_by.simps(2))

lemma trim_end_graphic [simp]: "graphic c \<Longrightarrow> trim_end (s @ [c]) = s @ [c]"
  by (rule trim_by_Cons_cases[of ws1 "\<lambda>b a. ws2 a b" "\<lambda>c b a. ws3 a b c" c "rev s"])
    (auto simp: trim_end_def)

lemma trim_end_space [simp]: "ws1 c \<Longrightarrow> trim_end (s @ [c]) = trim_end s"
  by (simp add: trim_end_def trim_by.simps(2))

lemma trim_end_graphic_last: "s \<noteq> [] \<Longrightarrow> graphic (last s) \<Longrightarrow> trim_end s = s"
  by (metis append_butlast_last_id trim_end_graphic)

lemma trim_graphic_ends: "s \<noteq> [] \<Longrightarrow> graphic (hd s) \<Longrightarrow> graphic (last s) \<Longrightarrow> trim s = s"
  by (cases s) (simp_all add: trim_def trim_end_graphic_last del: last.simps)

lemma trim_all_graphic: "\<forall>c \<in> set s. graphic c \<Longrightarrow> trim s = s"
  by (cases "s = []") (simp_all add: trim_graphic_ends)

lemma trim_start_all_graphic: "\<forall>c \<in> set s. graphic c \<Longrightarrow> trim_start s = s"
  by (cases s) simp_all

lemma trim_start_spaces [simp]: "trim_start (replicate n CHR '' '' @ s) = trim_start s"
  by (induction n) (simp_all add: char_class_defs)

text \<open>A text is a fixed point of trimming exactly when it does not begin with whitespace, so a prefix
  of a fixed point is one: trimming is idempotent.\<close>

definition begins_by :: "(char \<Rightarrow> bool) \<Rightarrow> (char \<Rightarrow> char \<Rightarrow> bool) \<Rightarrow> (char \<Rightarrow> char \<Rightarrow> char \<Rightarrow> bool) \<Rightarrow> string \<Rightarrow> bool" where
  "begins_by p1 p2 p3 s = (case s of [] \<Rightarrow> False
     | a # r \<Rightarrow> p1 a \<or> (case r of [] \<Rightarrow> False | b # t \<Rightarrow> p2 a b \<or> (case t of [] \<Rightarrow> False | c # u \<Rightarrow> p3 a b c)))"

lemma begins_by_trim: "\<not> begins_by p1 p2 p3 (trim_by p1 p2 p3 s)"
proof (induction s rule: length_induct)
  case (1 s)
  show ?case
  proof (cases s)
    case Nil
    then show ?thesis by (simp add: begins_by_def)
  next
    case (Cons a t)
    have stay: "trim_by p1 p2 p3 (a # t) = a # t \<Longrightarrow> \<not> begins_by p1 p2 p3 (a # t)"
    proof
      assume fixed: "trim_by p1 p2 p3 (a # t) = a # t" and b: "begins_by p1 p2 p3 (a # t)"
      have shrink: "length (trim_by p1 p2 p3 x) \<le> length x" for x
        using suffix_trim_by by (rule suffix_length_le)
      have "length (trim_by p1 p2 p3 (a # t)) \<le> length t"
        using b shrink[of t] shrink[of "tl t"] shrink[of "tl (tl t)"]
        by (cases t; cases "tl t") (auto simp: begins_by_def trim_by.simps(2)[of _ _ _ a])
      with fixed show False by simp
    qed
    show ?thesis
      by (rule trim_by_Cons_cases[of p1 p2 p3 a t]) (use 1 Cons stay in auto)
  qed
qed

lemma trim_by_fixed: "\<not> begins_by p1 p2 p3 s \<Longrightarrow> trim_by p1 p2 p3 s = s"
  by (cases s; cases "tl s"; cases "tl (tl s)")
    (simp_all add: begins_by_def trim_by.simps(2))

lemma begins_by_prefix: "begins_by p1 p2 p3 s \<Longrightarrow> begins_by p1 p2 p3 (s @ t)"
  by (auto simp: begins_by_def split: list.splits)

lemma trim_idem [simp]: "trim (trim s) = trim s"
proof -
  obtain q where q: "trim_start s = trim s @ q"
    using trim_end_prefix[of "trim_start s"] by (auto simp: trim_def)
  then have "\<not> begins_by ws1 ws2 ws3 (trim s @ q)"
    using begins_by_trim[of ws1 ws2 ws3 s] by (simp add: trim_start_def)
  then have "trim_start (trim s) = trim s"
    unfolding trim_start_def using begins_by_prefix trim_by_fixed by blast
  moreover have "trim_end (trim_end x) = trim_end x" for x
    unfolding trim_end_def by (simp add: begins_by_trim trim_by_fixed)
  ultimately show ?thesis by (metis trim_def)
qed

section \<open>Prefixes, suffixes, searching\<close>

fun strip_prefix :: "string \<Rightarrow> string \<Rightarrow> string option" where
  "strip_prefix [] s = Some s"
| "strip_prefix (p # ps) (c # s) = (if p = c then strip_prefix ps s else None)"
| "strip_prefix (p # ps) [] = None"

definition strip_suffix :: "string \<Rightarrow> string \<Rightarrow> string option" where
  "strip_suffix p s = map_option rev (strip_prefix (rev p) (rev s))"

definition starts_with :: "string \<Rightarrow> string \<Rightarrow> bool" where
  "starts_with s p \<longleftrightarrow> strip_prefix p s \<noteq> None"

definition ends_with :: "string \<Rightarrow> string \<Rightarrow> bool" where
  "ends_with s p \<longleftrightarrow> strip_suffix p s \<noteq> None"

lemma strip_prefix_Some_iff: "strip_prefix p s = Some r \<longleftrightarrow> s = p @ r"
  by (induction p s rule: strip_prefix.induct) auto

lemma strip_prefix_append [simp]: "strip_prefix p (p @ r) = Some r"
  by (simp add: strip_prefix_Some_iff)

lemma strip_prefix_None_iff: "strip_prefix p s = None \<longleftrightarrow> (\<nexists>r. s = p @ r)"
  using strip_prefix_Some_iff[of p s] by (metis not_Some_eq)

lemma strip_suffix_Some_iff: "strip_suffix p s = Some r \<longleftrightarrow> s = r @ p"
proof -
  have "strip_suffix p s = Some r \<longleftrightarrow> strip_prefix (rev p) (rev s) = Some (rev r)"
    by (auto simp: strip_suffix_def)
  then show ?thesis by (simp add: strip_prefix_Some_iff flip: rev_append)
qed

lemma starts_with_iff: "starts_with s p \<longleftrightarrow> (\<exists>r. s = p @ r)"
  by (simp add: starts_with_def strip_prefix_None_iff)

lemma ends_with_iff: "ends_with s p \<longleftrightarrow> (\<exists>r. s = r @ p)"
  using strip_suffix_Some_iff[of p s] by (auto simp: ends_with_def)

text \<open>\<^verbatim>\<open>str::find\<close> for a character and for a substring.\<close>

fun find_char :: "char \<Rightarrow> string \<Rightarrow> nat option" where
  "find_char c [] = None"
| "find_char c (x # s) = (if x = c then Some 0 else map_option Suc (find_char c s))"

fun find_str :: "string \<Rightarrow> string \<Rightarrow> nat option" where
  "find_str p s = (if starts_with s p then Some 0
     else case s of [] \<Rightarrow> None | _ # t \<Rightarrow> map_option Suc (find_str p t))"

declare find_str.simps [simp del]

lemma find_char_None_iff: "find_char c s = None \<longleftrightarrow> c \<notin> set s"
  by (induction s) auto

lemma find_char_Some_iff:
  "find_char c s = Some i \<longleftrightarrow> i < length s \<and> s ! i = c \<and> c \<notin> set (take i s)"
proof (induction s arbitrary: i)
  case (Cons x s)
  then show ?case by (cases i) auto
qed simp

lemma find_char_split: "find_char c s = Some i \<Longrightarrow> s = take i s @ c # drop (Suc i) s"
  by (auto simp: find_char_Some_iff id_take_nth_drop)

lemma find_str_Some: "find_str p s = Some i \<Longrightarrow> i \<le> length s \<and> starts_with (drop i s) p"
proof (induction s arbitrary: i)
  case Nil
  then show ?case by (auto simp: find_str.simps split: if_splits)
next
  case (Cons x s)
  then show ?case by (auto simp: find_str.simps[of p "x # s"] split: if_splits)
qed


section \<open>Splitting and joining\<close>

text \<open>\<^verbatim>\<open>str::split(c)\<close> on a character: never empty, keeps empty pieces.\<close>

fun split_on :: "char \<Rightarrow> string \<Rightarrow> string list" where
  "split_on c [] = [[]]"
| "split_on c (x # s) =
     (if x = c then [] # split_on c s
      else case split_on c s of [] \<Rightarrow> [[x]] | w # ws \<Rightarrow> (x # w) # ws)"

text \<open>\<^verbatim>\<open>[_]::join(sep)\<close>.\<close>

fun join :: "string \<Rightarrow> string list \<Rightarrow> string" where
  "join sep [] = []"
| "join sep [x] = x"
| "join sep (x # y # ys) = x @ sep @ join sep (y # ys)"

text \<open>\<^verbatim>\<open>str::split_once(c)\<close>: at the first occurrence.\<close>

fun split_once :: "char \<Rightarrow> string \<Rightarrow> (string \<times> string) option" where
  "split_once c [] = None"
| "split_once c (x # s) =
     (if x = c then Some ([], s)
      else map_option (\<lambda>(l, r). (x # l, r)) (split_once c s))"

lemma split_on_not_Nil [simp]: "split_on c s \<noteq> []"
  by (induction s) (auto split: list.splits)

lemma split_on_Cons: "x \<noteq> c \<Longrightarrow> split_on c (x # s) = (x # hd (split_on c s)) # tl (split_on c s)"
  by (cases "split_on c s") auto

lemma join_Cons: "xs \<noteq> [] \<Longrightarrow> join sep (x # xs) = x @ sep @ join sep xs"
  by (cases xs) auto

lemma join_append1:
  "xs \<noteq> [] \<Longrightarrow> join sep (xs @ [y]) = join sep xs @ sep @ y"
  by (induction sep xs rule: join.induct) (auto simp: join_Cons)

lemma join_split_on: "join [c] (split_on c s) = s"
proof (induction s)
  case (Cons x s)
  then show ?case by (cases "split_on c s") (auto simp: join_Cons, metis append_Cons join.simps(2,3) list.exhaust)
qed simp

lemma split_on_absent: "c \<notin> set s \<Longrightarrow> split_on c s = [s]"
  by (induction s) auto

lemma split_on_piece: "w \<in> set (split_on c s) \<Longrightarrow> c \<notin> set w"
proof (induction s arbitrary: w)
  case (Cons x s)
  then show ?case by (cases "split_on c s") (auto split: if_splits)
qed simp

lemma split_on_append: "c \<notin> set a \<Longrightarrow> split_on c (a @ c # s) = a # split_on c s"
  by (induction a) (auto split: list.splits)

lemma split_on_join:
  "xs \<noteq> [] \<Longrightarrow> \<forall>x \<in> set xs. c \<notin> set x \<Longrightarrow> split_on c (join [c] xs) = xs"
proof (induction "[c]" xs rule: join.induct)
  case (3 x y ys)
  then show ?case by (simp add: split_on_append)
qed (simp_all add: split_on_absent)

lemma set_split_on_subset: "w \<in> set (split_on c s) \<Longrightarrow> set w \<subseteq> set s"
proof (induction s arbitrary: w)
  case (Cons x s)
  then show ?case by (cases "split_on c s") (fastforce split: if_splits)+
qed simp

lemma split_once_Some_iff: "split_once c s = Some (l, r) \<longleftrightarrow> s = l @ c # r \<and> c \<notin> set l"
proof (induction s arbitrary: l r)
  case (Cons x s)
  then show ?case by (cases l) auto
qed simp

lemma split_once_None_iff: "split_once c s = None \<longleftrightarrow> c \<notin> set s"
  by (induction s) auto

lemma split_once_append [simp]: "c \<notin> set l \<Longrightarrow> split_once c (l @ c # r) = Some (l, r)"
  by (simp add: split_once_Some_iff)

primrec glue :: "string \<Rightarrow> string list \<Rightarrow> string" where
  "glue sep [] = []"
| "glue sep (x # xs) = sep @ x @ glue sep xs"

lemma join_glue: "join sep (x # xs) = x @ glue sep xs"
  by (induction xs arbitrary: x) (simp_all add: join_Cons)

text \<open>Texts that begin and end with a visible character: trimming leaves them alone.\<close>

definition tight :: "string \<Rightarrow> bool" where
  "tight s \<longleftrightarrow> s \<noteq> [] \<and> graphic (hd s) \<and> graphic (last s)"

lemma tight_append: "tight a \<Longrightarrow> tight b \<Longrightarrow> tight (a @ m @ b)"
  by (simp add: tight_def)

lemma tight_glue: "tight a \<Longrightarrow> list_all tight ws \<Longrightarrow> tight (a @ glue sep ws)"
proof (induction ws arbitrary: a)
  case (Cons w ws)
  then have "tight (w @ glue sep ws)" by simp
  with Cons.prems show ?case using tight_append[of a "w @ glue sep ws" sep] by simp
qed simp

lemma tight_trim: "tight s \<Longrightarrow> trim s = s"
  by (simp add: tight_def trim_graphic_ends)

lemma tight_join: "ws \<noteq> [] \<Longrightarrow> list_all tight ws \<Longrightarrow> tight (join sep ws)"
  by (cases ws) (simp_all add: join_glue tight_glue)

lemma join_push: "c # join sep (w # ws) = join sep ((c # w) # ws)"
  by (cases ws) simp_all

lemma join_comma_space:
  "join '', '' (w # ws) = join '','' (w # map ((#) CHR '' '') ws)"
  by (induction ws arbitrary: w) (simp_all add: join_Cons[symmetric] join_push)

text \<open>\<^verbatim>\<open>str::split_whitespace\<close>: maximal runs without whitespace.\<close>

definition push_char :: "char \<Rightarrow> string list \<Rightarrow> string list" where
  "push_char a ws = (case ws of [] \<Rightarrow> [[a]] | w # r \<Rightarrow> (a # w) # r)"

fun split_ws :: "string \<Rightarrow> string list" where
  "split_ws [] = [[]]"
| "split_ws (a # s) =
     (if ws1 a then [] # split_ws s
      else case s of [] \<Rightarrow> [[a]]
        | b # t \<Rightarrow> (if ws2 a b then [] # split_ws t
            else case t of [] \<Rightarrow> push_char a (split_ws s)
              | c # u \<Rightarrow> (if ws3 a b c then [] # split_ws u else push_char a (split_ws s))))"

declare split_ws.simps(2) [simp del]

definition split_whitespace :: "string \<Rightarrow> string list" where
  "split_whitespace s = filter (\<lambda>w. w \<noteq> []) (split_ws s)"

text \<open>\<^verbatim>\<open>str::contains(char::is_whitespace)\<close>.\<close>

fun contains_ws :: "string \<Rightarrow> bool" where
  "contains_ws [] = False"
| "contains_ws (a # s) = (ws1 a \<or> (case s of [] \<Rightarrow> False | b # t \<Rightarrow> ws2 a b \<or>
     (case t of [] \<Rightarrow> False | c # u \<Rightarrow> ws3 a b c)) \<or> contains_ws s)"

text \<open>\<^verbatim>\<open>str::strip_prefix(char::is_whitespace)\<close>.\<close>

fun strip_ws_char :: "string \<Rightarrow> string option" where
  "strip_ws_char [] = None"
| "strip_ws_char (a # s) =
     (if ws1 a then Some s
      else case s of [] \<Rightarrow> None
        | b # t \<Rightarrow> (if ws2 a b then Some t
            else case t of [] \<Rightarrow> None
              | c # u \<Rightarrow> (if ws3 a b c then Some u else None)))"

lemma split_ws_graphic: "graphic a \<Longrightarrow> split_ws (a # s) = push_char a (split_ws s)"
  by (cases s; cases "tl s") (auto simp: split_ws.simps(2) push_char_def)

lemma split_ws_not_Nil [simp]: "split_ws s \<noteq> []"
proof (cases s)
  case (Cons a t)
  show ?thesis unfolding Cons
    by (subst split_ws.simps(2)) (simp add: push_char_def split: list.split)
qed simp

lemma split_ws_word:
  "\<forall>c \<in> set w. graphic c \<Longrightarrow> split_ws (w @ s) = (w @ hd (split_ws s)) # tl (split_ws s)"
  by (induction w) (auto simp: split_ws_graphic push_char_def)

lemma split_ws_space: "split_ws (CHR '' '' # s) = [] # split_ws s"
  by (simp add: split_ws.simps(2) char_class_defs)

lemma split_whitespace_Nil [simp]: "split_whitespace [] = []"
  by (simp add: split_whitespace_def)

lemma split_whitespace_space [simp]: "split_whitespace (CHR '' '' # s) = split_whitespace s"
  by (simp add: split_whitespace_def split_ws_space)

lemma split_whitespace_word:
  assumes "w \<noteq> []" "\<forall>c \<in> set w. graphic c"
  shows "split_whitespace (w @ CHR '' '' # s) = w # split_whitespace s"
  using assms by (simp add: split_whitespace_def split_ws_word split_ws_space)

lemma split_whitespace_single:
  assumes "w \<noteq> []" "\<forall>c \<in> set w. graphic c"
  shows "split_whitespace w = [w]"
  using assms split_ws_word[of w "[]"] by (simp add: split_whitespace_def)

lemma split_ws_append_space: "split_ws (a @ CHR '' '' # s) = split_ws a @ split_ws s"
proof (induction a rule: length_induct)
  case (1 a)
  have sp: "\<not> ws2 x CHR '' ''" "\<not> ws3 x CHR '' '' y" "\<not> ws3 x y CHR '' ''" for x y
    by (auto simp: ws2_def ws3_def)
  have pc: "push_char x (l @ r) = push_char x l @ r" if "l \<noteq> []" for x l r
    using that by (cases l) (simp_all add: push_char_def)
  show ?case
  proof (cases a)
    case Nil
    then show ?thesis by (simp add: split_ws_space)
  next
    case (Cons x t)
    have IH: "split_ws (b @ CHR '' '' # s) = split_ws b @ split_ws s" if "length b < length a" for b
      using 1 that by blast
    show ?thesis
    proof (cases t)
      case Nil
      with Cons sp show ?thesis
        by (cases s) (simp_all add: split_ws.simps(2)[of x] split_ws_space push_char_def)
    next
      case t: (Cons y u)
      have "split_ws (x # t @ CHR '' '' # s) = split_ws (x # t) @ split_ws s"
        using IH[of t] IH[of u] IH[of "tl u"] Cons t sp
        by (cases u) (simp_all add: split_ws.simps(2)[of x] split_ws_space pc)
      with Cons show ?thesis by simp
    qed
  qed
qed

lemma split_whitespace_append_space [simp]:
  "split_whitespace (a @ CHR '' '' # s) = split_whitespace a @ split_whitespace s"
  by (simp add: split_whitespace_def split_ws_append_space)

lemma split_whitespace_nonempty: "w \<in> set (split_whitespace s) \<Longrightarrow> w \<noteq> []"
  by (simp add: split_whitespace_def)

lemma contains_ws_graphic: "\<forall>c \<in> set s. graphic c \<Longrightarrow> \<not> contains_ws s"
  by (induction s) (auto split: list.split)

lemma contains_ws_ws1: "c \<in> set s \<Longrightarrow> ws1 c \<Longrightarrow> contains_ws s"
  by (induction s) auto

text \<open>\<^verbatim>\<open>str::lines\<close>: records end at a line feed, one carriage return before it is dropped.\<close>

definition strip_cr :: "string \<Rightarrow> string" where
  "strip_cr l = (if l \<noteq> [] \<and> last l = CHR 0x0D then butlast l else l)"

fun lines_acc :: "string \<Rightarrow> string \<Rightarrow> string list" where
  "lines_acc acc [] = (if acc = [] then [] else [acc])"
| "lines_acc acc (c # s) =
     (if c = CHR 0x0A then strip_cr acc # lines_acc [] s else lines_acc (acc @ [c]) s)"

definition str_lines :: "string \<Rightarrow> string list" where
  "str_lines s = lines_acc [] s"


section \<open>Decimal numbers\<close>

definition digit_char :: "nat \<Rightarrow> char" where
  "digit_char d = char_of (48 + d)"

fun nat_to_string :: "nat \<Rightarrow> string" where
  "nat_to_string n =
     (if n < 10 then [digit_char n] else nat_to_string (n div 10) @ [digit_char (n mod 10)])"

declare nat_to_string.simps [simp del]

definition int_to_string :: "int \<Rightarrow> string" where
  "int_to_string i = (if i < 0 then CHR ''-'' # nat_to_string (nat (- i)) else nat_to_string (nat i))"

text \<open>\<^verbatim>\<open>{:03}\<close>: zero padding on the left.\<close>

definition pad_left :: "nat \<Rightarrow> char \<Rightarrow> string \<Rightarrow> string" where
  "pad_left w c s = replicate (w - length s) c @ s"

definition digit_val :: "char \<Rightarrow> nat" where
  "digit_val c = code c - 48"

definition decimal :: "string \<Rightarrow> nat option" where
  "decimal s = (if s \<noteq> [] \<and> list_all is_ascii_digit s
     then Some (foldl (\<lambda>n c. 10 * n + digit_val c) 0 s) else None)"

text \<open>\<^verbatim>\<open>str::parse::<u32>\<close>: an optional plus sign, at least one digit, in range.\<close>

definition parse_u32 :: "string \<Rightarrow> nat option" where
  "parse_u32 s = (case decimal (case s of CHR ''+'' # t \<Rightarrow> t | _ \<Rightarrow> s) of
     None \<Rightarrow> None | Some n \<Rightarrow> if n < 2 ^ 32 then Some n else None)"

text \<open>\<^verbatim>\<open>str::parse::<i64>\<close>.\<close>

definition parse_i64 :: "string \<Rightarrow> int option" where
  "parse_i64 s = (case s of
       CHR ''-'' # t \<Rightarrow> (case decimal t of None \<Rightarrow> None
          | Some n \<Rightarrow> if n \<le> 2 ^ 63 then Some (- int n) else None)
     | _ \<Rightarrow> (case decimal (case s of CHR ''+'' # t \<Rightarrow> t | _ \<Rightarrow> s) of None \<Rightarrow> None
          | Some n \<Rightarrow> if n < 2 ^ 63 then Some (int n) else None))"

lemma digit_char_props:
  assumes "d < 10"
  shows "is_ascii_digit (digit_char d)" "digit_val (digit_char d) = d"
  using assms by (simp_all add: digit_char_def digit_val_def is_ascii_digit_def)

lemma nat_to_string_not_Nil [simp]: "nat_to_string n \<noteq> []"
  by (subst nat_to_string.simps) simp

lemma nat_to_string_digits: "list_all is_ascii_digit (nat_to_string n)"
proof (induction n rule: nat_to_string.induct)
  case (1 n)
  then show ?case
    by (cases "n < 10") (simp_all add: nat_to_string.simps[of n] digit_char_props)
qed

lemma nat_to_string_value: "foldl (\<lambda>n c. 10 * n + digit_val c) 0 (nat_to_string n) = n"
proof (induction n rule: nat_to_string.induct)
  case (1 n)
  show ?case
  proof (cases "n < 10")
    case True
    then show ?thesis by (simp add: nat_to_string.simps[of n] digit_char_props)
  next
    case False
    with 1 have "foldl (\<lambda>n c. 10 * n + digit_val c) 0 (nat_to_string (n div 10)) = n div 10"
      by simp
    with False show ?thesis by (simp add: nat_to_string.simps[of n] digit_char_props)
  qed
qed

lemma decimal_nat_to_string [simp]: "decimal (nat_to_string n) = Some n"
  by (simp add: decimal_def nat_to_string_digits nat_to_string_value)

lemma nat_to_string_hd_digit: "is_ascii_digit (hd (nat_to_string n))"
  using nat_to_string_digits[of n] by (simp add: list_all_iff)

section \<open>Ordered sets and maps\<close>

text \<open>\<^verbatim>\<open>BTreeSet\<close> as a strictly increasing list, \<^verbatim>\<open>BTreeMap\<close> as an association list
  with strictly increasing keys.\<close>

abbreviation strictly_sorted :: "'a::linorder list \<Rightarrow> bool" where
  "strictly_sorted xs \<equiv> sorted_wrt (<) xs"

fun bset_insert :: "'a::linorder \<Rightarrow> 'a list \<Rightarrow> 'a list" where
  "bset_insert x [] = [x]"
| "bset_insert x (y # ys) =
     (if x < y then x # y # ys else if x = y then y # ys else y # bset_insert x ys)"

definition bset_of :: "'a::linorder list \<Rightarrow> 'a list" where
  "bset_of xs = fold bset_insert xs []"

fun bmap_insert :: "'k::linorder \<Rightarrow> 'v \<Rightarrow> ('k \<times> 'v) list \<Rightarrow> ('k \<times> 'v) list" where
  "bmap_insert k v [] = [(k, v)]"
| "bmap_insert k v ((k', v') # m) =
     (if k < k' then (k, v) # (k', v') # m
      else if k = k' then (k, v) # m else (k', v') # bmap_insert k v m)"

definition bmap_of :: "('k::linorder \<times> 'v) list \<Rightarrow> ('k \<times> 'v) list" where
  "bmap_of kvs = fold (\<lambda>(k, v). bmap_insert k v) kvs []"

lemma set_bset_insert [simp]: "set (bset_insert x xs) = insert x (set xs)"
  by (induction xs) auto

lemma sorted_bset_insert [simp]: "strictly_sorted xs \<Longrightarrow> strictly_sorted (bset_insert x xs)"
  by (induction xs) auto

lemma set_fold_bset_insert: "set (fold bset_insert xs ys) = set xs \<union> set ys"
  by (induction xs arbitrary: ys) auto

lemma sorted_fold_bset_insert:
  "strictly_sorted ys \<Longrightarrow> strictly_sorted (fold bset_insert xs ys)"
  by (induction xs arbitrary: ys) auto

lemma set_bset_of [simp]: "set (bset_of xs) = set xs"
  by (simp add: bset_of_def set_fold_bset_insert)

lemma sorted_bset_of [simp]: "strictly_sorted (bset_of xs)"
  by (simp add: bset_of_def sorted_fold_bset_insert)

lemma strictly_sorted_distinct: "strictly_sorted xs \<Longrightarrow> distinct xs"
  by (simp add: strict_sorted_iff)

lemma strictly_sorted_unique:
  "strictly_sorted xs \<Longrightarrow> strictly_sorted ys \<Longrightarrow> set xs = set ys \<Longrightarrow> xs = ys"
  by (simp add: strict_sorted_equal)

lemma keys_bmap_insert [simp]: "fst ` set (bmap_insert k v m) = insert k (fst ` set m)"
  by (induction k v m rule: bmap_insert.induct) auto

lemma sorted_bmap_insert [simp]:
  "strictly_sorted (map fst m) \<Longrightarrow> strictly_sorted (map fst (bmap_insert k v m))"
proof (induction k v m rule: bmap_insert.induct)
  case (2 k v k' v' m)
  then show ?case by (auto simp flip: image_set)
qed simp

lemma map_of_bmap_insert [simp]:
  "strictly_sorted (map fst m) \<Longrightarrow> map_of (bmap_insert k v m) = (map_of m)(k \<mapsto> v)"
  by (induction k v m rule: bmap_insert.induct) (auto simp: fun_eq_iff)

lemma bmap_fold_sorted:
  "strictly_sorted (map fst m) \<Longrightarrow> strictly_sorted (map fst (fold (\<lambda>(k, v). bmap_insert k v) kvs m))"
  by (induction kvs arbitrary: m) auto

lemma bmap_fold_lookup:
  "strictly_sorted (map fst m) \<Longrightarrow>
   map_of (fold (\<lambda>(k, v). bmap_insert k v) kvs m) = map_of m ++ map_of (rev kvs)"
proof (induction kvs arbitrary: m)
  case (Cons kv kvs)
  then show ?case by (cases kv) (auto simp: map_add_def fun_eq_iff split: option.splits)
qed simp

lemma sorted_bmap_of [simp]: "strictly_sorted (map fst (bmap_of kvs))"
  by (simp add: bmap_of_def bmap_fold_sorted)

lemma lookup_bmap_of: "map_of (bmap_of kvs) = map_of (rev kvs)"
  by (simp add: bmap_of_def bmap_fold_lookup)

lemma distinct_bmap_keys: "distinct (map fst (bmap_of kvs))"
  by (rule strictly_sorted_distinct) simp

lemma bmap_entry_iff: "(k, v) \<in> set (bmap_of kvs) \<longleftrightarrow> map_of (bmap_of kvs) k = Some v"
  using distinct_bmap_keys by (metis map_of_eq_Some_iff)


section \<open>Interfaces shared by the components\<close>

text \<open>
  A closed catalog: an enumeration with its token table, as the \<^verbatim>\<open>from_ident\<close> /
  \<^verbatim>\<open>as_str\<close> pairs of the IR have it.
\<close>

locale closed_catalog =
  fixes of_token :: "string \<Rightarrow> 'a option" and token :: "'a \<Rightarrow> string"
  assumes of_token_token: "of_token (token x) = Some x"
    and token_of_token: "of_token s = Some x \<Longrightarrow> token x = s"
begin

lemma of_token_iff: "of_token s = Some x \<longleftrightarrow> s = token x"
  using of_token_token token_of_token by auto

lemma token_inject: "token x = token y \<longleftrightarrow> x = y"
  by (metis of_token_token option.inject)

lemma of_token_None_iff: "of_token s = None \<longleftrightarrow> s \<notin> range token"
  by (metis not_None_eq of_token_iff rangeE rangeI)

text \<open>Splitting a list of raw tokens into the recognised and the unknown ones loses nothing.\<close>

lemma partition_tokens:
  "set raws = token ` set (List.map_filter of_token raws) \<union> {r \<in> set raws. of_token r = None}"
proof (intro equalityI subsetI)
  fix r assume r: "r \<in> set raws"
  show "r \<in> token ` set (List.map_filter of_token raws) \<union> {r \<in> set raws. of_token r = None}"
  proof (cases "of_token r")
    case (Some x)
    with r have "x \<in> set (List.map_filter of_token raws)"
      by (auto simp: List.map_filter_def image_iff intro!: bexI[of _ r])
    with Some show ?thesis by (auto simp: of_token_iff)
  qed (use r in simp)
qed (auto simp: List.map_filter_def of_token_iff of_token_token)

end

text \<open>
  A keyed difference of two collections: what the new one has under a key the old one lacks, and
  the reverse.
\<close>

locale keyed_diff =
  fixes old_key :: "'b \<Rightarrow> 'k" and new_key :: "'c \<Rightarrow> 'k"
    and adds :: "'b list \<Rightarrow> 'c list \<Rightarrow> 'c list" and drops :: "'b list \<Rightarrow> 'c list \<Rightarrow> 'b list"
  assumes adds_iff: "c \<in> set (adds bs cs) \<longleftrightarrow> c \<in> set cs \<and> new_key c \<notin> old_key ` set bs"
    and drops_iff: "b \<in> set (drops bs cs) \<longleftrightarrow> b \<in> set bs \<and> old_key b \<notin> new_key ` set cs"
begin

lemma adds_drops_disjoint:
  "new_key ` set (adds bs cs) \<inter> old_key ` set (drops bs cs) = {}"
  by (auto simp: adds_iff drops_iff)

lemma keys_after:
  "(old_key ` set bs - old_key ` set (drops bs cs)) \<union> new_key ` set (adds bs cs) = new_key ` set cs"
  by (auto simp: adds_iff drops_iff image_iff) metis+

lemma set_adds: "set (adds bs cs) = {c \<in> set cs. new_key c \<notin> old_key ` set bs}"
  by (simp add: set_eq_iff adds_iff)

lemma set_drops: "set (drops bs cs) = {b \<in> set bs. old_key b \<notin> new_key ` set cs}"
  by (simp add: set_eq_iff drops_iff)

lemma no_diff_iff:
  "adds bs cs = [] \<and> drops bs cs = [] \<longleftrightarrow> old_key ` set bs = new_key ` set cs"
proof -
  have "set (adds bs cs) = {} \<longleftrightarrow> new_key ` set cs \<subseteq> old_key ` set bs"
    unfolding set_adds by auto
  moreover have "set (drops bs cs) = {} \<longleftrightarrow> old_key ` set bs \<subseteq> new_key ` set cs"
    unfolding set_drops by auto
  ultimately show ?thesis by auto
qed

end

end
