(* ===== verification/Source_Text.thy ===== *)
theory Source_Text
  imports Lazuli_Prelude
begin

text \<open>
  The text layer every Lazuli parser is built on: source lines with their byte spans, trivia and
  comments, bracket- and quote-aware scanning, identifier classes and the small argument lexers
  (\<^verbatim>\<open>lazuli_syntax/src/parser/common.rs\<close>, \<^verbatim>\<open>error.rs\<close> and
  \<^verbatim>\<open>lzi/helpers.rs\<close>). Loop indices are kept as the position reached and the unread rest of
  the text. The 32-bit nesting counters are integers: they move by one per byte of a text that fits
  in memory. Shown here: line spans are exact for LF text and drift for CRLF text, scanning finds
  the first match outside brackets and quotes, and splitting an argument list loses nothing.
\<close>

section \<open>Spans, errors and source lines\<close>

record span =
  sp_start :: nat
  sp_end :: nat

abbreviation Span :: "nat \<Rightarrow> nat \<Rightarrow> span" where
  "Span s e \<equiv> \<lparr>sp_start = s, sp_end = e\<rparr>"

datatype ParseError = Pest (err_message: string) (err_span: span) | Expected string

definition E_WORKFLOW_RETIRED :: string where "E_WORKFLOW_RETIRED = ''E-WORKFLOW-RETIRED''"
definition E_CONTEXT_RETIRED :: string where "E_CONTEXT_RETIRED = ''E-CONTEXT-RETIRED''"
definition E_ATTACH_CTX_RETIRED :: string where "E_ATTACH_CTX_RETIRED = ''E-ATTACH-CTX-RETIRED''"

fun parse_error_span :: "ParseError \<Rightarrow> span" where
  "parse_error_span (Pest m sp) = sp"
| "parse_error_span (Expected e) = Span 0 1"

record source_line =
  sl_text :: string
  sl_indent :: nat
  sl_start :: nat
  sl_end :: nat

fun source_lines_from :: "nat \<Rightarrow> string list \<Rightarrow> source_line list" where
  "source_lines_from offset [] = []"
| "source_lines_from offset (text # rest) =
     (let start = offset; end = start + length text in
      \<lparr>sl_text = text, sl_indent = length (takeWhile (\<lambda>byte. byte = CHR '' '') text),
       sl_start = start, sl_end = end\<rparr> # source_lines_from (end + 1) rest)"

definition source_lines :: "string \<Rightarrow> source_line list" where
  "source_lines source = source_lines_from 0 (str_lines source)"

definition is_trivia :: "string \<Rightarrow> bool" where
  "is_trivia trimmed \<longleftrightarrow> trimmed = [] \<or> starts_with trimmed ''#''"

abbreviation dquote :: char where "dquote \<equiv> CHR 0x22"
abbreviation squote :: char where "squote \<equiv> CHR 0x27"
abbreviation backslash :: char where "backslash \<equiv> CHR 0x5C"

text \<open>The scan of \<^verbatim>\<open>strip_inline_comment\<close>: the position of the comment's hash, if any.\<close>

fun comment_start :: "char option \<Rightarrow> nat \<Rightarrow> string \<Rightarrow> nat option" where
  "comment_start q i [] = None"
| "comment_start (Some q) i (b # r) =
     (if b = q then comment_start None (i + 1) r
      else if b = backslash then
        (case r of [] \<Rightarrow> None | _ # r' \<Rightarrow> comment_start (Some q) (i + 2) r')
      else comment_start (Some q) (i + 1) r)"
| "comment_start None i (b # r) =
     (if b = dquote \<or> b = squote then comment_start (Some b) (i + 1) r
      else if b = CHR ''#'' then Some i
      else comment_start None (i + 1) r)"

definition strip_inline_comment :: "string \<Rightarrow> string" where
  "strip_inline_comment line = (case comment_start None 0 line of
     None \<Rightarrow> line | Some i \<Rightarrow> trim_end (take i line))"

definition line_error :: "source_line \<Rightarrow> string \<Rightarrow> ParseError" where
  "line_error line message = Pest message (Span (sl_start line) (max (sl_end line) (sl_start line + 1)))"

definition line_error_owned :: "source_line \<Rightarrow> string \<Rightarrow> ParseError" where
  "line_error_owned line message = Pest message (Span (sl_start line) (max (sl_end line) (sl_start line + 1)))"

section \<open>Scanning\<close>

text \<open>An empty needle never occurs at a call site; on it the loop would index past the end.\<close>

fun find_token_from :: "string \<Rightarrow> int \<Rightarrow> nat \<Rightarrow> string \<Rightarrow> nat option" where
  "find_token_from needle depth i [] = None"
| "find_token_from needle depth i (ch # r) =
     (if length needle \<le> length (ch # r) then
        (let depth = (if ch = CHR ''('' \<or> ch = CHR ''['' then depth + 1
                      else if ch = CHR '')'' \<or> ch = CHR '']'' then depth - 1 else depth) in
         if depth = 0 \<and> starts_with (ch # r) needle then Some i
         else find_token_from needle depth (i + 1) r)
      else None)"

definition find_token :: "string \<Rightarrow> string \<Rightarrow> nat option" where
  "find_token text needle = find_token_from needle 0 0 text"

fun find_top_level_token_from :: "string \<Rightarrow> int \<Rightarrow> bool \<Rightarrow> nat \<Rightarrow> string \<Rightarrow> nat option" where
  "find_top_level_token_from needle depth in_quote i [] = None"
| "find_top_level_token_from needle depth in_quote i (b # r) =
     (if length needle \<le> length (b # r) then
        (let in_quote' = (if b = dquote then \<not> in_quote else in_quote);
             depth' = (if b \<noteq> dquote \<and> (b = CHR ''('' \<or> b = CHR ''['') \<and> \<not> in_quote then depth + 1
                       else if b \<noteq> dquote \<and> (b = CHR '')'' \<or> b = CHR '']'') \<and> \<not> in_quote then depth - 1
                       else depth) in
         if \<not> in_quote' \<and> depth' = 0 \<and> starts_with (b # r) needle then Some i
         else find_top_level_token_from needle depth' in_quote' (i + 1) r)
      else None)"

definition find_top_level_token :: "string \<Rightarrow> string \<Rightarrow> nat option" where
  "find_top_level_token text needle = find_top_level_token_from needle 0 False 0 text"

section \<open>Identifiers and small literals\<close>

definition parse_lzx_bool :: "string \<Rightarrow> bool option" where
  "parse_lzx_bool value =
     (if value = ''true'' then Some True else if value = ''false'' then Some False else None)"

fun is_kebab_or_snake_ident :: "string \<Rightarrow> bool" where
  "is_kebab_or_snake_ident [] = False"
| "is_kebab_or_snake_ident (first # chars) =
     (is_ascii_lowercase first \<and>
      list_all (\<lambda>c. is_ascii_lowercase c \<or> is_ascii_digit c \<or> c = CHR ''_'' \<or> c = CHR ''-'') chars)"

fun is_lzx_bare_ident :: "string \<Rightarrow> bool" where
  "is_lzx_bare_ident [] = False"
| "is_lzx_bare_ident (first # chars) =
     (is_ascii_alphabetic first \<and> list_all (\<lambda>c. is_ascii_alphanumeric c \<or> c = CHR ''_'') chars)"

definition is_lzx_resume_ref :: "string \<Rightarrow> bool" where
  "is_lzx_resume_ref s = (case split_on CHR ''.'' s of
       [name] \<Rightarrow> is_lzx_bare_ident name
     | [feature, name] \<Rightarrow> is_lzx_bare_ident feature \<and> is_lzx_bare_ident name
     | _ \<Rightarrow> False)"

definition split_lzx_list :: "string \<Rightarrow> string list" where
  "split_lzx_list value = filter (\<lambda>part. part \<noteq> []) (map trim (split_on CHR '','' value))"

definition unquote_lzx_value :: "string \<Rightarrow> string" where
  "unquote_lzx_value value =
     (case Option.bind (strip_prefix [dquote] value) (strip_suffix [dquote]) of
        None \<Rightarrow> value | Some inner \<Rightarrow> inner)"

definition unicode_arrow :: string where
  "unicode_arrow = [CHR 0xE2, CHR 0x86, CHR 0x92]"

definition split_lzx_arrow :: "string \<Rightarrow> (string \<times> string) option" where
  "split_lzx_arrow text =
     (let unicode = map_option (\<lambda>idx. (idx, length unicode_arrow)) (find_str unicode_arrow text);
          ascii = map_option (\<lambda>idx. (idx, 2)) (find_str ''->'' text);
          hit = (case (unicode, ascii) of
                   (Some u, Some a) \<Rightarrow> Some (if fst u \<le> fst a then u else a)
                 | (Some u, None) \<Rightarrow> Some u
                 | (None, Some a) \<Rightarrow> Some a
                 | (None, None) \<Rightarrow> None)
      in map_option (\<lambda>(idx, len). (take idx text, drop (idx + len) text)) hit)"

fun is_policy_identifier :: "string \<Rightarrow> bool" where
  "is_policy_identifier [] = False"
| "is_policy_identifier (first # chars) =
     ((is_ascii_alphabetic first \<or> first = CHR ''_'') \<and>
      list_all (\<lambda>c. is_ascii_alphanumeric c \<or> c = CHR ''_'') chars)"

section \<open>Argument lexers\<close>

definition split_call_signature :: "source_line \<Rightarrow> string \<Rightarrow> (ParseError, string \<times> string) result" where
  "split_call_signature line rest0 =
     (let rest = trim_end rest0 in
      case find_char CHR ''('' rest of
        Some open_at \<Rightarrow>
          (if \<not> ends_with rest '')'' then
             Err (line_error line ''call expression must end with `)` (e.g. `query.by_id(id: route.id)`)'')
           else Ok (trim (take open_at rest),
                    trim (take (length rest - 1 - (open_at + 1)) (drop (open_at + 1) rest))))
      | None \<Rightarrow> Ok (trim rest, []))"

record target_arg_decl =
  ta_name :: string
  ta_value :: string
  ta_span :: span

fun split_commas_from :: "int \<Rightarrow> bool \<Rightarrow> string \<Rightarrow> string \<Rightarrow> string list" where
  "split_commas_from depth in_string piece [] = [piece]"
| "split_commas_from depth in_string piece (ch # r) =
     (if ch = dquote then split_commas_from depth (\<not> in_string) (piece @ [ch]) r
      else if in_string then split_commas_from depth in_string (piece @ [ch]) r
      else if ch = CHR ''('' \<or> ch = CHR ''['' then split_commas_from (depth + 1) in_string (piece @ [ch]) r
      else if ch = CHR '')'' \<or> ch = CHR '']'' then split_commas_from (depth - 1) in_string (piece @ [ch]) r
      else if ch = CHR '','' \<and> depth = 0 then piece # split_commas_from depth in_string [] r
      else split_commas_from depth in_string (piece @ [ch]) r)"

definition split_top_level_commas :: "string \<Rightarrow> string list" where
  "split_top_level_commas text = split_commas_from 0 False [] text"

fun parse_named_pieces :: "source_line \<Rightarrow> string list \<Rightarrow> (ParseError, target_arg_decl list) result" where
  "parse_named_pieces line [] = Ok []"
| "parse_named_pieces line (piece0 # rest) =
     (let piece = trim piece0 in
      if piece = [] then parse_named_pieces line rest
      else case split_once CHR '':'' piece of
          None \<Rightarrow> Err (line_error line ''call arguments use `<name>: <expr>` (e.g. `id: route.id`)'')
        | Some (name0, value) \<Rightarrow>
            (let name = trim name0 in
             if name = [] then Err (line_error line ''call argument requires a name before `:`'')
             else try_bind (parse_named_pieces line rest) (\<lambda>out.
               Ok (\<lparr>ta_name = name, ta_value = trim value, ta_span = Span (sl_start line) (sl_end line)\<rparr> # out))))"

definition parse_named_args :: "source_line \<Rightarrow> string \<Rightarrow> (ParseError, target_arg_decl list) result" where
  "parse_named_args line text0 =
     (let text = trim text0 in
      if text = [] then Ok [] else parse_named_pieces line (split_top_level_commas text))"

definition split_first_token :: "string \<Rightarrow> (string \<times> string) option" where
  "split_first_token input0 =
     (let input = trim_start input0 in
      if input = [] then None
      else let token = takeWhile (\<lambda>c. \<not> is_ascii_whitespace c) input in
        Some (token, drop (length token) input))"

definition take_identifier :: "string \<Rightarrow> string \<times> string" where
  "take_identifier input = (case input of
       c # r \<Rightarrow> (if is_ascii_alphabetic c \<or> c = CHR ''_''
          then let ident = c # takeWhile (\<lambda>c. is_ascii_alphanumeric c \<or> c = CHR ''_'') r
               in (ident, drop (length ident) input)
          else ([], input))
     | [] \<Rightarrow> ([], []))"

definition take_quoted_string :: "string \<Rightarrow> source_line \<Rightarrow> (ParseError, string \<times> string) result" where
  "take_quoted_string input line = (case strip_prefix [dquote] input of
       None \<Rightarrow> Err (line_error line
         (''report column modifier value must be a `'' @ [dquote] @ ''...'' @ [dquote] @ ''` literal''))
     | Some rest \<Rightarrow> (case find_char dquote rest of
           None \<Rightarrow> Err (line_error line ''report column modifier missing closing quote'')
         | Some close_idx \<Rightarrow> Ok (take close_idx rest, drop (close_idx + 1) rest)))"

datatype InvariantForm =
    IF_TerminalImmutable
  | IF_SingleStatePerScope (if_state: string) (if_scope_field: string)
  | IF_NoJumpMoreThanOne

definition parse_invariant_form :: "source_line \<Rightarrow> string \<Rightarrow> (ParseError, InvariantForm) result" where
  "parse_invariant_form line raw0 =
     (let raw = trim raw0 in
      if raw = ''terminal_immutable'' then Ok IF_TerminalImmutable
      else if raw = ''no_jump_more_than_one'' then Ok IF_NoJumpMoreThanOne
      else let unknown = Err (line_error_owned line (''unknown invariant form `'' @ raw @
          ''` - closed catalog is `terminal_immutable`, `single <state> per <scope_field>`, `no_jump_more_than_one` (see docs/proposals/lifecycle-vocab.md '' @
          [CHR 0xC2, CHR 0xA7] @ ''3.4)''))
        in case split_whitespace raw of
             [single, state, per, scope_field] \<Rightarrow>
               (if single = ''single'' \<and> per = ''per'' then
                  (if state = [] \<or> scope_field = [] then
                     Err (line_error line ''`invariant single <state> per <scope_field>` requires both names'')
                   else Ok (IF_SingleStatePerScope state scope_field))
                else unknown)
           | _ \<Rightarrow> unknown)"


section \<open>Line spans\<close>

lemma lines_acc_break:
  "CHR 0x0A \<notin> set l \<Longrightarrow> lines_acc acc (l @ CHR 0x0A # s) = strip_cr (acc @ l) # lines_acc [] s"
  by (induction l arbitrary: acc) auto

lemma strip_cr_absent: "CHR 0x0D \<notin> set l \<Longrightarrow> strip_cr l = l"
  by (metis last_in_set strip_cr_def)

lemma strip_cr_snoc [simp]: "strip_cr (l @ [CHR 0x0D]) = l"
  by (simp add: strip_cr_def)

text \<open>The offsets of a source without carriage returns, for any text already consumed.\<close>

lemma source_lines_from_exact:
  assumes "CHR 0x0D \<notin> set acc \<union> set s" and "length pre = offset"
    and "l \<in> set (source_lines_from offset (lines_acc acc s))"
  shows "sl_end l = sl_start l + length (sl_text l) \<and> sl_end l \<le> length (pre @ acc @ s) \<and>
    take (length (sl_text l)) (drop (sl_start l) (pre @ acc @ s)) = sl_text l"
  using assms
proof (induction s arbitrary: acc pre offset)
  case Nil
  then show ?case by (auto split: if_splits)
next
  case (Cons c s)
  show ?case
  proof (cases "c = CHR 0x0A")
    case True
    with Cons.prems have l: "l = \<lparr>sl_text = acc, sl_indent = length (takeWhile (\<lambda>b. b = CHR '' '') acc),
        sl_start = offset, sl_end = offset + length acc\<rparr> \<or>
      l \<in> set (source_lines_from (offset + length acc + 1) (lines_acc [] s))"
      by (auto simp: strip_cr_absent Let_def)
    with Cons.prems Cons.IH[of "[]" "pre @ acc @ [c]" "offset + length acc + 1"] True
    show ?thesis by auto
  next
    case False
    with Cons.prems Cons.IH[of "acc @ [c]" pre offset] show ?thesis by auto
  qed
qed

text \<open>
  A CRLF source gets the spans of its LF twin: the dropped carriage return is never counted.
\<close>

lemma source_lines_from_crlf:
  assumes "\<forall>l \<in> set ls. CHR 0x0A \<notin> set l \<and> CHR 0x0D \<notin> set l"
  shows "str_lines (concat (map (\<lambda>l. l @ [CHR 0x0D, CHR 0x0A]) ls)) = ls"
    and "str_lines (concat (map (\<lambda>l. l @ [CHR 0x0A]) ls)) = ls"
  using assms
proof (induction ls)
  case (Cons l ls)
  {
    case 1
    with Cons show ?case
      using lines_acc_break[of "l @ [CHR 0x0D]" "[]"] by (simp add: str_lines_def)
  next
    case 2
    with Cons show ?case
      using lines_acc_break[of l "[]"] by (simp add: str_lines_def strip_cr_absent)
  }
qed (simp_all add: str_lines_def)

section \<open>Comments\<close>

lemma comment_start_plain:
  "dquote \<notin> set r \<Longrightarrow> squote \<notin> set r \<Longrightarrow> comment_start None i r = map_option ((+) i) (find_char CHR ''#'' r)"
proof (induction r arbitrary: i)
  case (Cons b r)
  then show ?case by (cases "find_char CHR ''#'' r") auto
qed simp

lemma strip_inline_comment_prefix: "\<exists>t. line = strip_inline_comment line @ t"
proof (cases "comment_start None 0 line")
  case (Some i)
  then have "strip_inline_comment line = trim_end (take i line)"
    by (simp add: strip_inline_comment_def)
  then show ?thesis
    using trim_end_prefix[of "take i line"] by (metis append_assoc append_take_drop_id)
qed (simp add: strip_inline_comment_def)

section \<open>Comma splitting\<close>

text \<open>Without quotes, stripping keeps exactly what precedes the first hash, without trailing whitespace.\<close>

lemma strip_inline_comment_spec:
  "(\<exists>t. line = strip_inline_comment line @ t) \<and>
   (dquote \<notin> set line \<and> squote \<notin> set line \<longrightarrow>
      strip_inline_comment line =
        (case find_char CHR ''#'' line of None \<Rightarrow> line | Some i \<Rightarrow> trim_end (take i line)))"
  using strip_inline_comment_prefix[of line]
  by (cases "find_char CHR ''#'' line") (auto simp: strip_inline_comment_def comment_start_plain)

lemma split_commas_from_not_Nil [simp]: "split_commas_from d q p r \<noteq> []"
  by (induction d q p r rule: split_commas_from.induct) simp_all

lemma split_commas_from_join: "join '','' (split_commas_from d q p r) = p @ r"
  by (induction d q p r rule: split_commas_from.induct) (simp_all add: join_Cons)

text \<open>The scanner's state after a text, and the absence of a top-level comma in it.\<close>

fun scan_state :: "int \<Rightarrow> bool \<Rightarrow> string \<Rightarrow> int \<times> bool" where
  "scan_state depth in_string [] = (depth, in_string)"
| "scan_state depth in_string (ch # r) =
     (if ch = dquote then scan_state depth (\<not> in_string) r
      else if in_string then scan_state depth in_string r
      else if ch = CHR ''('' \<or> ch = CHR ''['' then scan_state (depth + 1) in_string r
      else if ch = CHR '')'' \<or> ch = CHR '']'' then scan_state (depth - 1) in_string r
      else scan_state depth in_string r)"

definition top_level_comma :: "string \<Rightarrow> nat \<Rightarrow> bool" where
  "top_level_comma text i \<longleftrightarrow>
     i < length text \<and> text ! i = CHR '','' \<and> scan_state 0 False (take i text) = (0, False)"

lemma scan_state_append:
  "scan_state d q (a @ b) = (case scan_state d q a of (d', q') \<Rightarrow> scan_state d' q' b)"
  by (induction d q a rule: scan_state.induct) auto

lemma split_commas_from_pieces:
  assumes "scan_state 0 False piece = (depth, in_string)" and "\<nexists>i. top_level_comma piece i"
    and "w \<in> set (split_commas_from depth in_string piece r)"
  shows "\<nexists>i. top_level_comma w i"
  using assms
proof (induction depth in_string piece r rule: split_commas_from.induct)
  case (1 depth in_string piece)
  then show ?case by simp
next
  case (2 depth in_string piece ch r)
  have snoc: "\<nexists>i. top_level_comma (piece @ [ch]) i" if "ch \<noteq> CHR '','' \<or> (depth, in_string) \<noteq> (0, False)"
  proof
    assume "\<exists>i. top_level_comma (piece @ [ch]) i"
    then obtain i where i: "top_level_comma (piece @ [ch]) i" ..
    show False
    proof (cases "i < length piece")
      case True
      with i have "top_level_comma piece i" by (simp add: top_level_comma_def nth_append)
      with "2.prems"(2) show False by blast
    next
      case False
      with i have "i = length piece" by (simp add: top_level_comma_def)
      with i that "2.prems"(1) show False by (auto simp: top_level_comma_def)
    qed
  qed
  have empty: "\<nexists>i. top_level_comma [] i" by (simp add: top_level_comma_def)
  have st: "scan_state 0 False (piece @ [ch]) = scan_state depth in_string [ch]"
    using "2.prems"(1) by (simp add: scan_state_append)
  show ?case
  proof (cases "ch = CHR '','' \<and> depth = 0 \<and> \<not> in_string")
    case True
    with 2 empty show ?thesis by (auto simp: top_level_comma_def)
  next
    case False
    then have "\<nexists>i. top_level_comma (piece @ [ch]) i" using snoc by auto
    with False 2 st show ?thesis by (auto split: if_splits)
  qed
qed

section \<open>Token search\<close>

text \<open>The quote- and bracket-aware scan state just after the byte at a position.\<close>

fun quote_scan :: "int \<Rightarrow> bool \<Rightarrow> string \<Rightarrow> int \<times> bool" where
  "quote_scan depth in_quote [] = (depth, in_quote)"
| "quote_scan depth in_quote (b # r) =
     quote_scan
       (if b \<noteq> dquote \<and> (b = CHR ''('' \<or> b = CHR ''['') \<and> \<not> in_quote then depth + 1
        else if b \<noteq> dquote \<and> (b = CHR '')'' \<or> b = CHR '']'') \<and> \<not> in_quote then depth - 1
        else depth)
       (if b = dquote then \<not> in_quote else in_quote) r"

definition visible_at :: "int \<Rightarrow> bool \<Rightarrow> string \<Rightarrow> string \<Rightarrow> nat \<Rightarrow> bool" where
  "visible_at depth in_quote text needle i \<longleftrightarrow>
     i < length text \<and> starts_with (drop i text) needle \<and>
     quote_scan depth in_quote (take (Suc i) text) = (0, False)"

lemma starts_with_length: "starts_with s p \<Longrightarrow> length p \<le> length s"
  by (auto simp: starts_with_iff)

lemma visible_at_length: "visible_at d q tx needle i \<Longrightarrow> length needle \<le> length tx"
  unfolding visible_at_def using starts_with_length[of "drop i tx" needle] by simp

lemma visible_at_Cons:
  "visible_at d q (b # r) needle i \<longleftrightarrow>
     (case i of 0 \<Rightarrow> starts_with (b # r) needle \<and> quote_scan d q [b] = (0, False)
      | Suc j \<Rightarrow> (case quote_scan d q [b] of (d', q') \<Rightarrow> visible_at d' q' r needle j))"
  by (auto simp: visible_at_def split: nat.split)

lemma find_top_level_token_from_spec:
  "find_top_level_token_from needle d q k tx =
     (if \<exists>i. visible_at d q tx needle i then Some (k + (LEAST i. visible_at d q tx needle i)) else None)"
proof (induction needle d q k tx rule: find_top_level_token_from.induct)
  case (1 needle depth in_quote i)
  show ?case by (simp add: visible_at_def)
next
  case (2 needle d q k b r)
  obtain d' q' where st: "quote_scan d q [b] = (d', q')" by fastforce
  then have dq: "(if b \<noteq> dquote \<and> (b = CHR ''('' \<or> b = CHR ''['') \<and> \<not> q then d + 1
       else if b \<noteq> dquote \<and> (b = CHR '')'' \<or> b = CHR '']'') \<and> \<not> q then d - 1 else d) = d'"
    "(if b = dquote then \<not> q else q) = q'"
    by (simp_all only: quote_scan.simps prod.inject)
  have zero: "visible_at d q (b # r) needle 0 \<longleftrightarrow> \<not> q' \<and> d' = 0 \<and> starts_with (b # r) needle"
    unfolding visible_at_Cons nat.simps st by auto
  have suc: "visible_at d q (b # r) needle (Suc j) \<longleftrightarrow> visible_at d' q' r needle j" for j
    using st by (simp only: visible_at_Cons nat.simps prod.case)
  show ?case
  proof (cases "length needle \<le> length (b # r)")
    case False
    then have "\<nexists>i. visible_at d q (b # r) needle i"
      using visible_at_length by blast
    with False show ?thesis by simp
  next
    case len: True
    then have step: "find_top_level_token_from needle d q k (b # r) =
        (if \<not> q' \<and> d' = 0 \<and> starts_with (b # r) needle then Some k
         else find_top_level_token_from needle d' q' (k + 1) r)"
      by (simp only: find_top_level_token_from.simps Let_def dq if_True)
    show ?thesis
    proof (cases "visible_at d q (b # r) needle 0")
      case True
      then have "(LEAST i. visible_at d q (b # r) needle i) = 0" by (rule Least_eq_0)
      with True step zero show ?thesis by auto
    next
      case False
      have ex: "(\<exists>i. visible_at d q (b # r) needle i) \<longleftrightarrow> (\<exists>j. visible_at d' q' r needle j)"
        using False suc by (metis not0_implies_Suc)
      have least: "(LEAST i. visible_at d q (b # r) needle i) = Suc (LEAST j. visible_at d' q' r needle j)"
        if "visible_at d' q' r needle j" for j
      proof -
        from that have "visible_at d q (b # r) needle (Suc j)" by (simp only: suc)
        from Least_Suc[of "\<lambda>i. visible_at d q (b # r) needle i", OF this False] show ?thesis
          unfolding suc .
      qed
      have "\<not> (\<not> q' \<and> d' = 0 \<and> starts_with (b # r) needle)" using False zero by blast
      with 2[OF len refl refl, unfolded dq] step ex least show ?thesis by auto
    qed
  qed
qed

section \<open>The interface of the indentation parsers\<close>

text \<open>
  Every block parser takes the lines of a file and the index of a header and answers with a
  declaration and the index of the first line it did not take. Progress and bounds are the two laws
  its callers rely on: their loops advance, and the index stays usable.
\<close>

locale block_parser =
  fixes parse_block :: "source_line list \<Rightarrow> nat \<Rightarrow> (ParseError, 'a \<times> nat) result"
  assumes advances: "start < length ls \<Longrightarrow> parse_block ls start = Ok (decl, next) \<Longrightarrow> start < next"
    and stays: "start < length ls \<Longrightarrow> parse_block ls start = Ok (decl, next) \<Longrightarrow> next \<le> length ls"
begin

lemma remaining_shrinks:
  "start < length ls \<Longrightarrow> parse_block ls start = Ok (decl, next) \<Longrightarrow>
   length ls - next < length ls - start"
  using advances[of start ls decl "next"] by simp

text \<open>The last line a block covers, as its caller computes it, is a line of the file.\<close>

lemma last_line_valid:
  "start < length ls \<Longrightarrow> parse_block ls start = Ok (decl, next) \<Longrightarrow>
   max (next - 1) start < length ls"
  using advances[of start ls decl "next"] stays[of start ls decl "next"] by simp

end

section \<open>Properties\<close>

text \<open>
  C1. Line spans are exact for LF text: in a source without carriage returns, the byte range
  \<^verbatim>\<open>start..end\<close> of every source line lies inside the source and reads exactly the line's
  text, so every span built from it points at the authored bytes.
\<close>

theorem source_lines_exact:
  assumes "CHR 0x0D \<notin> set source" and "l \<in> set (source_lines source)"
  shows "sl_end l \<le> length source \<and>
    take (sl_end l - sl_start l) (drop (sl_start l) source) = sl_text l"
proof -
  have "sl_end l = sl_start l + length (sl_text l) \<and> sl_end l \<le> length source \<and>
      take (length (sl_text l)) (drop (sl_start l) source) = sl_text l"
    using source_lines_from_exact[of "[]" source "[]" 0 l] assms
    by (simp add: source_lines_def str_lines_def)
  then show ?thesis by simp
qed

theorem source_lines_exact_witness:
  "\<exists>l \<in> set (source_lines (''ab'' @ [CHR 0x0A] @ ''  cd'')).
     sl_text l = ''  cd'' \<and> take (sl_end l - sl_start l) (drop (sl_start l) (''ab'' @ [CHR 0x0A] @ ''  cd'')) = ''  cd''"
proof -
  let ?l = "\<lparr>sl_text = ''  cd'', sl_indent = 2, sl_start = 3, sl_end = 7\<rparr>"
  have mem: "?l \<in> set (source_lines (''ab'' @ [CHR 0x0A] @ ''  cd''))"
    by (simp add: source_lines_def str_lines_def strip_cr_def)
  have "CHR 0x0D \<notin> set (''ab'' @ [CHR 0x0A] @ ''  cd'')" by simp
  from source_lines_exact[OF this mem] mem show ?thesis by (intro bexI[of _ ?l]) auto
qed

text \<open>
  Carriage returns are not counted: a CRLF file gets, line by line, exactly the spans of its LF
  twin, so from the second line on every span of a CRLF file starts one byte per preceding line too
  early, and already \<^verbatim>\<open>a CR LF b\<close> assigns its second line a range that reads a line feed
  instead of the line.
\<close>

lemma source_lines_crlf_drift:
  "(\<forall>ls. (\<forall>l \<in> set ls. CHR 0x0A \<notin> set l \<and> CHR 0x0D \<notin> set l) \<longrightarrow>
      source_lines (concat (map (\<lambda>l. l @ [CHR 0x0D, CHR 0x0A]) ls)) =
      source_lines (concat (map (\<lambda>l. l @ [CHR 0x0A]) ls))) \<and>
   (\<exists>l \<in> set (source_lines (''a'' @ [CHR 0x0D, CHR 0x0A] @ ''b'')).
      sl_text l = ''b'' \<and>
      take (sl_end l - sl_start l) (drop (sl_start l) (''a'' @ [CHR 0x0D, CHR 0x0A] @ ''b'')) = [CHR 0x0A])"
proof
  show "\<exists>l \<in> set (source_lines (''a'' @ [CHR 0x0D, CHR 0x0A] @ ''b'')).
      sl_text l = ''b'' \<and>
      take (sl_end l - sl_start l) (drop (sl_start l) (''a'' @ [CHR 0x0D, CHR 0x0A] @ ''b'')) = [CHR 0x0A]"
    by (simp add: source_lines_def str_lines_def strip_cr_def)
qed (simp add: source_lines_def source_lines_from_crlf)

lemma source_lines_crlf_drift_example:
  "source_lines (concat (map (\<lambda>l. l @ [CHR 0x0D, CHR 0x0A]) [''x'', ''yz''])) =
   source_lines (concat (map (\<lambda>l. l @ [CHR 0x0A]) [''x'', ''yz'']))"
  by (rule source_lines_crlf_drift[THEN conjunct1, rule_format]) auto

text \<open>
  Splitting an argument list at its top-level commas loses nothing and splits everywhere it
  should: the pieces joined by commas are the text again, and no piece contains a comma outside
  brackets and string literals.
\<close>

lemma split_top_level_commas_roundtrip:
  "join '','' (split_top_level_commas tx) = tx \<and>
   (\<forall>piece \<in> set (split_top_level_commas tx). \<nexists>i. top_level_comma piece i)"
proof
  show "join '','' (split_top_level_commas tx) = tx"
    by (simp add: split_top_level_commas_def split_commas_from_join)
  have "\<nexists>i. top_level_comma [] i" by (simp add: top_level_comma_def)
  then show "\<forall>piece \<in> set (split_top_level_commas tx). \<nexists>i. top_level_comma piece i"
    unfolding split_top_level_commas_def
    using split_commas_from_pieces[of "[]" 0 False _ tx] by simp
qed

lemma split_top_level_commas_roundtrip_example:
  "split_top_level_commas ''a(b,c),d'' = [''a(b,c)'', ''d''] \<and>
   join '','' (split_top_level_commas ''a(b,c),d'') = ''a(b,c),d'' \<and>
   (\<nexists>i. top_level_comma ''a(b,c)'' i)"
proof -
  have "split_top_level_commas ''a(b,c),d'' = [''a(b,c)'', ''d'']"
    by (simp add: split_top_level_commas_def)
  with split_top_level_commas_roundtrip[of "''a(b,c),d''"] show ?thesis by simp
qed

text \<open>
  The quote-aware search returns the least position at which the needle occurs outside brackets
  and double quotes (the nesting counted up to and including that byte), and nothing exactly when
  there is no such position.
\<close>

lemma find_top_level_token_least:
  "find_top_level_token tx needle =
     (if \<exists>i. visible_at 0 False tx needle i
      then Some (LEAST i. visible_at 0 False tx needle i) else None)"
  by (simp add: find_top_level_token_def find_top_level_token_from_spec)

end
