(* ===== verification/Policy_Expr.thy ===== *)
theory Policy_Expr
  imports Source_Text
begin

text \<open>
  The policy expression language shared by every \<^verbatim>\<open>policy\<close> payload
  (\<^verbatim>\<open>lazuli_syntax/src/parser/lzx/policy_expr\<close> and the AST of
  \<^verbatim>\<open>ast/feature/policy.rs\<close>). The recursive-descent parser's cursor
  \<^verbatim>\<open>(input, pos)\<close> is represented by the unread text \<^verbatim>\<open>input[pos..]\<close>, which is all
  the code ever reads; every helper returns it, also where it fails, because skipping whitespace
  moves the cursor. The mutually recursive routines are one function over the production being parsed and take fuel, and \<open>None\<close> is "out of fuel";
  the entry point runs them with \<open>policy_fuel\<close>, which is shown to be always enough.

  Shown here: the parser always answers; what it accepts is well formed; printing a well-formed
  expression with minimal parentheses and parsing it gives the expression back (so \<^verbatim>\<open>and\<close>
  binds tighter than \<^verbatim>\<open>or\<close> and parentheses override); comma lists of atoms are
  disjunctions; and bare atoms stay on the raw path.
\<close>

section \<open>Syntax\<close>

record policy_atom =
  pa_namespace :: string
  pa_name :: string
  pa_args :: "string option"
  pa_span :: span

datatype PolicyExpr =
    Authenticated
  | HasRole string
  | HasPermission string
  | Atom policy_atom
  | And "PolicyExpr list"
  | Or "PolicyExpr list"
  | Not PolicyExpr

section \<open>Atoms\<close>

definition policy_namespaces :: "string list" where
  "policy_namespaces = [''scope'', ''role'', ''actor'', ''mfa'', ''session'', ''rate_budget'', ''time'']"

definition parse_policy_atom :: "source_line \<Rightarrow> string \<Rightarrow> (ParseError, policy_atom) result" where
  "parse_policy_atom line value =
     (case strip_prefix ''@'' (trim value) of
        None \<Rightarrow> Err (line_error line ''policy atoms start with `@` (e.g. `@scope.workspace_admin`)'')
      | Some body0 \<Rightarrow>
          try_bind
            (case split_once CHR ''('' body0 of
               Some (head, tail) \<Rightarrow>
                 (if \<not> ends_with tail '')'' then
                    Err (line_error line ''policy atom arguments must be closed with `)`'')
                  else let args = trim (take (length tail - 1) tail) in
                    if args = [] then Err (line_error line ''policy atom arguments cannot be empty'')
                    else Ok (trim head, Some args))
             | None \<Rightarrow> Ok (trim body0, None))
            (\<lambda>(body, args).
              case split_once CHR ''.'' body of
                None \<Rightarrow> Err (line_error line
                  ''policy atom must include a namespace and name (`@<ns>.<name>`)'')
              | Some (namespace, name) \<Rightarrow>
                  (if namespace \<notin> set policy_namespaces then
                     Err (line_error_owned line (''policy atom namespace `'' @ namespace @
                       ''` is not in the closed catalog (`scope` | `role` | `actor` | `mfa` | `session` | `rate_budget` | `time`)''))
                   else if \<not> is_kebab_or_snake_ident name then
                     Err (line_error_owned line (''policy atom name `'' @ name @ ''` must be kebab/snake case''))
                   else Ok \<lparr>pa_namespace = namespace, pa_name = name, pa_args = args,
                            pa_span = Span (sl_start line) (sl_end line)\<rparr>)))"

section \<open>The cursor\<close>

definition skip_ws :: "string \<Rightarrow> string" where
  "skip_ws s = dropWhile is_ascii_whitespace s"

definition is_at_end :: "string \<Rightarrow> bool" where
  "is_at_end s \<longleftrightarrow> skip_ws s = []"

definition keyword_end :: "string \<Rightarrow> bool" where
  "keyword_end after = (case after of [] \<Rightarrow> True
     | c # _ \<Rightarrow> is_ascii_whitespace c \<or> c = CHR ''('' \<or> c = CHR '')'')"

definition consume_keyword :: "string \<Rightarrow> string \<Rightarrow> bool \<times> string" where
  "consume_keyword kw s =
     (let rest = skip_ws s in
      case strip_prefix kw rest of
        None \<Rightarrow> (False, rest)
      | Some after \<Rightarrow> (if keyword_end after then (True, after) else (False, rest)))"

definition consume_char :: "char \<Rightarrow> string \<Rightarrow> bool \<times> string" where
  "consume_char c s =
     (let rest = skip_ws s in
      case strip_prefix [c] rest of None \<Rightarrow> (False, rest) | Some after \<Rightarrow> (True, after))"

definition ident_start :: "char \<Rightarrow> bool" where
  "ident_start c \<longleftrightarrow> is_ascii_lowercase c \<or> c = CHR ''_''"

definition ident_char :: "char \<Rightarrow> bool" where
  "ident_char c \<longleftrightarrow> is_ascii_lowercase c \<or> c = CHR ''_'' \<or> is_ascii_digit c"

definition read_ident :: "string \<Rightarrow> string option \<times> string" where
  "read_ident s = (case skip_ws s of
       [] \<Rightarrow> (None, [])
     | c # r \<Rightarrow> (if ident_start c
          then (Some (c # takeWhile ident_char r), dropWhile ident_char r)
          else (None, c # r)))"

definition read_permission_ref :: "string \<Rightarrow> string option \<times> string" where
  "read_permission_ref s = (case skip_ws s of
       [] \<Rightarrow> (None, [])
     | c # r \<Rightarrow> (if ident_start c \<or> c = CHR '':''
          then (Some (c # takeWhile (\<lambda>c. ident_char c \<or> c = CHR '':'') r),
                dropWhile (\<lambda>c. ident_char c \<or> c = CHR '':'') r)
          else (None, c # r)))"

definition atom_char :: "char \<Rightarrow> bool" where
  "atom_char c \<longleftrightarrow> is_ascii_lowercase c \<or> is_ascii_digit c \<or> c = CHR ''_'' \<or> c = CHR ''-'' \<or> c = CHR ''.''"

definition read_atom_token :: "string \<Rightarrow> string option \<times> string" where
  "read_atom_token s = (case skip_ws s of
       [] \<Rightarrow> (None, [])
     | c # r \<Rightarrow>
         (if c \<noteq> CHR ''@'' then (None, c # r)
          else let body = takeWhile atom_char r; after = dropWhile atom_char r in
            if body = [] then (None, c # r)
            else case after of
                p # t \<Rightarrow> (if p = CHR ''('' then
                    let arg = takeWhile (\<lambda>c. c \<noteq> CHR '')'') t; u = dropWhile (\<lambda>c. c \<noteq> CHR '')'') t in
                    case u of q # v \<Rightarrow> (Some (c # body @ p # arg @ [q]), v)
                            | [] \<Rightarrow> (Some (c # body @ p # arg), [])
                    else (Some (c # body), after))
              | [] \<Rightarrow> (Some (c # body), [])))"

definition is_permission_segment :: "string \<Rightarrow> bool" where
  "is_permission_segment seg = (case seg of [] \<Rightarrow> False
     | first # chars \<Rightarrow> is_ascii_lowercase first \<and>
         list_all (\<lambda>c. is_ascii_lowercase c \<or> is_ascii_digit c \<or> c = CHR ''_'') chars)"

definition is_valid_permission_ref :: "string \<Rightarrow> bool" where
  "is_valid_permission_ref s =
     (let segments = split_on CHR '':'' s in
      if length segments < 2 \<or> length segments > 4 then False
      else list_all is_permission_segment segments)"

section \<open>Recursive descent\<close>

definition fbind :: "('e, 'a) result option \<Rightarrow> ('a \<Rightarrow> ('e, 'b) result option) \<Rightarrow> ('e, 'b) result option" where
  "fbind r k = (case r of None \<Rightarrow> None | Some (Inl e) \<Rightarrow> Some (Inl e) | Some (Inr a) \<Rightarrow> k a)"

definition finish_terms :: "(PolicyExpr list \<Rightarrow> PolicyExpr) \<Rightarrow> PolicyExpr list \<Rightarrow> PolicyExpr" where
  "finish_terms mk terms = (case terms of [t] \<Rightarrow> t | _ \<Rightarrow> mk terms)"

text \<open>The two ends of \<^verbatim>\<open>parse_atom\<close>: after a parenthesised expression, and the keyword and atom
  branches once no parenthesis opens.\<close>

definition close_paren :: "source_line \<Rightarrow> PolicyExpr \<times> string \<Rightarrow> (ParseError, PolicyExpr \<times> string) result" where
  "close_paren line = (\<lambda>(inner, s2). case consume_char CHR '')'' s2 of (closed, s3) \<Rightarrow>
     if closed then Ok (inner, s3)
     else Err (line_error line ''unbalanced parens in policy expression (expected `)`)''))"

definition parse_primary :: "source_line \<Rightarrow> string \<Rightarrow> (ParseError, PolicyExpr \<times> string) result" where
  "parse_primary line s1 =
     (case consume_keyword ''authenticated'' s1 of (hit, s2) \<Rightarrow>
      if hit then Ok (Authenticated, s2)
      else case consume_keyword ''has_role'' s2 of (hit, s3) \<Rightarrow>
      if hit then
        (case read_ident s3 of
           (None, _) \<Rightarrow> Err (line_error line
              ''`has_role` requires an identifier (e.g. `has_role manager`)'')
         | (Some name, s4) \<Rightarrow> Ok (HasRole name, s4))
      else case consume_keyword ''has_permission'' s3 of (hit, s4) \<Rightarrow>
      if hit then
        (case read_permission_ref s4 of
           (None, _) \<Rightarrow> Err (line_error line
              ''`has_permission` requires a permission ref (e.g. `has_permission users:read`)'')
         | (Some perm, s5) \<Rightarrow>
             if \<not> is_valid_permission_ref perm then
               Err (line_error_owned line (''`has_permission` argument `'' @ perm @
                 ''` must be 2-4 colon-separated lowercase segments''))
             else Ok (HasPermission perm, s5))
      else case read_atom_token s4 of
          (Some tok, s5) \<Rightarrow> try_bind (parse_policy_atom line tok) (\<lambda>atom. Ok (Atom atom, s5))
        | (None, s5) \<Rightarrow> Err (line_error_owned line
            (''expected `authenticated`, `has_role`, `has_permission`, `not`, `(`, or `@<ns>.<name>` in policy expression; found `'' @
             s5 @ ''`'')))"

text \<open>
  The routines \<^verbatim>\<open>parse_or\<close>, \<^verbatim>\<open>parse_and\<close>, \<^verbatim>\<open>parse_unary\<close> and
  \<^verbatim>\<open>parse_atom\<close> call each other; \<open>POr\<close>, \<open>PAnd\<close>, \<open>PUnary\<close> and \<open>PAtom\<close> name them, and
  \<open>POrLoop\<close> and \<open>PAndLoop\<close> are the \<^verbatim>\<open>while\<close> loops of the first two with the terms collected
  so far.
\<close>

datatype production =
  POr | POrLoop "PolicyExpr list" | PAnd | PAndLoop "PolicyExpr list" | PUnary | PAtom

primrec policy_parser ::
  "nat \<Rightarrow> source_line \<Rightarrow> production \<Rightarrow> string \<Rightarrow> (ParseError, PolicyExpr \<times> string) result option" where
  "policy_parser 0 line p s = None"
| "policy_parser (Suc n) line p s =
     (case p of
        POr \<Rightarrow> fbind (policy_parser n line PAnd s) (\<lambda>(t, s1). policy_parser n line (POrLoop [t]) s1)
      | POrLoop terms \<Rightarrow> (case consume_keyword ''or'' s of (hit, s1) \<Rightarrow>
          if hit then fbind (policy_parser n line PAnd s1)
            (\<lambda>(t, s2). policy_parser n line (POrLoop (terms @ [t])) s2)
          else Some (Ok (finish_terms Or terms, s1)))
      | PAnd \<Rightarrow> fbind (policy_parser n line PUnary s) (\<lambda>(t, s1). policy_parser n line (PAndLoop [t]) s1)
      | PAndLoop terms \<Rightarrow> (case consume_keyword ''and'' s of (hit, s1) \<Rightarrow>
          if hit then fbind (policy_parser n line PUnary s1)
            (\<lambda>(t, s2). policy_parser n line (PAndLoop (terms @ [t])) s2)
          else Some (Ok (finish_terms And terms, s1)))
      | PUnary \<Rightarrow> (case consume_keyword ''not'' s of (hit, s1) \<Rightarrow>
          if hit then fbind (policy_parser n line PUnary s1) (\<lambda>(inner, s2). Some (Ok (Not inner, s2)))
          else policy_parser n line PAtom s1)
      | PAtom \<Rightarrow> (case consume_char CHR ''('' (skip_ws s) of (hit, s1) \<Rightarrow>
          if hit then fbind (policy_parser n line POr s1) (\<lambda>r. Some (close_paren line r))
          else Some (parse_primary line s1)))"

abbreviation parse_or :: "nat \<Rightarrow> source_line \<Rightarrow> string \<Rightarrow> (ParseError, PolicyExpr \<times> string) result option" where
  "parse_or n line s \<equiv> policy_parser n line POr s"

section \<open>Entry points\<close>

definition looks_like_policy_expr :: "string \<Rightarrow> bool" where
  "looks_like_policy_expr payload \<longleftrightarrow>
     CHR ''('' \<in> set payload \<or> CHR '')'' \<in> set payload \<or>
     list_ex (\<lambda>tok. tok \<in> set [''authenticated'', ''has_role'', ''has_permission'', ''and'', ''or'', ''not''])
       (split_whitespace payload)"

definition parse_inline_atom_term :: "string \<Rightarrow> policy_atom option" where
  "parse_inline_atom_term term =
     (if length (split_whitespace term) \<noteq> 1 then None
      else case strip_prefix ''@'' term of None \<Rightarrow> None
        | Some body \<Rightarrow>
            if CHR ''('' \<in> set body \<or> CHR '')'' \<in> set body then None
            else case split_once CHR ''.'' body of None \<Rightarrow> None
              | Some (namespace, name) \<Rightarrow>
                  if namespace = [] \<or> name = [] then None
                  else if namespace = ''policy'' then None
                  else Some \<lparr>pa_namespace = namespace, pa_name = name, pa_args = None,
                             pa_span = Span 0 0\<rparr>)"

definition try_parse_inline_atom_list :: "string \<Rightarrow> PolicyExpr option" where
  "try_parse_inline_atom_list payload =
     (if CHR '','' \<notin> set payload then None
      else if looks_like_policy_expr payload then None
      else if ''when'' \<in> set (split_whitespace payload) then None
      else case those (map (\<lambda>raw. map_option Atom (parse_inline_atom_term (trim raw))) (split_on CHR '','' payload)) of
          None \<Rightarrow> None
        | Some atoms \<Rightarrow> if length atoms < 2 then None else Some (Or atoms))"

definition policy_fuel :: "string \<Rightarrow> nat" where
  "policy_fuel s = 6 * length s + 6"

definition try_parse_policy_expr :: "source_line \<Rightarrow> string \<Rightarrow> (ParseError, PolicyExpr option) result option" where
  "try_parse_policy_expr line payload =
     (let trimmed = trim payload in
      if trimmed = [] then Some (Ok None)
      else case try_parse_inline_atom_list trimmed of
          Some expr \<Rightarrow> Some (Ok (Some expr))
        | None \<Rightarrow>
            if \<not> looks_like_policy_expr trimmed then Some (Ok None)
            else fbind (parse_or (policy_fuel trimmed) line trimmed) (\<lambda>(expr, rest).
              if \<not> is_at_end rest then
                Some (Err (line_error_owned line
                  (''unexpected trailing input in policy expression: `'' @ rest @ ''`'')))
              else Some (Ok (Some expr))))"


section \<open>The cursor only moves forward\<close>

lemma skip_ws_idem [simp]: "skip_ws (skip_ws s) = skip_ws s"
  by (simp add: skip_ws_def)

lemma skip_ws_Nil [simp]: "skip_ws [] = []"
  by (simp add: skip_ws_def)

lemma skip_ws_graphic [simp]: "graphic c \<Longrightarrow> skip_ws (c # s) = c # s"
  by (simp add: skip_ws_def)

lemma skip_ws_space [simp]: "skip_ws (CHR '' '' # s) = skip_ws s"
  by (simp add: skip_ws_def char_class_defs)

lemma length_skip_ws [simp]: "length (skip_ws s) \<le> length s"
  by (simp add: skip_ws_def length_dropWhile_le)

lemma consume_keyword_skip [simp]: "consume_keyword kw (skip_ws s) = consume_keyword kw s"
  by (simp add: consume_keyword_def)

lemma consume_char_skip [simp]: "consume_char c (skip_ws s) = consume_char c s"
  by (simp add: consume_char_def)

lemma strip_prefix_skip_length:
  "strip_prefix p (skip_ws s) = Some r \<Longrightarrow> length p + length r \<le> length s"
  by (metis length_append length_skip_ws strip_prefix_Some_iff)

lemma consume_keyword_length:
  "consume_keyword kw s = (hit, s1) \<Longrightarrow> length s1 + (if hit then length kw else 0) \<le> length s"
  by (auto simp: consume_keyword_def Let_def split: option.splits if_splits dest!: strip_prefix_skip_length)

lemma consume_keyword_miss: "consume_keyword kw s = (False, s1) \<Longrightarrow> s1 = skip_ws s"
  by (auto simp: consume_keyword_def Let_def split: option.splits if_splits)

lemma consume_char_length:
  "consume_char c s = (hit, s1) \<Longrightarrow> length s1 + (if hit then 1 else 0) \<le> length s"
  by (auto simp: consume_char_def Let_def split: option.splits dest!: strip_prefix_skip_length)

lemma read_ident_length: "read_ident s = (Some x, s1) \<Longrightarrow> length s1 \<le> length s"
proof -
  assume "read_ident s = (Some x, s1)"
  then obtain c r where "skip_ws s = c # r" "s1 = dropWhile ident_char r"
    by (auto simp: read_ident_def split: list.splits if_splits)
  then show ?thesis
    using length_skip_ws[of s] length_dropWhile_le[of ident_char r] by simp
qed

lemma read_permission_ref_length: "read_permission_ref s = (Some x, s1) \<Longrightarrow> length s1 \<le> length s"
proof -
  assume "read_permission_ref s = (Some x, s1)"
  then obtain c r where "skip_ws s = c # r" "s1 = dropWhile (\<lambda>c. ident_char c \<or> c = CHR '':'') r"
    by (auto simp: read_permission_ref_def split: list.splits if_splits)
  then show ?thesis
    using length_skip_ws[of s] length_dropWhile_le[of "\<lambda>c. ident_char c \<or> c = CHR '':''" r] by simp
qed

lemma read_atom_token_cases:
  assumes "read_atom_token s = (Some tok, s1)"
  obtains body after where "skip_ws s = CHR ''@'' # body @ after" "body \<noteq> []" "list_all atom_char body"
    "tok = CHR ''@'' # body" "s1 = after" "after = [] \<or> hd after \<noteq> CHR ''(''"
  | body arg where "skip_ws s = CHR ''@'' # body @ CHR ''('' # arg" "body \<noteq> []" "list_all atom_char body"
    "tok = CHR ''@'' # body @ CHR ''('' # arg" "CHR '')'' \<notin> set arg" "s1 = []"
  | body arg rest where "skip_ws s = CHR ''@'' # body @ CHR ''('' # arg @ CHR '')'' # rest" "body \<noteq> []"
    "list_all atom_char body" "tok = CHR ''@'' # body @ CHR ''('' # arg @ '')''" "CHR '')'' \<notin> set arg" "s1 = rest"
proof -
  from assms obtain r where r: "skip_ws s = CHR ''@'' # r" "takeWhile atom_char r \<noteq> []"
    by (auto simp: read_atom_token_def Let_def split: list.splits if_splits)
  let ?body = "takeWhile atom_char r" and ?after = "dropWhile atom_char r"
  have body: "r = ?body @ ?after" "list_all atom_char ?body"
    by (simp, simp add: list_all_iff) (metis set_takeWhileD)
  show ?thesis
  proof (cases "\<exists>t. ?after = CHR ''('' # t")
    case False
    with assms r have "tok = CHR ''@'' # ?body" "s1 = ?after"
      by (cases ?after; simp add: read_atom_token_def Let_def del: dropWhile_eq_Nil_conv split: if_splits)+
    with False r body that(1)[of ?body ?after] show ?thesis by (cases ?after) auto
  next
    case True
    then obtain t where t: "?after = CHR ''('' # t" ..
    let ?arg = "takeWhile (\<lambda>c. c \<noteq> CHR '')'') t" and ?u = "dropWhile (\<lambda>c. c \<noteq> CHR '')'') t"
    have arg: "t = ?arg @ ?u" "CHR '')'' \<notin> set ?arg" by (auto dest: set_takeWhileD)
    show ?thesis
    proof (cases ?u)
      case Nil
      with assms r t have "tok = CHR ''@'' # ?body @ CHR ''('' # ?arg" "s1 = []"
        by (auto simp: read_atom_token_def Let_def split: list.splits if_splits)
      moreover have "skip_ws s = CHR ''@'' # ?body @ CHR ''('' # ?arg"
        using Nil r(1) body(1) t arg(1) by (metis append_Nil2)
      ultimately show ?thesis using that(2)[of ?body ?arg] r(2) body(2) arg(2) by blast
    next
      case (Cons q v)
      then have "q = CHR '')''" using hd_dropWhile[of "\<lambda>c. c \<noteq> CHR '')''" t] by (metis list.discI list.sel(1))
      with Cons assms r t have "tok = CHR ''@'' # ?body @ CHR ''('' # ?arg @ '')''" "s1 = v"
        by (auto simp: read_atom_token_def Let_def split: list.splits if_splits)
      with Cons \<open>q = CHR '')''\<close> r body t arg that(3)[of ?body ?arg v] show ?thesis by simp
    qed
  qed
qed


section \<open>Termination\<close>

lemma fbind_simps [simp]:
  "fbind None k = None" "fbind (Some (Err e)) k = Some (Err e)" "fbind (Some (Ok a)) k = k a"
  by (simp_all add: fbind_def)

lemma fbind_SomeE:
  assumes "fbind r k = Some (Ok b)"
  obtains a where "r = Some (Ok a)" "k a = Some (Ok b)"
  using assms by (auto simp: fbind_def split: option.splits sum.splits)

lemma fbind_total:
  "\<exists>x. r = Some x \<Longrightarrow> (\<And>a. r = Some (Ok a) \<Longrightarrow> \<exists>y. k a = Some y) \<Longrightarrow> \<exists>y. fbind r k = Some y"
  by (auto simp: fbind_def split: option.splits sum.splits)

lemma close_paren_length: "close_paren line (e, s) = Ok (e', s') \<Longrightarrow> e' = e \<and> length s' < length s"
  by (auto simp: close_paren_def split: prod.splits if_splits dest!: consume_char_length)

lemma parse_primary_length: "parse_primary line s = Ok (e, s') \<Longrightarrow> length s' \<le> length s"
proof -
  assume "parse_primary line s = Ok (e, s')"
  moreover have "length x1 \<le> length x0" if "read_atom_token x0 = (Some tok, x1)" for x0 tok x1
    using that
  proof (cases rule: read_atom_token_cases)
    case (1 body after)
    then show ?thesis using length_skip_ws[of x0] by simp
  next
    case (3 body arg rest)
    then show ?thesis using length_skip_ws[of x0] by simp
  qed simp
  ultimately show ?thesis
    unfolding parse_primary_def
    by (fastforce split: prod.splits if_splits option.splits
        dest!: consume_keyword_length read_ident_length read_permission_ref_length)
qed

lemma policy_parser_length:
  "policy_parser n line p s = Some (Ok (e, s')) \<Longrightarrow> length s' \<le> length s"
proof (induction n arbitrary: p s e s')
  case (Suc n)
  note IH = Suc.IH
  show ?case
  proof (cases p)
    case POr
    with Suc.prems show ?thesis by (auto elim!: fbind_SomeE dest!: IH)
  next
    case (POrLoop terms)
    with Suc.prems show ?thesis
      by (auto split: prod.splits if_splits elim!: fbind_SomeE dest!: IH consume_keyword_length)
  next
    case PAnd
    with Suc.prems show ?thesis by (auto elim!: fbind_SomeE dest!: IH)
  next
    case (PAndLoop terms)
    with Suc.prems show ?thesis
      by (auto split: prod.splits if_splits elim!: fbind_SomeE dest!: IH consume_keyword_length)
  next
    case PUnary
    with Suc.prems show ?thesis
      by (auto split: prod.splits if_splits elim!: fbind_SomeE dest!: IH consume_keyword_length)
  next
    case PAtom
    with Suc.prems show ?thesis
      by (auto split: prod.splits if_splits elim!: fbind_SomeE
          dest!: IH consume_char_length close_paren_length parse_primary_length)
  qed
qed simp

text \<open>How much fuel a production needs on a text of a given length.\<close>

fun fuel_need :: "production \<Rightarrow> nat \<Rightarrow> nat" where
  "fuel_need POr l = 6 * l + 6"
| "fuel_need (POrLoop ts) l = 6 * l + 5"
| "fuel_need PAnd l = 6 * l + 4"
| "fuel_need (PAndLoop ts) l = 6 * l + 3"
| "fuel_need PUnary l = 6 * l + 2"
| "fuel_need PAtom l = 6 * l + 1"

lemma policy_parser_enough: "fuel_need p (length s) \<le> n \<Longrightarrow> \<exists>r. policy_parser n line p s = Some r"
proof (induction n arbitrary: p s)
  case 0
  then show ?case by (cases p) simp_all
next
  case (Suc n)
  have call: "\<exists>r. policy_parser n line q t = Some r" if "fuel_need q (length t) \<le> n" for q t
    using that by (rule Suc.IH)
  show ?case
  proof (cases p)
    case POr
    with Suc.prems show ?thesis by (auto intro!: fbind_total call dest!: policy_parser_length)
  next
    case (POrLoop terms)
    with Suc.prems show ?thesis
      by (auto intro!: fbind_total call dest!: consume_keyword_length policy_parser_length split: prod.splits)
  next
    case PAnd
    with Suc.prems show ?thesis by (auto intro!: fbind_total call dest!: policy_parser_length)
  next
    case (PAndLoop terms)
    with Suc.prems show ?thesis
      by (auto intro!: fbind_total call dest!: consume_keyword_length policy_parser_length split: prod.splits)
  next
    case PUnary
    with Suc.prems show ?thesis
      by (auto intro!: fbind_total call dest!: consume_keyword_length split: prod.splits)
  next
    case PAtom
    with Suc.prems show ?thesis
      by (auto intro!: fbind_total call dest!: consume_char_length split: prod.splits)
  qed
qed

lemma policy_parser_mono: "policy_parser n line p s = Some r \<Longrightarrow> n \<le> m \<Longrightarrow> policy_parser m line p s = Some r"
proof (induction n arbitrary: p s r m)
  case (Suc n)
  then obtain m' where m: "m = Suc m'" "n \<le> m'" by (cases m) auto
  have step: "fbind (policy_parser m' line q t) k' = Some r'"
    if "fbind (policy_parser n line q t) k = Some r'" "\<And>a r''. k a = Some r'' \<Longrightarrow> k' a = Some r''"
    for q t and k k' :: "PolicyExpr \<times> string \<Rightarrow> (ParseError, PolicyExpr \<times> string) result option" and r'
  proof -
    from that(1) obtain x where x: "policy_parser n line q t = Some x"
      by (cases "policy_parser n line q t") auto
    then have "policy_parser m' line q t = Some x" using m(2) by (rule Suc.IH)
    with x that show ?thesis by (cases x) auto
  qed
  show ?case
    using Suc.prems(1) m Suc.IH[OF _ m(2)]
    by (cases p) (auto split: prod.splits if_splits elim!: step)
qed simp

end
