(* ===== verification/Policy_Print.thy ===== *)
theory Policy_Print
  imports Policy_Expr
begin

text \<open>
  The reference grammar of policy expressions as a printer, and the proof that the recursive-descent
  parser of \<^verbatim>\<open>Policy_Expr\<close> inverts it. \<open>wf_policy\<close> is the set of expressions the grammar has:
  conjunctions and disjunctions of at least two terms, names of the right lexical class, atoms of
  the closed catalog carrying the span of the line. \<open>show_policy\<close> prints with the fewest
  parentheses: level 0 is a disjunction, 1 a conjunction, 2 an operand.
\<close>

section \<open>Well-formed expressions and their concrete syntax\<close>

definition wf_role :: "string \<Rightarrow> bool" where
  "wf_role r = (case r of [] \<Rightarrow> False | c # t \<Rightarrow> ident_start c \<and> list_all ident_char t)"

definition wf_atom :: "source_line \<Rightarrow> policy_atom \<Rightarrow> bool" where
  "wf_atom line a \<longleftrightarrow>
     pa_namespace a \<in> set policy_namespaces \<and> is_kebab_or_snake_ident (pa_name a) \<and>
     pa_span a = Span (sl_start line) (sl_end line) \<and>
     (case pa_args a of None \<Rightarrow> True | Some args \<Rightarrow> args \<noteq> [] \<and> trim args = args \<and> CHR '')'' \<notin> set args)"

fun wf_policy :: "source_line \<Rightarrow> PolicyExpr \<Rightarrow> bool" where
  "wf_policy line Authenticated = True"
| "wf_policy line (HasRole r) = wf_role r"
| "wf_policy line (HasPermission p) = is_valid_permission_ref p"
| "wf_policy line (Atom a) = wf_atom line a"
| "wf_policy line (And ts) = (2 \<le> length ts \<and> list_all (wf_policy line) ts)"
| "wf_policy line (Or ts) = (2 \<le> length ts \<and> list_all (wf_policy line) ts)"
| "wf_policy line (Not e) = wf_policy line e"

definition show_atom :: "policy_atom \<Rightarrow> string" where
  "show_atom a = ''@'' @ pa_namespace a @ ''.'' @ pa_name a @
     (case pa_args a of None \<Rightarrow> [] | Some args \<Rightarrow> ''('' @ args @ '')'')"

fun show_policy :: "nat \<Rightarrow> PolicyExpr \<Rightarrow> string" where
  "show_policy l Authenticated = ''authenticated''"
| "show_policy l (HasRole r) = ''has_role '' @ r"
| "show_policy l (HasPermission p) = ''has_permission '' @ p"
| "show_policy l (Atom a) = show_atom a"
| "show_policy l (And ts) =
     (let body = join '' and '' (map (show_policy 2) ts) in if 1 < l then ''('' @ body @ '')'' else body)"
| "show_policy l (Or ts) =
     (let body = join '' or '' (map (show_policy 1) ts) in if 0 < l then ''('' @ body @ '')'' else body)"
| "show_policy l (Not e) = ''not '' @ show_policy 2 e"

section \<open>Lexical facts\<close>

text \<open>What may follow a printed operand: nothing, a space or a closing parenthesis.\<close>

definition delim :: "string \<Rightarrow> bool" where
  "delim r = (case r of [] \<Rightarrow> True | c # _ \<Rightarrow> c = CHR '' '' \<or> c = CHR '')'')"

lemma delim_simps [simp]: "delim []" "delim (CHR '' '' # s)" "delim (CHR '')'' # s)"
  by (simp_all add: delim_def)

lemma punct_graphic [simp]:
  "graphic CHR ''('' " "graphic CHR '')'' " "graphic CHR ''@'' " "graphic CHR ''.'' " "graphic CHR ''_'' "
  "graphic CHR ''-'' " "graphic CHR '':'' " "graphic CHR ''a''" "graphic CHR ''h''" "graphic CHR ''n''"
  "graphic CHR ''o''"
  by (simp_all add: char_class_defs)

lemma ident_char_graphic: "ident_char c \<Longrightarrow> graphic c"
  by (auto simp: ident_char_def)

lemma ident_start_graphic: "ident_start c \<Longrightarrow> graphic c"
  by (auto simp: ident_start_def)

lemma atom_char_graphic: "atom_char c \<Longrightarrow> graphic c"
  by (auto simp: atom_char_def)

lemma not_delim_chars [simp]:
  "\<not> ident_char CHR '' ''" "\<not> ident_char CHR '')''" "\<not> atom_char CHR '' ''" "\<not> atom_char CHR '')''"
  "\<not> atom_char CHR ''(''"
  by (simp_all add: ident_char_def atom_char_def char_class_defs)

lemma takeWhile_delim:
  assumes "list_all P w" "delim r" "\<not> P CHR '' ''" "\<not> P CHR '')''"
  shows "takeWhile P (w @ r) = w" "dropWhile P (w @ r) = r"
  using assms by (induction w) (auto simp: delim_def split: list.splits)

lemma keyword_end_delim [simp]: "delim r \<Longrightarrow> keyword_end r"
  by (auto simp: delim_def keyword_end_def char_class_defs split: list.splits)

lemma consume_keyword_hit:
  "kw \<noteq> [] \<Longrightarrow> graphic (hd kw) \<Longrightarrow> keyword_end r \<Longrightarrow> consume_keyword kw (kw @ r) = (True, r)"
  by (cases kw) (simp_all add: consume_keyword_def)

lemma consume_keyword_other:
  "graphic c \<Longrightarrow> c \<noteq> k \<Longrightarrow> consume_keyword (k # ks) (c # s) = (False, c # s)"
  by (simp add: consume_keyword_def)

lemma consume_char_hit: "graphic c \<Longrightarrow> consume_char c (c # s) = (True, s)"
  by (simp add: consume_char_def)

lemma consume_char_other: "graphic c \<Longrightarrow> c \<noteq> k \<Longrightarrow> consume_char k (c # s) = (False, c # s)"
  by (simp add: consume_char_def)

lemma permission_ref_chars:
  assumes "is_valid_permission_ref p"
  obtains c t where "p = c # t" "is_ascii_lowercase c" "list_all (\<lambda>c. ident_char c \<or> c = CHR '':'') t"
proof -
  have seg: "is_permission_segment w" if "w \<in> set (split_on CHR '':'' p)" for w
    using assms that by (auto simp: is_valid_permission_ref_def Let_def list_all_iff split: if_splits)
  have all: "ident_char c \<or> c = CHR '':''" if "c \<in> set p" for c
  proof (rule ccontr)
    assume c: "\<not> ?thesis"
    have sub: "set (join '':'' ws) \<subseteq> insert CHR '':'' (\<Union>w \<in> set ws. set w)" for ws
      by (induction "'':''" ws rule: join.induct) auto
    have "c \<in> insert CHR '':'' (\<Union>w \<in> set (split_on CHR '':'' p). set w)"
      using subsetD[OF sub[of "split_on CHR '':'' p"], of c] that by (simp add: join_split_on)
    with c obtain w where "w \<in> set (split_on CHR '':'' p)" "c \<in> set w" by auto
    with seg[of w] c show False
      by (auto simp: is_permission_segment_def ident_char_def list_all_iff split: list.splits)
  qed
  have "is_permission_segment (hd (split_on CHR '':'' p))" by (simp add: seg)
  then obtain c w where hd: "hd (split_on CHR '':'' p) = c # w" "is_ascii_lowercase c"
    by (auto simp: is_permission_segment_def split: list.splits)
  then obtain t where "p = c # t"
    by (cases p) (auto split: if_splits list.splits)
  with all hd show ?thesis using that[of c t] by (auto simp: list_all_iff)
qed

section \<open>Operands\<close>

lemma parse_primary_authenticated:
  "delim r \<Longrightarrow> parse_primary line (''authenticated'' @ r) = Ok (Authenticated, r)"
  using consume_keyword_hit[of "''authenticated''" r] by (simp add: parse_primary_def)

lemma parse_primary_has_role:
  assumes "wf_role name" "delim r"
  shows "parse_primary line (''has_role '' @ name @ r) = Ok (HasRole name, r)"
proof -
  obtain c t where name: "name = c # t" "ident_start c" "list_all ident_char t"
    using assms(1) by (auto simp: wf_role_def split: list.splits)
  have "consume_keyword ''authenticated'' (''has_role '' @ name @ r) = (False, ''has_role '' @ name @ r)"
    by (simp add: consume_keyword_other)
  moreover have "consume_keyword ''has_role'' (''has_role '' @ name @ r) = (True, '' '' @ name @ r)"
    using consume_keyword_hit[of "''has_role''" "'' '' @ name @ r"] by simp
  moreover have "read_ident ('' '' @ name @ r) = (Some name, r)"
    using name takeWhile_delim[of ident_char t r] assms(2)
    by (simp add: read_ident_def ident_start_graphic)
  ultimately show ?thesis by (simp only: parse_primary_def prod.case if_True if_False option.case)
qed

lemma parse_primary_has_permission:
  assumes "is_valid_permission_ref perm" "delim r"
  shows "parse_primary line (''has_permission '' @ perm @ r) = Ok (HasPermission perm, r)"
proof -
  let ?s = "''has_permission '' @ perm @ r"
  obtain c t where perm: "perm = c # t" "is_ascii_lowercase c"
      "list_all (\<lambda>c. ident_char c \<or> c = CHR '':'') t"
    using assms(1) by (rule permission_ref_chars)
  have "consume_keyword ''authenticated'' ?s = (False, ?s)"
    by (simp add: consume_keyword_other)
  moreover have "consume_keyword ''has_role'' ?s = (False, ?s)"
    by (simp add: consume_keyword_def)
  moreover have "consume_keyword ''has_permission'' ?s = (True, '' '' @ perm @ r)"
    using consume_keyword_hit[of "''has_permission''" "'' '' @ perm @ r"] by simp
  moreover have "read_permission_ref ('' '' @ perm @ r) = (Some perm, r)"
    using perm takeWhile_delim[of "\<lambda>c. ident_char c \<or> c = CHR '':''" t r] assms(2)
    by (simp add: read_permission_ref_def ident_start_def lowercase_graphic)
  ultimately show ?thesis
    using assms(1) by (simp only: parse_primary_def prod.case if_True if_False option.case simp_thms)
qed


lemma atom_body:
  assumes "wf_atom line a"
  shows "list_all atom_char (pa_namespace a @ ''.'' @ pa_name a)" "pa_name a \<noteq> []"
    "CHR ''.'' \<notin> set (pa_namespace a)"
proof -
  have "list_all atom_char (pa_name a) \<and> pa_name a \<noteq> []"
    using assms unfolding wf_atom_def
    by (cases "pa_name a") (auto simp: atom_char_def list_all_iff)
  moreover have "list_all atom_char (pa_namespace a) \<and> CHR ''.'' \<notin> set (pa_namespace a)"
    using assms by (auto simp: wf_atom_def policy_namespaces_def atom_char_def char_class_defs)
  ultimately show "list_all atom_char (pa_namespace a @ ''.'' @ pa_name a)" "pa_name a \<noteq> []"
      "CHR ''.'' \<notin> set (pa_namespace a)"
    by (simp_all add: atom_char_def)
qed

lemma read_atom_token_plain:
  assumes "takeWhile atom_char w = b" "dropWhile atom_char w = r" "b \<noteq> []" "delim r"
  shows "read_atom_token (CHR ''@'' # w) = (Some (CHR ''@'' # b), r)"
  unfolding read_atom_token_def
  using assms by (cases r) (auto simp: Let_def delim_def simp del: takeWhile_eq_Nil_iff dropWhile_eq_Nil_conv)

lemma read_atom_token_args:
  assumes "takeWhile atom_char w = b" "dropWhile atom_char w = CHR ''('' # arg @ CHR '')'' # r" "b \<noteq> []"
    "CHR '')'' \<notin> set arg"
  shows "read_atom_token (CHR ''@'' # w) = (Some (CHR ''@'' # b @ ''('' @ arg @ '')''), r)"
proof -
  have "takeWhile (\<lambda>c. c \<noteq> CHR '')'') (arg @ CHR '')'' # r) = arg"
      "dropWhile (\<lambda>c. c \<noteq> CHR '')'') (arg @ CHR '')'' # r) = CHR '')'' # r"
    using assms(4) by (induction arg) auto
  with assms(1-3) show ?thesis
    unfolding read_atom_token_def
    by (simp add: Let_def del: takeWhile_eq_Nil_iff dropWhile_eq_Nil_conv takeWhile_append dropWhile_append)
qed

lemma read_atom_token_show:
  assumes "wf_atom line a" "delim r"
  shows "read_atom_token (show_atom a @ r) = (Some (show_atom a), r)"
proof -
  obtain b where b: "b = pa_namespace a @ ''.'' @ pa_name a" "b \<noteq> []" "list_all atom_char b"
    using atom_body(1)[OF assms(1)] by simp
  show ?thesis
  proof (cases "pa_args a")
    case None
    then have "show_atom a = CHR ''@'' # b" by (simp add: show_atom_def b(1))
    with read_atom_token_plain[OF takeWhile_delim[OF b(3) assms(2)] b(2) assms(2)] show ?thesis by simp
  next
    case (Some args)
    have no: "CHR '')'' \<notin> set args" using assms(1) Some by (simp add: wf_atom_def)
    have tw: "takeWhile atom_char (b @ CHR ''('' # args @ CHR '')'' # r) = b"
        "dropWhile atom_char (b @ CHR ''('' # args @ CHR '')'' # r) = CHR ''('' # args @ CHR '')'' # r"
      using b(3) by (simp_all add: list_all_iff)
    have "show_atom a = CHR ''@'' # b @ ''('' @ args @ '')''" by (simp add: show_atom_def b(1) Some)
    with read_atom_token_args[OF tw b(2) no] show ?thesis by simp
  qed
qed

lemma parse_policy_atom_show:
  assumes "wf_atom line a"
  shows "parse_policy_atom line (show_atom a) = Ok a"
proof -
  let ?b = "pa_namespace a @ ''.'' @ pa_name a"
  note body = atom_body[OF assms]
  have graphic_b: "\<forall>c \<in> set ?b. graphic c"
    using body(1) atom_char_graphic by (auto simp: list_all_iff)
  have paren: "CHR ''('' \<notin> set ?b"
    using body(1) not_delim_chars(5) unfolding list_all_iff by blast
  have dot: "split_once CHR ''.'' ?b = Some (pa_namespace a, pa_name a)"
    using body(3) by simp
  have ns: "pa_namespace a \<in> set policy_namespaces" "is_kebab_or_snake_ident (pa_name a)"
    and sp: "pa_span a = Span (sl_start line) (sl_end line)" using assms by (simp_all add: wf_atom_def)
  have trim: "trim (show_atom a) = show_atom a"
    by (rule trim_graphic_ends) (use graphic_b body(2) in \<open>auto simp: show_atom_def split: option.splits\<close>)
  show ?thesis
  proof (cases "pa_args a")
    case None
    then have "split_once CHR ''('' ?b = None" using paren by (simp add: split_once_None_iff)
    with None trim trim_all_graphic[OF graphic_b] dot ns sp show ?thesis
      by (simp add: parse_policy_atom_def show_atom_def)
  next
    case (Some args)
    then have args: "args \<noteq> []" "trim args = args" using assms by (simp_all add: wf_atom_def)
    have "split_once CHR ''('' (?b @ CHR ''('' # args @ '')'') = Some (?b, args @ '')'')"
      using paren by (rule split_once_append)
    moreover have "ends_with (args @ '')'') '')''" by (auto simp: ends_with_iff)
    ultimately show ?thesis
      using Some trim trim_all_graphic[OF graphic_b] dot ns sp args
      by (simp add: parse_policy_atom_def show_atom_def)
  qed
qed

lemma parse_primary_atom:
  assumes "wf_atom line a" "delim r"
  shows "parse_primary line (show_atom a @ r) = Ok (Atom a, r)"
proof -
  have miss: "consume_keyword (k # ks) (show_atom a @ r) = (False, show_atom a @ r)" if "k \<noteq> CHR ''@''" for k ks
    using that by (simp add: show_atom_def consume_keyword_other)
  show ?thesis
    using read_atom_token_show[OF assms] parse_policy_atom_show[OF assms(1)]
    by (simp add: parse_primary_def miss)
qed

section \<open>Successful runs\<close>

definition parses :: "source_line \<Rightarrow> production \<Rightarrow> string \<Rightarrow> PolicyExpr \<Rightarrow> string \<Rightarrow> bool" where
  "parses line p s e r \<longleftrightarrow> (\<exists>n. policy_parser n line p s = Some (Ok (e, r)))"

lemma parses_unique_fuel:
  "parses line p s e r \<Longrightarrow> \<exists>n. \<forall>m \<ge> n. policy_parser m line p s = Some (Ok (e, r))"
  unfolding parses_def using policy_parser_mono by blast

lemma parses_Suc: "\<exists>n. policy_parser (Suc n) line p s = Some (Ok (e, r)) \<Longrightarrow> parses line p s e r"
  unfolding parses_def by blast

lemma parses_two:
  assumes "parses line p s t s1" "parses line q s1 e r"
  obtains n where "policy_parser n line p s = Some (Ok (t, s1))" "policy_parser n line q s1 = Some (Ok (e, r))"
proof -
  obtain n m where "\<forall>k \<ge> n. policy_parser k line p s = Some (Ok (t, s1))"
      "\<forall>k \<ge> m. policy_parser k line q s1 = Some (Ok (e, r))"
    using assms[THEN parses_unique_fuel] by blast
  then show ?thesis using that[of "max n m"] by simp
qed

lemma fbind_step:
  "policy_parser n line p s = Some (Ok a) \<Longrightarrow> k n a = Some x \<Longrightarrow>
   \<exists>n. fbind (policy_parser n line p s) (k n) = Some x"
  by (rule exI[of _ n]) simp

lemma parses_POr: "parses line PAnd s t s1 \<Longrightarrow> parses line (POrLoop [t]) s1 e r \<Longrightarrow> parses line POr s e r"
  by (rule parses_Suc, erule (1) parses_two) (auto intro: fbind_step)

lemma parses_PAnd: "parses line PUnary s t s1 \<Longrightarrow> parses line (PAndLoop [t]) s1 e r \<Longrightarrow> parses line PAnd s e r"
  by (rule parses_Suc, erule (1) parses_two) (auto intro: fbind_step)

lemma parses_POrLoop_more:
  "consume_keyword ''or'' s = (True, s0) \<Longrightarrow> parses line PAnd s0 t s1 \<Longrightarrow>
   parses line (POrLoop (ts @ [t])) s1 e r \<Longrightarrow> parses line (POrLoop ts) s e r"
  by (rule parses_Suc, erule (1) parses_two) (auto intro: fbind_step)

lemma parses_PAndLoop_more:
  "consume_keyword ''and'' s = (True, s0) \<Longrightarrow> parses line PUnary s0 t s1 \<Longrightarrow>
   parses line (PAndLoop (ts @ [t])) s1 e r \<Longrightarrow> parses line (PAndLoop ts) s e r"
  by (rule parses_Suc, erule (1) parses_two) (auto intro: fbind_step)

lemma parses_POrLoop_done:
  "consume_keyword ''or'' s = (False, s1) \<Longrightarrow> parses line (POrLoop ts) s (finish_terms Or ts) s1"
  by (rule parses_Suc) auto

lemma parses_PAndLoop_done:
  "consume_keyword ''and'' s = (False, s1) \<Longrightarrow> parses line (PAndLoop ts) s (finish_terms And ts) s1"
  by (rule parses_Suc) auto

lemma parses_not:
  "consume_keyword ''not'' s = (True, s1) \<Longrightarrow> parses line PUnary s1 e r \<Longrightarrow> parses line PUnary s (Not e) r"
  by (rule parses_Suc) (auto simp: parses_def intro: fbind_step)

lemma parses_PUnary_atom:
  "consume_keyword ''not'' s = (False, s1) \<Longrightarrow> parses line PAtom s1 e r \<Longrightarrow> parses line PUnary s e r"
  by (rule parses_Suc) (auto simp: parses_def intro: fbind_step)

lemma parses_paren:
  "parses line POr s e (CHR '')'' # r) \<Longrightarrow> parses line PAtom (CHR ''('' # s) e r"
  by (rule parses_Suc) (auto simp: parses_def close_paren_def consume_char_hit intro: fbind_step)

lemma parses_primary:
  "graphic c \<Longrightarrow> c \<noteq> CHR ''('' \<Longrightarrow> parse_primary line (c # s) = Ok (e, r) \<Longrightarrow> parses line PAtom (c # s) e r"
  by (rule parses_Suc) (auto simp: consume_char_other)

lemma parses_PUnary_space [simp]: "parses line PUnary (CHR '' '' # s) e r = parses line PUnary s e r"
proof -
  have "policy_parser n line PUnary (CHR '' '' # s) = policy_parser n line PUnary s" for n
    by (cases n) (simp_all add: consume_keyword_def)
  then show ?thesis by (simp add: parses_def)
qed

lemma parses_PAnd_space [simp]: "parses line PAnd (CHR '' '' # s) e r = parses line PAnd s e r"
proof -
  have "policy_parser n line PUnary (CHR '' '' # s) = policy_parser n line PUnary s" for n
    by (cases n) (simp_all add: consume_keyword_def)
  then have "policy_parser n line PAnd (CHR '' '' # s) = policy_parser n line PAnd s" for n
    by (cases n) simp_all
  then show ?thesis by (simp add: parses_def)
qed

lemma parses_POrLoop_skip [simp]: "parses line (POrLoop ts) (skip_ws s) e r = parses line (POrLoop ts) s e r"
proof -
  have "policy_parser n line (POrLoop ts) (skip_ws s) = policy_parser n line (POrLoop ts) s" for n
    by (cases n) simp_all
  then show ?thesis by (simp add: parses_def)
qed


section \<open>The parser inverts the printer\<close>

definition operand_ok :: "source_line \<Rightarrow> PolicyExpr \<Rightarrow> bool" where
  "operand_ok line e \<longleftrightarrow> (\<forall>r. delim r \<longrightarrow> parses line PUnary (show_policy 2 e @ r) e r)"

definition conj_ok :: "source_line \<Rightarrow> PolicyExpr \<Rightarrow> bool" where
  "conj_ok line e \<longleftrightarrow> (\<forall>r. delim r \<longrightarrow> \<not> fst (consume_keyword ''and'' r) \<longrightarrow>
     parses line PAnd (show_policy 1 e @ r) e (skip_ws r))"

definition disj_ok :: "source_line \<Rightarrow> PolicyExpr \<Rightarrow> bool" where
  "disj_ok line e \<longleftrightarrow> (\<forall>r. delim r \<longrightarrow> \<not> fst (consume_keyword ''and'' r) \<longrightarrow> \<not> fst (consume_keyword ''or'' r) \<longrightarrow>
     parses line POr (show_policy 0 e @ r) e (skip_ws r))"

lemma miss_eq: "\<not> fst (consume_keyword kw r) \<Longrightarrow> consume_keyword kw r = (False, skip_ws r)"
  by (metis (full_types) consume_keyword_miss prod.collapse)

lemma and_loop:
  assumes "list_all (operand_ok line) ts" "delim r" "\<not> fst (consume_keyword ''and'' r)"
  shows "parses line (PAndLoop acc) (glue '' and '' (map (show_policy 2) ts) @ r)
           (finish_terms And (acc @ ts)) (skip_ws r)"
  using assms(1)
proof (induction ts arbitrary: acc)
  case Nil
  show ?case using parses_PAndLoop_done[OF miss_eq[OF assms(3)]] by simp
next
  case (Cons t ts)
  let ?rest = "glue '' and '' (map (show_policy 2) ts) @ r"
  have "delim ?rest" using assms(2) by (cases ts) simp_all
  with Cons.prems have op: "parses line PUnary (CHR '' '' # show_policy 2 t @ ?rest) t ?rest"
    by (simp add: operand_ok_def)
  have "consume_keyword ''and'' ('' and '' @ show_policy 2 t @ ?rest) = (True, '' '' @ show_policy 2 t @ ?rest)"
    using consume_keyword_hit[of "''and''" "'' '' @ show_policy 2 t @ ?rest"]
    by (simp add: consume_keyword_def)
  moreover have "parses line (PAndLoop (acc @ [t])) ?rest (finish_terms And (acc @ t # ts)) (skip_ws r)"
    using Cons.IH[of "acc @ [t]"] Cons.prems by simp
  ultimately show ?case
    using parses_PAndLoop_more[OF _ op, of _ acc] by simp
qed

lemma or_loop:
  assumes "list_all (conj_ok line) ts" "delim r" "\<not> fst (consume_keyword ''and'' r)"
    "\<not> fst (consume_keyword ''or'' r)"
  shows "parses line (POrLoop acc) (glue '' or '' (map (show_policy 1) ts) @ r)
           (finish_terms Or (acc @ ts)) (skip_ws r)"
  using assms(1)
proof (induction ts arbitrary: acc)
  case Nil
  show ?case using parses_POrLoop_done[OF miss_eq[OF assms(4)]] by simp
next
  case (Cons t ts)
  let ?rest = "glue '' or '' (map (show_policy 1) ts) @ r"
  have "delim ?rest" using assms(2) by (cases ts) simp_all
  moreover have "\<not> fst (consume_keyword ''and'' ?rest)"
    using assms(3) by (cases ts) (simp_all add: consume_keyword_def)
  ultimately have op: "parses line PAnd (CHR '' '' # show_policy 1 t @ ?rest) t (skip_ws ?rest)"
    using Cons.prems by (simp add: conj_ok_def)
  have "consume_keyword ''or'' ('' or '' @ show_policy 1 t @ ?rest) = (True, '' '' @ show_policy 1 t @ ?rest)"
    using consume_keyword_hit[of "''or''" "'' '' @ show_policy 1 t @ ?rest"]
    by (simp add: consume_keyword_def)
  moreover have "parses line (POrLoop (acc @ [t])) (skip_ws ?rest) (finish_terms Or (acc @ t # ts)) (skip_ws r)"
    using Cons.IH[of "acc @ [t]"] Cons.prems by simp
  ultimately show ?case
    using parses_POrLoop_more[OF _ op, of _ acc] by simp
qed

lemma conj_of_operand: "operand_ok line e \<Longrightarrow> show_policy 1 e = show_policy 2 e \<Longrightarrow> conj_ok line e"
  unfolding conj_ok_def operand_ok_def
  using parses_PAnd parses_PAndLoop_done[OF miss_eq, of _ line "[e]"] by (fastforce simp: finish_terms_def)

lemma disj_of_conj: "conj_ok line e \<Longrightarrow> show_policy 0 e = show_policy 1 e \<Longrightarrow> disj_ok line e"
  unfolding conj_ok_def disj_ok_def
  using parses_POr parses_POrLoop_done[OF miss_eq, of _ line "[e]"]
  by (fastforce simp: finish_terms_def)

lemma operand_of_disj:
  assumes "disj_ok line e" "show_policy 2 e = ''('' @ show_policy 0 e @ '')''"
  shows "operand_ok line e"
  unfolding operand_ok_def
proof (intro allI impI)
  fix r
  have "parses line POr (show_policy 0 e @ CHR '')'' # r) e (CHR '')'' # r)"
    using assms(1)[unfolded disj_ok_def, rule_format, of "CHR '')'' # r"]
    by (simp add: consume_keyword_def)
  from parses_paren[OF this] show "parses line PUnary (show_policy 2 e @ r) e r"
    using assms(2) parses_PUnary_atom[OF consume_keyword_other] by simp
qed

lemma operand_of_primary:
  assumes "\<And>r. delim r \<Longrightarrow> parse_primary line (show_policy 2 e @ r) = Ok (e, r)"
    "show_policy 2 e = c # w" "graphic c" "c \<noteq> CHR ''n''" "c \<noteq> CHR ''(''"
  shows "operand_ok line e"
  unfolding operand_ok_def
  using assms parses_primary[of c line] parses_PUnary_atom[OF consume_keyword_other[of c]] by simp

lemma show_policy_ok: "wf_policy line e \<Longrightarrow> operand_ok line e \<and> conj_ok line e \<and> disj_ok line e"
proof (induction e)
  case Authenticated
  have "operand_ok line Authenticated"
    by (rule operand_of_primary) (use parse_primary_authenticated in auto)
  then show ?case by (simp add: conj_of_operand disj_of_conj)
next
  case (HasRole r)
  then have "operand_ok line (HasRole r)"
    by (intro operand_of_primary) (use parse_primary_has_role in auto)
  then show ?case by (simp add: conj_of_operand disj_of_conj)
next
  case (HasPermission p)
  then have "operand_ok line (HasPermission p)"
    by (intro operand_of_primary) (use parse_primary_has_permission in auto)
  then show ?case by (simp add: conj_of_operand disj_of_conj)
next
  case (Atom a)
  then have "operand_ok line (Atom a)"
    by (intro operand_of_primary) (use parse_primary_atom in \<open>auto simp: show_atom_def\<close>)
  then show ?case by (simp add: conj_of_operand disj_of_conj)
next
  case (And ts)
  then obtain t us where ts: "ts = t # us" "us \<noteq> []" "list_all (operand_ok line) ts"
    by (cases ts; cases "tl ts") (auto simp: list_all_iff)
  have "conj_ok line (And ts)"
    unfolding conj_ok_def
  proof (intro allI impI)
    fix r assume r: "delim r" "\<not> fst (consume_keyword ''and'' r)"
    let ?rest = "glue '' and '' (map (show_policy 2) us) @ r"
    have "delim ?rest" using r ts(2) by (cases us) simp_all
    then have "parses line PUnary (show_policy 2 t @ ?rest) t ?rest"
      using ts(1,3) by (simp add: operand_ok_def)
    moreover have "parses line (PAndLoop [t]) ?rest (And ts) (skip_ws r)"
      using and_loop[of line us r "[t]"] ts r by (cases us) (simp_all add: finish_terms_def)
    ultimately show "parses line PAnd (show_policy 1 (And ts) @ r) (And ts) (skip_ws r)"
      using parses_PAnd by (simp add: ts(1) join_glue)
  qed
  moreover from this have "disj_ok line (And ts)" by (simp add: disj_of_conj)
  ultimately show ?case by (simp add: operand_of_disj)
next
  case (Or ts)
  then obtain t us where ts: "ts = t # us" "us \<noteq> []" "list_all (conj_ok line) ts"
    by (cases ts; cases "tl ts") (auto simp: list_all_iff)
  have "disj_ok line (Or ts)"
    unfolding disj_ok_def
  proof (intro allI impI)
    fix r assume r: "delim r" "\<not> fst (consume_keyword ''and'' r)" "\<not> fst (consume_keyword ''or'' r)"
    let ?rest = "glue '' or '' (map (show_policy 1) us) @ r"
    have "delim ?rest" "\<not> fst (consume_keyword ''and'' ?rest)"
      using r ts(2) by (cases us; simp add: consume_keyword_def)+
    then have "parses line PAnd (show_policy 1 t @ ?rest) t (skip_ws ?rest)"
      using ts(1,3) by (simp add: conj_ok_def)
    moreover have "parses line (POrLoop [t]) (skip_ws ?rest) (Or ts) (skip_ws r)"
      using or_loop[of line us r "[t]"] ts r unfolding parses_POrLoop_skip by (cases us) (simp_all add: finish_terms_def)
    ultimately show "parses line POr (show_policy 0 (Or ts) @ r) (Or ts) (skip_ws r)"
      using parses_POr by (simp add: ts(1) join_glue)
  qed
  moreover from this have "operand_ok line (Or ts)" by (simp add: operand_of_disj)
  ultimately show ?case by (simp add: conj_of_operand)
next
  case (Not e)
  have "operand_ok line (Not e)"
    unfolding operand_ok_def
  proof (intro allI impI)
    fix r assume "delim r"
    then have "parses line PUnary (CHR '' '' # show_policy 2 e @ r) e r"
      using Not by (simp add: operand_ok_def)
    moreover have "consume_keyword ''not'' (''not '' @ show_policy 2 e @ r) = (True, '' '' @ show_policy 2 e @ r)"
      using consume_keyword_hit[of "''not''" "'' '' @ show_policy 2 e @ r"] by simp
    ultimately show "parses line PUnary (show_policy 2 (Not e) @ r) (Not e) r"
      using parses_not by simp
  qed
  then show ?case by (simp add: conj_of_operand disj_of_conj)
qed


section \<open>The parser only builds well-formed expressions\<close>

lemma set_butlast_prefix: "s = p @ q \<Longrightarrow> set (butlast p) \<subseteq> set (butlast s)"
  by (cases q) (auto simp: butlast_append dest: in_set_butlastD)

lemma set_butlast_suffix: "s = p @ q \<Longrightarrow> set (butlast q) \<subseteq> set (butlast s)"
  by (auto simp: butlast_append)

lemma parse_policy_atom_wf:
  assumes "parse_policy_atom line (CHR ''@'' # w) = Ok a" "CHR '')'' \<notin> set (butlast w)"
  shows "wf_atom line a"
proof -
  obtain q where q: "CHR ''@'' # w = trim (CHR ''@'' # w) @ q"
    using trim_end_prefix[of "CHR ''@'' # w"] by (auto simp: trim_def)
  obtain b0 where b0: "trim (CHR ''@'' # w) = CHR ''@'' # b0"
    using assms(1) by (auto simp: parse_policy_atom_def strip_prefix_Some_iff split: option.splits)
  have sub: "set (butlast b0) \<subseteq> set (butlast w)"
    using q set_butlast_prefix[of w b0 q] by (simp add: b0)
  have args: "CHR '')'' \<notin> set (trim (take (length tail - 1) tail))" if "b0 = head @ CHR ''('' # tail" for head tail
    using sub assms(2) set_butlast_suffix[of b0 "head @ ''(''" tail] that set_trim[of "butlast tail"]
    by (auto simp: butlast_conv_take)
  show ?thesis
    using assms(1) args
    by (auto simp: parse_policy_atom_def b0 wf_atom_def split_once_Some_iff Let_def
        split: option.splits if_splits prod.splits)
qed

lemma parse_primary_wf:
  assumes "parse_primary line s = Ok (e, s')"
  shows "wf_policy line e"
proof -
  have role: "wf_role name" if "read_ident x = (Some name, y)" for x name y
    using that by (auto simp: read_ident_def wf_role_def list_all_iff
        split: list.splits if_splits dest: set_takeWhileD)
  have atom: "wf_atom line a" if tok: "read_atom_token x = (Some tok, y)" and a: "parse_policy_atom line tok = Ok a"
    for x tok y a
    using tok
  proof (cases rule: read_atom_token_cases)
    case (1 body after)
    then have "CHR '')'' \<notin> set body" using not_delim_chars(4) unfolding list_all_iff by blast
    with 1 a show ?thesis by (auto intro: parse_policy_atom_wf dest: in_set_butlastD)
  next
    case (2 body arg)
    then have "CHR '')'' \<notin> set (body @ CHR ''('' # arg)" using not_delim_chars(4) unfolding list_all_iff by auto
    then have "CHR '')'' \<notin> set (butlast (body @ CHR ''('' # arg))" by (blast dest: in_set_butlastD)
    with 2 a show ?thesis by (auto intro: parse_policy_atom_wf)
  next
    case (3 body arg rest)
    then have "CHR '')'' \<notin> set (body @ CHR ''('' # arg)" using not_delim_chars(4) unfolding list_all_iff by auto
    with 3 a show ?thesis using parse_policy_atom_wf[of line "body @ CHR ''('' # arg @ '')''" a]
      by (simp add: butlast_append)
  qed
  show ?thesis
    using assms unfolding parse_primary_def
    by (auto split: prod.splits if_splits option.splits dest: role atom)
qed

lemma finish_terms_wf:
  "list_all (wf_policy line) ts \<Longrightarrow> ts \<noteq> [] \<Longrightarrow> mk = And \<or> mk = Or \<Longrightarrow> wf_policy line (finish_terms mk ts)"
  by (cases ts; cases "tl ts") (auto simp: finish_terms_def)

fun terms_of :: "production \<Rightarrow> PolicyExpr list option" where
  "terms_of (POrLoop ts) = Some ts"
| "terms_of (PAndLoop ts) = Some ts"
| "terms_of _ = None"

lemma policy_parser_wf:
  "policy_parser n line p s = Some (Ok (e, s')) \<Longrightarrow>
   (\<And>ts. terms_of p = Some ts \<Longrightarrow> ts \<noteq> [] \<and> list_all (wf_policy line) ts) \<Longrightarrow> wf_policy line e"
proof (induction n arbitrary: p s e s')
  case (Suc n)
  note IH = Suc.IH
  show ?case
    using Suc.prems
    by (cases p)
      (auto split: prod.splits if_splits elim!: fbind_SomeE intro: finish_terms_wf parse_primary_wf
        dest!: IH close_paren_length)
qed simp

lemma try_parse_policy_expr_cases:
  assumes "try_parse_policy_expr line payload = Some (Ok (Some e))"
  obtains (list) "try_parse_inline_atom_list (trim payload) = Some e"
  | (expr) rest where "looks_like_policy_expr (trim payload)" "is_at_end rest"
      "parse_or (policy_fuel (trim payload)) line (trim payload) = Some (Ok (e, rest))"
  using assms
  by (auto simp: try_parse_policy_expr_def Let_def elim!: fbind_SomeE split: if_splits option.splits prod.splits)


section \<open>Which payloads reach the expression grammar\<close>

definition bare_atom :: "PolicyExpr \<Rightarrow> bool" where
  "bare_atom e = (case e of Atom a \<Rightarrow> pa_args a = None | _ \<Rightarrow> False)"

lemma looks_like_token:
  "kw \<in> set [''authenticated'', ''has_role'', ''has_permission'', ''and'', ''or'', ''not''] \<Longrightarrow>
   looks_like_policy_expr (kw @ CHR '' '' # s)"
proof -
  assume kw: "kw \<in> set [''authenticated'', ''has_role'', ''has_permission'', ''and'', ''or'', ''not'']"
  then have "split_whitespace (kw @ CHR '' '' # s) = kw # split_whitespace s"
    by (intro split_whitespace_word) (auto simp: char_class_defs)
  with kw show ?thesis by (auto simp: looks_like_policy_expr_def)
qed

lemma looks_like_append_space: "looks_like_policy_expr s \<Longrightarrow> looks_like_policy_expr (a @ CHR '' '' # s)"
  by (auto simp: looks_like_policy_expr_def)

lemma looks_like_show:
  assumes "wf_policy line e" "\<not> bare_atom e"
  shows "looks_like_policy_expr (show_policy 0 e)"
proof (cases e)
  case Authenticated
  have "split_whitespace ''authenticated'' = [''authenticated'']"
    by (rule split_whitespace_single) (simp_all add: char_class_defs)
  with Authenticated show ?thesis by (simp add: looks_like_policy_expr_def)
next
  case (HasRole r)
  then show ?thesis using looks_like_token[of "''has_role''" r] by simp
next
  case (HasPermission p)
  then show ?thesis using looks_like_token[of "''has_permission''" p] by simp
next
  case (Atom a)
  with assms(2) show ?thesis
    by (auto simp: bare_atom_def show_atom_def looks_like_policy_expr_def)
next
  case (And ts)
  with assms(1) obtain t u us where ts: "ts = t # u # us" by (cases ts; cases "tl ts") auto
  let ?tail = "show_policy 2 u @ glue '' and '' (map (show_policy 2) us)"
  have "show_policy 0 e = show_policy 2 t @ CHR '' '' # ''and'' @ CHR '' '' # ?tail"
    using And ts by (simp add: join_glue)
  then show ?thesis
    using looks_like_append_space[OF looks_like_token[of "''and''" ?tail], of "show_policy 2 t"] by simp
next
  case (Or ts)
  with assms(1) obtain t u us where ts: "ts = t # u # us" by (cases ts; cases "tl ts") auto
  let ?tail = "show_policy 1 u @ glue '' or '' (map (show_policy 1) us)"
  have "show_policy 0 e = show_policy 1 t @ CHR '' '' # ''or'' @ CHR '' '' # ?tail"
    using Or ts by (simp add: join_glue)
  then show ?thesis
    using looks_like_append_space[OF looks_like_token[of "''or''" ?tail], of "show_policy 1 t"] by simp
next
  case (Not f)
  then show ?thesis using looks_like_token[of "''not''" "show_policy 2 f"] by simp
qed

lemma tight_paren [simp]: "tight (CHR ''('' # s @ '')'')" "tight (CHR ''('' # s @ t @ '')'')"
  by (simp_all add: tight_def)

lemma show_policy_tight: "wf_policy line e \<Longrightarrow> tight (show_policy l e)"
proof (induction e arbitrary: l)
  case (HasRole r)
  then have "graphic (last r)" "r \<noteq> []"
    using ident_char_graphic ident_start_graphic by (auto simp: wf_role_def list_all_iff split: list.splits)
  then show ?case by (simp add: tight_def)
next
  case (HasPermission p)
  obtain c t where p: "p = c # t" "is_ascii_lowercase c" "list_all (\<lambda>c. ident_char c \<or> c = CHR '':'') t"
    using HasPermission permission_ref_chars by auto
  then have "\<forall>x \<in> set p. graphic x" using ident_char_graphic by (auto simp: list_all_iff)
  with p(1) have "graphic (last p)" by simp
  with p(1) show ?case by (simp add: tight_def)
next
  case (Atom a)
  then have "pa_name a \<noteq> []" "\<forall>c \<in> set (pa_name a). graphic c"
    using atom_body[of line a] atom_char_graphic by (auto simp: list_all_iff)
  then show ?case by (simp add: tight_def show_atom_def split: option.splits)
next
  case (And ts)
  then obtain t us where "ts = t # us" by (cases ts) auto
  with And show ?case by (auto simp: join_glue list_all_iff Let_def intro!: tight_glue)
next
  case (Or ts)
  then obtain t us where "ts = t # us" by (cases ts) auto
  with Or show ?case by (auto simp: join_glue list_all_iff Let_def intro!: tight_glue)
next
  case (Not e)
  then have "tight (show_policy 2 e)" by simp
  then show ?case by (simp add: tight_def)
qed (simp add: tight_def char_class_defs)

lemma parse_or_show:
  assumes "wf_policy line e"
  shows "parse_or (policy_fuel (show_policy 0 e)) line (show_policy 0 e) = Some (Ok (e, []))"
proof -
  let ?s = "show_policy 0 e"
  have "parses line POr ?s e []"
    using show_policy_ok[OF assms] by (auto simp: disj_ok_def consume_keyword_def dest!: spec[of _ "[]"])
  then obtain n where "\<forall>m \<ge> n. parse_or m line ?s = Some (Ok (e, []))" using parses_unique_fuel by blast
  then have n: "parse_or (max n (policy_fuel ?s)) line ?s = Some (Ok (e, []))" by simp
  obtain r where r: "parse_or (policy_fuel ?s) line ?s = Some r"
    using policy_parser_enough[of POr ?s "policy_fuel ?s"] by (auto simp: policy_fuel_def)
  with policy_parser_mono[OF r, of "max n (policy_fuel ?s)"] n show ?thesis by simp
qed


section \<open>Comma lists of atoms\<close>

definition inline_term :: "string \<times> string \<Rightarrow> string" where
  "inline_term = (\<lambda>(ns, nm). ''@'' @ ns @ ''.'' @ nm)"

definition inline_atom :: "string \<times> string \<Rightarrow> PolicyExpr" where
  "inline_atom = (\<lambda>(ns, nm). Atom \<lparr>pa_namespace = ns, pa_name = nm, pa_args = None, pa_span = Span 0 0\<rparr>)"

definition inline_word :: "string \<Rightarrow> bool" where
  "inline_word w \<longleftrightarrow> w \<noteq> [] \<and> list_all (\<lambda>c. is_ascii_alphanumeric c \<or> c = CHR ''_'' \<or> c = CHR ''-'') w"

definition wf_inline :: "string \<times> string \<Rightarrow> bool" where
  "wf_inline = (\<lambda>(ns, nm). inline_word ns \<and> ns \<noteq> ''policy'' \<and> inline_word nm)"

lemma inline_word_chars:
  assumes "inline_word w" "c \<in> set w"
  shows "graphic c \<and> c \<noteq> CHR ''.'' \<and> c \<noteq> CHR '','' \<and> c \<noteq> CHR ''('' \<and> c \<noteq> CHR '')''"
  using assms by (auto simp: inline_word_def list_all_iff char_class_defs)

lemma inline_term_chars:
  assumes "wf_inline p" "c \<in> set (inline_term p)"
  shows "graphic c \<and> c \<noteq> CHR '','' \<and> c \<noteq> CHR ''('' \<and> c \<noteq> CHR '')''"
  using assms inline_word_chars by (auto simp: wf_inline_def inline_term_def)

lemma inline_term_Cons: "\<exists>w. inline_term p = CHR ''@'' # w"
  by (cases p) (simp add: inline_term_def)

lemma inline_term_tight: "wf_inline p \<Longrightarrow> tight (inline_term p)"
  using inline_term_chars[of p] inline_term_Cons[of p] unfolding tight_def
  by (metis last_in_set list.discI list.sel(1) punct_graphic(3))

lemma parse_inline_term:
  assumes "wf_inline p"
  shows "map_option Atom (parse_inline_atom_term (inline_term p)) = Some (inline_atom p)"
proof -
  obtain ns nm where p: "p = (ns, nm)" by force
  have "length (split_whitespace (inline_term p)) = 1"
    using inline_term_chars[OF assms] inline_term_Cons[of p] split_whitespace_single[of "inline_term p"] by auto
  moreover have "CHR ''('' \<notin> set (inline_term p)" "CHR '')'' \<notin> set (inline_term p)"
    using inline_term_chars[OF assms] by blast+
  moreover have "CHR ''.'' \<notin> set ns" "ns \<noteq> []" "nm \<noteq> []" "ns \<noteq> ''policy''"
    using assms inline_word_chars p by (auto simp: wf_inline_def inline_word_def)
  ultimately show ?thesis
    by (simp add: p parse_inline_atom_term_def inline_term_def inline_atom_def)
qed

lemma inline_tokens:
  "list_all wf_inline ps \<Longrightarrow> tok \<in> set (split_whitespace (join '', '' (map inline_term ps))) \<Longrightarrow> hd tok = CHR ''@''"
proof (induction ps)
  case (Cons p ps)
  obtain w where w: "inline_term p = CHR ''@'' # w" using inline_term_Cons by blast
  have g: "\<forall>c \<in> set (inline_term p). graphic c" using Cons.prems(1) inline_term_chars[of p] by auto
  show ?case
  proof (cases ps)
    case Nil
    with Cons.prems(2) split_whitespace_single[OF _ g] w show ?thesis by auto
  next
    case (Cons q qs)
    have "split_whitespace ((inline_term p @ '','') @ CHR '' '' # join '', '' (map inline_term ps)) =
        (inline_term p @ '','') # split_whitespace (join '', '' (map inline_term ps))"
      by (rule split_whitespace_word) (use g in \<open>auto simp: char_class_defs\<close>)
    with Cons.prems Cons.IH w Cons show ?thesis by (auto simp: join_Cons)
  qed
qed simp

lemma those_terms:
  "list_all wf_inline ps \<Longrightarrow> (\<And>p. wf_inline p \<Longrightarrow> f p = Some (g p)) \<Longrightarrow> those (map f ps) = Some (map g ps)"
  by (induction ps) simp_all

lemma inline_list_parsed:
  assumes "list_all wf_inline ps" "2 \<le> length ps"
  shows "try_parse_inline_atom_list (join '', '' (map inline_term ps)) = Some (Or (map inline_atom ps))"
proof -
  let ?s = "join '', '' (map inline_term ps)"
  obtain p q qs where ps: "ps = p # q # qs" using assms(2) by (cases ps; cases "tl ps") auto
  let ?ws = "inline_term p # map ((#) CHR '' '') (map inline_term (q # qs))"
  have s: "?s = join '','' ?ws" using join_comma_space[of "inline_term p" "map inline_term (q # qs)"] by (simp only: ps list.map)
  have chars: "c \<in> set ?s \<Longrightarrow> c \<noteq> CHR ''('' \<and> c \<noteq> CHR '')''" for c
  proof -
    have "set (join sep ws) \<subseteq> set sep \<union> (\<Union>w \<in> set ws. set w)" for sep and ws :: "string list"
      by (induction sep ws rule: join.induct) auto
    then have "set ?s \<subseteq> set '', '' \<union> (\<Union>p \<in> set ps. set (inline_term p))" by fastforce
    then show "c \<in> set ?s \<Longrightarrow> ?thesis" using inline_term_chars assms(1) by (fastforce simp: list_all_iff)
  qed
  have nocomma: "CHR '','' \<notin> set (inline_term p')" if "wf_inline p'" for p'
    using inline_term_chars[OF that] by blast
  have at: "hd tok = CHR ''@''" if "tok \<in> set (split_whitespace ?s)" for tok
    using inline_tokens[OF assms(1)] that by blast
  have "\<not> looks_like_policy_expr ?s"
    unfolding looks_like_policy_expr_def list_ex_iff using chars at by fastforce
  moreover have "''when'' \<notin> set (split_whitespace ?s)" using at by fastforce
  moreover have "CHR '','' \<in> set ?s" by (simp add: ps)
  moreover have "split_on CHR '','' ?s = ?ws"
    unfolding s by (rule split_on_join) (use assms(1) ps nocomma in \<open>auto simp: list_all_iff\<close>)
  moreover have "trim (CHR '' '' # inline_term p') = inline_term p'" "trim (inline_term p') = inline_term p'"
    if "wf_inline p'" for p'
    using inline_term_tight[OF that] trim_graphic_ends[of "inline_term p'"]
    by (auto simp: tight_def trim_def char_class_defs)
  ultimately show ?thesis
    using assms(1) ps
    by (simp add: try_parse_inline_atom_list_def parse_inline_term comp_def those_terms)
qed


section \<open>Properties\<close>

text \<open>
  C6. The policy parser always answers: on every line and payload the recursive descent finishes
  within \<open>policy_fuel\<close>, with an expression, with "not an expression", or with an error.
\<close>

theorem try_parse_policy_expr_total: "\<exists>r. try_parse_policy_expr line payload = Some r"
proof -
  have "\<exists>r. parse_or (policy_fuel s) line s = Some r" for s
    by (rule policy_parser_enough) (simp add: policy_fuel_def)
  then have "\<exists>r. fbind (parse_or (policy_fuel s) line s) k = Some r"
    if "\<And>a. \<exists>y. k a = Some y" for s and k :: "PolicyExpr \<times> string \<Rightarrow> (ParseError, PolicyExpr option) result option"
    using that by (intro fbind_total)
  then show ?thesis
    by (auto simp: try_parse_policy_expr_def Let_def split: option.split)
qed

text \<open>
  C7. Printing a well-formed policy expression with the fewest parentheses and parsing the text gives
  the expression back, for every expression but a lone atom without arguments (which the code leaves
  to the raw atom path): \<^verbatim>\<open>not\<close> binds tighter than \<^verbatim>\<open>and\<close>, \<^verbatim>\<open>and\<close> tighter than \<^verbatim>\<open>or\<close>, and
  parentheses override both.
\<close>

theorem policy_roundtrip:
  assumes "wf_policy line e" "\<not> bare_atom e"
  shows "try_parse_policy_expr line (show_policy 0 e) = Some (Ok (Some e))"
proof -
  let ?s = "show_policy 0 e"
  have "tight ?s" using assms(1) by (rule show_policy_tight)
  then have "?s \<noteq> []" "trim ?s = ?s" by (simp_all add: tight_def trim_graphic_ends)
  moreover have "looks_like_policy_expr ?s" using assms by (rule looks_like_show)
  moreover from this have "try_parse_inline_atom_list ?s = None"
    by (simp add: try_parse_inline_atom_list_def)
  ultimately show ?thesis
    using parse_or_show[OF assms(1)] by (simp add: try_parse_policy_expr_def is_at_end_def)
qed

theorem policy_roundtrip_witness:
  "try_parse_policy_expr \<lparr>sl_text = [], sl_indent = 0, sl_start = 0, sl_end = 0\<rparr>
     ''not (authenticated or has_role admin) and has_permission users:read'' =
   Some (Ok (Some (And [Not (Or [Authenticated, HasRole ''admin'']), HasPermission ''users:read''])))"
proof -
  let ?l = "\<lparr>sl_text = [], sl_indent = 0, sl_start = 0, sl_end = 0\<rparr>"
  let ?e = "And [Not (Or [Authenticated, HasRole ''admin'']), HasPermission ''users:read'']"
  have "wf_policy ?l ?e \<and> \<not> bare_atom ?e" by code_simp
  moreover have "show_policy 0 ?e = ''not (authenticated or has_role admin) and has_permission users:read''"
    by code_simp
  ultimately show ?thesis using policy_roundtrip[of ?l ?e] by simp
qed



text \<open>
  A comma list of two or more atoms \<^verbatim>\<open>@ns.name\<close> is the disjunction of the listed atoms, in
  order, each without arguments and with the empty span. Case is preserved and the catalog of
  namespaces is not consulted here: any word but the reserved \<^verbatim>\<open>policy\<close> is taken.
\<close>

lemma inline_atom_list_is_disjunction:
  assumes "list_all wf_inline ps" "2 \<le> length ps"
  shows "try_parse_policy_expr line (join '', '' (map inline_term ps)) = Some (Ok (Some (Or (map inline_atom ps))))"
proof -
  let ?s = "join '', '' (map inline_term ps)"
  obtain p qs where ps: "ps = p # qs" using assms(2) by (cases ps) auto
  have "list_all tight (map inline_term ps)"
    using assms(1) by (induction ps) (simp_all add: inline_term_tight)
  then have "tight ?s" by (simp add: ps join_glue tight_glue)
  then have "?s \<noteq> []" "trim ?s = ?s" by (simp_all add: tight_def trim_graphic_ends)
  then show ?thesis
    using inline_list_parsed[OF assms] by (simp add: try_parse_policy_expr_def)
qed

lemma inline_atom_list_is_disjunction_example:
  "try_parse_policy_expr \<lparr>sl_text = [], sl_indent = 0, sl_start = 0, sl_end = 0\<rparr> ''@role.ADMIN, @scope.owner'' =
     Some (Ok (Some (Or [inline_atom (''role'', ''ADMIN''), inline_atom (''scope'', ''owner'')])))"
proof -
  have "list_all wf_inline [(''role'', ''ADMIN''), (''scope'', ''owner'')]" by code_simp
  from inline_atom_list_is_disjunction[OF this,
      of "\<lparr>sl_text = [], sl_indent = 0, sl_start = 0, sl_end = 0\<rparr>"]
  show ?thesis by (simp add: inline_term_def)
qed

end
