(* ===== verification/Rbac_Syntax.thy ===== *)
theory Rbac_Syntax
  imports Policy_Print
begin

text \<open>
  The package-level access-control vocabulary (\<^verbatim>\<open>lazuli_syntax/src/parser/lzi/package.rs\<close>):
  top-level \<^verbatim>\<open>permission\<close> and \<^verbatim>\<open>role\<close> declarations with their \<^verbatim>\<open>inherits\<close>, \<^verbatim>\<open>grants\<close> and
  \<^verbatim>\<open>grants_all\<close> children. The \<^verbatim>\<open>while\<close> loops over the line index are functions on the same
  index; a block parser returns the index of the first line it leaves to its caller. The feature
  parser that \<^verbatim>\<open>parse_package_skeleton\<close> calls first is an argument.

  Shown here: the block parsers advance and stay inside the file (the \<open>block_parser\<close> interface);
  a permission is declarable exactly when \<^verbatim>\<open>has_permission\<close> and \<^verbatim>\<open>grants\<close> accept it; every
  declaration a parse returns is well formed.
\<close>

section \<open>Declarations\<close>

record permission_decl =
  pd_name :: string
  pd_segments :: "string list"
  pd_span :: span

datatype RoleGrantsAst = GExplicit "string list" | GAll | GInheritedOnly

record role_decl =
  rd_name :: string
  rd_inherits :: "string option"
  rd_grants :: RoleGrantsAst
  rd_span :: span

record 'f package_skeleton =
  ps_features :: "'f list"
  ps_permissions :: "permission_decl list"
  ps_roles :: "role_decl list"

section \<open>Identifiers and permissions\<close>

definition is_rbac_role_ident :: "string \<Rightarrow> bool" where
  "is_rbac_role_ident s = (case s of [] \<Rightarrow> False
     | c # chars \<Rightarrow> is_ascii_lowercase c \<and>
         list_all (\<lambda>c. is_ascii_lowercase c \<or> is_ascii_digit c \<or> c = CHR ''_'') chars)"

definition is_rbac_segment_ident :: "string \<Rightarrow> bool" where
  "is_rbac_segment_ident s = (case s of [] \<Rightarrow> False
     | c # chars \<Rightarrow> is_ascii_lowercase c \<and>
         list_all (\<lambda>c. is_ascii_lowercase c \<or> is_ascii_digit c \<or> c = CHR ''_'') chars)"

fun check_permission_segments :: "source_line \<Rightarrow> string list \<Rightarrow> (ParseError, unit) result" where
  "check_permission_segments line [] = Ok ()"
| "check_permission_segments line (seg # segs) =
     (if seg = [] then Err (line_error line
        ''permission identifier cannot have empty segments (no leading, trailing, or doubled colons)'')
      else if \<not> is_rbac_segment_ident seg then Err (line_error line
        ''permission segments must match `[a-z][a-z0-9_]*`'')
      else check_permission_segments line segs)"

definition parse_permission_decl :: "source_line \<Rightarrow> string \<Rightarrow> (ParseError, permission_decl) result" where
  "parse_permission_decl line raw_name =
     (let name = trim raw_name in
      if name = [] then Err (line_error line
        ''`permission` requires an identifier: `permission <resource>:<action>`'')
      else if contains_ws name then Err (line_error line
        ''`permission` accepts a single colon-separated identifier per line'')
      else let segments = split_on CHR '':'' name in
      if length segments < 2 \<or> length segments > 4 then Err (line_error line
        ''permission identifier requires 2 to 4 colon-separated segments (`<resource>:<action>` ... `<resource>:<action>:<scope>:<qualifier>`)'')
      else try_bind (check_permission_segments line segments) (\<lambda>_.
        Ok \<lparr>pd_name = name, pd_segments = segments, pd_span = Span (sl_start line) (sl_end line)\<rparr>))"

section \<open>The grants block\<close>

definition check_grant_entry :: "source_line \<Rightarrow> string \<Rightarrow> (ParseError, unit) result" where
  "check_grant_entry line tok =
     (if contains_ws tok then Err (line_error line
        ''`grants` entries are bare permission identifiers (one per line)'')
      else let segments = split_on CHR '':'' tok in
      if length segments < 2 \<or> length segments > 4 \<or> list_ex (\<lambda>s. s = []) segments then Err (line_error line
        ''permission ref must be 2-4 non-empty colon-separated segments'')
      else if \<not> list_all is_rbac_segment_ident segments then Err (line_error line
        ''permission ref segments must match `[a-z][a-z0-9_]*`'')
      else Ok ())"

function role_grants_loop ::
  "source_line \<Rightarrow> source_line list \<Rightarrow> nat \<Rightarrow> string list \<Rightarrow> (ParseError, string list \<times> nat) result" where
  "role_grants_loop header ls i entries =
     (if i < length ls then
        let line = ls ! i; trimmed = trim_start (sl_text line) in
        if is_trivia trimmed then role_grants_loop header ls (i + 1) entries
        else if sl_indent line \<le> sl_indent header then Ok (entries, i)
        else if sl_indent line \<noteq> sl_indent header + 2 then Err (line_error line
          ''`grants` entries use four-space indentation (one permission ref per line)'')
        else try_bind (check_grant_entry line trimmed) (\<lambda>_.
          role_grants_loop header ls (i + 1) (entries @ [trimmed]))
      else Ok (entries, i))"
  by pat_completeness auto
termination by (relation "measure (\<lambda>(h, ls, i, es). length ls - i)") auto

declare role_grants_loop.simps [simp del]

definition parse_role_grants_block :: "source_line list \<Rightarrow> nat \<Rightarrow> (ParseError, string list \<times> nat) result" where
  "parse_role_grants_block ls start =
     (let header = ls ! start in
      try_bind (role_grants_loop header ls (start + 1) []) (\<lambda>(entries, i).
        if entries = [] then Err (line_error header
          ''`grants` block requires at least one permission ref (use `grants_all` or omit the block to inherit only)'')
        else Ok (entries, i)))"

lemma role_grants_loop_bounds:
  "role_grants_loop header ls i es = Ok (es', n) \<Longrightarrow> i \<le> n \<and> (i \<le> length ls \<longrightarrow> n \<le> length ls)"
proof (induction i arbitrary: es rule: index_induct[where n = "length ls"])
  case (step i)
  show ?case
  proof (cases "i < length ls")
    case True
    note IH = step.IH[OF this, of "Suc i", simplified]
    from step.prems True show ?thesis
      by (subst (asm) role_grants_loop.simps) (auto simp: Let_def split: if_splits dest!: IH)
  next
    case False
    with step.prems show ?thesis by (subst (asm) role_grants_loop.simps) auto
  qed
qed

lemma role_grants_block_bounds:
  "parse_role_grants_block ls start = Ok (es, n) \<Longrightarrow> start < n \<and> (start < length ls \<longrightarrow> n \<le> length ls)"
  by (auto simp: parse_role_grants_block_def Let_def dest!: role_grants_loop_bounds split: if_splits)

interpretation grants_block: block_parser parse_role_grants_block
  by unfold_locales (auto dest: role_grants_block_bounds)

section \<open>The role block\<close>

text \<open>The loop of \<^verbatim>\<open>parse_role_decl\<close> carries its mutable locals: the parent, the grants list, the
  \<^verbatim>\<open>grants_all\<close> flag and the end of the last child.\<close>

function role_decl_loop ::
  "source_line list \<Rightarrow> nat \<Rightarrow> string option \<Rightarrow> string list option \<Rightarrow> bool \<Rightarrow> nat \<Rightarrow>
   (ParseError, (string option \<times> string list option \<times> bool \<times> nat) \<times> nat) result" where
  "role_decl_loop ls i inherits grants grants_all last_end =
     (if i < length ls then
        let line = ls ! i; trimmed = trim_start (sl_text line) in
        if is_trivia trimmed then role_decl_loop ls (i + 1) inherits grants grants_all last_end
        else if sl_indent line = 0 then Ok ((inherits, grants, grants_all, last_end), i)
        else if sl_indent line \<noteq> 2 then Err (line_error line
          ''`role` children use two-space indentation (`inherits`, `grants`, `grants_all`)'')
        else (case strip_prefix ''inherits '' trimmed of
          Some rest \<Rightarrow>
            (if inherits \<noteq> None then Err (line_error line
               ''`role` may declare at most one `inherits` clause'')
             else let parent = trim rest in
             if CHR '','' \<in> set parent then Err (line_error line
               ''multi-parent inheritance (`inherits A, B`) is not supported in v0.1; declare a single parent role per `role`'')
             else if \<not> is_rbac_role_ident parent then Err (line_error line
               ''`inherits` parent must be a single `[a-z][a-z0-9_]*` role name'')
             else role_decl_loop ls (i + 1) (Some parent) grants grants_all (sl_end line))
        | None \<Rightarrow>
          if trimmed = ''grants_all'' then
            (if grants_all then Err (line_error line
               ''`role` may declare `grants_all` at most once'')
             else if grants \<noteq> None then Err (line_error line
               ''`role` may declare either `grants` or `grants_all`, not both'')
             else role_decl_loop ls (i + 1) inherits grants True (sl_end line))
          else if trimmed = ''grants'' then
            (if grants \<noteq> None then Err (line_error line
               ''`role` may declare at most one `grants` block'')
             else if grants_all then Err (line_error line
               ''`role` may declare either `grants` or `grants_all`, not both'')
             else try_bind (parse_role_grants_block ls i) (\<lambda>(entries, next').
               role_decl_loop ls next' inherits (Some entries) grants_all
                 (sl_end (ls ! max (next' - 1) i))))
          else Err (line_error line
            ''`role` children are `inherits <role>`, `grants` block, or `grants_all`''))
      else Ok ((inherits, grants, grants_all, last_end), i))"
  by pat_completeness auto
termination
  by (relation "measure (\<lambda>(ls, i, inh, g, ga, e). length ls - i)") (auto dest: role_grants_block_bounds)

declare role_decl_loop.simps [simp del]

definition parse_role_decl :: "source_line list \<Rightarrow> nat \<Rightarrow> string \<Rightarrow> (ParseError, role_decl \<times> nat) result" where
  "parse_role_decl ls start name =
     (let header = ls ! start in
      try_bind (role_decl_loop ls (start + 1) None None False (sl_end header))
        (\<lambda>((inherits, grants, grants_all, last_end), i).
          Ok (\<lparr>rd_name = name, rd_inherits = inherits,
               rd_grants = (if grants_all then GAll
                 else case grants of Some list \<Rightarrow> GExplicit list | None \<Rightarrow> GInheritedOnly),
               rd_span = Span (sl_start header) last_end\<rparr>, i)))"

lemma role_decl_loop_bounds:
  "role_decl_loop ls i inh g ga e = Ok (r, n) \<Longrightarrow> i \<le> n \<and> (i \<le> length ls \<longrightarrow> n \<le> length ls)"
proof (induction i arbitrary: inh g ga e rule: index_induct[where n = "length ls"])
  case (step i)
  show ?case
  proof (cases "i < length ls")
    case True
    note IH = step.IH[OF this]
    from step.prems True show ?thesis
      by (subst (asm) role_decl_loop.simps)
        (auto simp: Let_def split: if_splits option.splits dest!: IH[rotated] role_grants_block_bounds)
  next
    case False
    with step.prems show ?thesis by (subst (asm) role_decl_loop.simps) auto
  qed
qed

lemma role_decl_bounds:
  "parse_role_decl ls start name = Ok (d, n) \<Longrightarrow> start < n \<and> (start < length ls \<longrightarrow> n \<le> length ls)"
  by (auto simp: parse_role_decl_def Let_def dest!: role_decl_loop_bounds)

interpretation role_block: block_parser "\<lambda>ls start. parse_role_decl ls start name"
  by unfold_locales (auto dest: role_decl_bounds)


section \<open>The package walk\<close>

function rbac_catalog_loop ::
  "source_line list \<Rightarrow> nat \<Rightarrow> permission_decl list \<Rightarrow> role_decl list \<Rightarrow>
   (ParseError, permission_decl list \<times> role_decl list) result" where
  "rbac_catalog_loop ls i permissions roles =
     (if i < length ls then
        let line = ls ! i; trimmed = trim_start (sl_text line) in
        if is_trivia trimmed then rbac_catalog_loop ls (i + 1) permissions roles
        else if sl_indent line = 0 then
          (case strip_prefix ''permission '' trimmed of
             Some rest \<Rightarrow>
               try_bind (parse_permission_decl line (trim rest)) (\<lambda>decl.
                 rbac_catalog_loop ls (i + 1) (permissions @ [decl]) roles)
           | None \<Rightarrow>
             (case strip_prefix ''role '' trimmed of
                Some rest \<Rightarrow>
                  let header_name = trim rest in
                  if header_name = [] then Err (line_error line ''`role` requires a name: `role <name>`'')
                  else if \<not> is_rbac_role_ident header_name then Err (line_error line
                    ''role name must match `[a-z][a-z0-9_]*`'')
                  else try_bind (parse_role_decl ls i header_name) (\<lambda>(decl, next').
                    rbac_catalog_loop ls next' permissions (roles @ [decl]))
              | None \<Rightarrow> rbac_catalog_loop ls (i + 1) permissions roles))
        else rbac_catalog_loop ls (i + 1) permissions roles
      else Ok (permissions, roles))"
  by pat_completeness auto
termination
  by (relation "measure (\<lambda>(ls, i, ps, rs). length ls - i)") (auto dest: role_decl_bounds)

declare rbac_catalog_loop.simps [simp del]

definition parse_rbac_catalog_decls :: "string \<Rightarrow> (ParseError, permission_decl list \<times> role_decl list) result" where
  "parse_rbac_catalog_decls source = rbac_catalog_loop (source_lines source) 0 [] []"

definition parse_package_skeleton ::
  "(string \<Rightarrow> (ParseError, 'f list) result) \<Rightarrow> string \<Rightarrow> (ParseError, 'f package_skeleton) result" where
  "parse_package_skeleton parse_feature_skeletons source =
     try_bind (parse_feature_skeletons source) (\<lambda>features.
     try_bind (parse_rbac_catalog_decls source) (\<lambda>(permissions, roles).
     Ok \<lparr>ps_features = features, ps_permissions = permissions, ps_roles = roles\<rparr>))"

section \<open>Well-formed declarations\<close>

definition wf_permission_decl :: "permission_decl \<Rightarrow> bool" where
  "wf_permission_decl d \<longleftrightarrow> is_valid_permission_ref (pd_name d) \<and> pd_segments d = split_on CHR '':'' (pd_name d)"

definition wf_grants :: "RoleGrantsAst \<Rightarrow> bool" where
  "wf_grants g = (case g of GExplicit refs \<Rightarrow> refs \<noteq> [] \<and> list_all is_valid_permission_ref refs | _ \<Rightarrow> True)"

definition wf_role_decl :: "role_decl \<Rightarrow> bool" where
  "wf_role_decl d \<longleftrightarrow> is_rbac_role_ident (rd_name d) \<and>
     (case rd_inherits d of None \<Rightarrow> True | Some parent \<Rightarrow> is_rbac_role_ident parent) \<and> wf_grants (rd_grants d)"

lemma segment_ident_iff: "is_rbac_segment_ident s \<longleftrightarrow> is_permission_segment s"
  by (simp add: is_rbac_segment_ident_def is_permission_segment_def)

lemma permission_ref_graphic:
  assumes "is_valid_permission_ref p"
  shows "p \<noteq> []" "\<forall>c \<in> set p. graphic c" "\<not> contains_ws p"
proof -
  from assms obtain c t where "p = c # t" "is_ascii_lowercase c" "list_all (\<lambda>c. ident_char c \<or> c = CHR '':'') t"
    by (rule permission_ref_chars)
  then show "p \<noteq> []" and g: "\<forall>c \<in> set p. graphic c"
    using ident_char_graphic by (auto simp: list_all_iff)
  from g show "\<not> contains_ws p" by (rule contains_ws_graphic)
qed

lemma check_permission_segments_iff:
  "check_permission_segments line segs = Ok u \<longleftrightarrow> list_all is_permission_segment segs"
  by (induction segs) (auto simp: segment_ident_iff is_permission_segment_def)

lemma permission_decl_ok:
  "parse_permission_decl line raw = Ok d \<longleftrightarrow> is_valid_permission_ref (trim raw) \<and>
     d = \<lparr>pd_name = trim raw, pd_segments = split_on CHR '':'' (trim raw), pd_span = Span (sl_start line) (sl_end line)\<rparr>"
proof -
  have "is_valid_permission_ref (trim raw) \<longleftrightarrow>
      trim raw \<noteq> [] \<and> \<not> contains_ws (trim raw) \<and> is_valid_permission_ref (trim raw)"
    using permission_ref_graphic[of "trim raw"] by blast
  then show ?thesis
    by (auto simp: parse_permission_decl_def Let_def try_bind_Ok_iff check_permission_segments_iff
        is_valid_permission_ref_def)
qed

lemma grant_entry_ok: "check_grant_entry line tok = Ok u \<longleftrightarrow> is_valid_permission_ref tok"
proof -
  have "is_valid_permission_ref tok \<longleftrightarrow> \<not> contains_ws tok \<and> is_valid_permission_ref tok"
    using permission_ref_graphic[of tok] by blast
  moreover have "list_all is_permission_segment segs \<Longrightarrow> \<not> list_ex (\<lambda>s. s = []) segs" for segs
    by (auto simp: list_all_iff list_ex_iff is_permission_segment_def)
  moreover have "is_rbac_segment_ident = is_permission_segment" by (rule ext) (rule segment_ident_iff)
  ultimately show ?thesis
    by (auto simp: check_grant_entry_def Let_def is_valid_permission_ref_def)
qed

lemma role_grants_loop_valid:
  "role_grants_loop header ls i es = Ok (es', n) \<Longrightarrow> list_all is_valid_permission_ref es \<Longrightarrow>
   list_all is_valid_permission_ref es'"
proof (induction i arbitrary: es rule: index_induct[where n = "length ls"])
  case (step i)
  from step.prems show ?case
    by (subst (asm) role_grants_loop.simps)
      (auto simp: Let_def grant_entry_ok split: if_splits dest!: step.IH[rotated 2])
qed

lemma role_grants_block_valid:
  "parse_role_grants_block ls start = Ok (es, n) \<Longrightarrow> es \<noteq> [] \<and> list_all is_valid_permission_ref es"
  by (auto simp: parse_role_grants_block_def Let_def split: if_splits dest!: role_grants_loop_valid)

definition wf_role_parts :: "string option \<Rightarrow> string list option \<Rightarrow> bool \<Rightarrow> bool" where
  "wf_role_parts inh g ga \<longleftrightarrow> (case inh of None \<Rightarrow> True | Some p \<Rightarrow> is_rbac_role_ident p) \<and>
     (case g of None \<Rightarrow> True | Some es \<Rightarrow> \<not> ga \<and> es \<noteq> [] \<and> list_all is_valid_permission_ref es)"

lemma wf_role_parts_step:
  "wf_role_parts inh g ga \<Longrightarrow> is_rbac_role_ident p \<Longrightarrow> wf_role_parts (Some p) g ga"
  "wf_role_parts inh None ga \<Longrightarrow> wf_role_parts inh None True"
  "wf_role_parts inh g ga \<Longrightarrow> \<not> ga \<Longrightarrow> es \<noteq> [] \<Longrightarrow> list_all is_valid_permission_ref es \<Longrightarrow>
   wf_role_parts inh (Some es) False"
  by (simp_all add: wf_role_parts_def)

lemma role_decl_loop_valid:
  "role_decl_loop ls i inh g ga e = Ok ((inh', g', ga', e'), n) \<Longrightarrow> wf_role_parts inh g ga \<Longrightarrow>
   wf_role_parts inh' g' ga'"
proof (induction i arbitrary: inh g ga e rule: index_induct[where n = "length ls"])
  case (step i)
  note IH = step.IH[rotated 2]
  from step.prems show ?case
    by (subst (asm) role_decl_loop.simps)
      (auto simp: Let_def split: if_splits option.splits
        intro: IH wf_role_parts_step dest: role_grants_block_bounds role_grants_block_valid)
qed

lemma role_decl_valid: "parse_role_decl ls start name = Ok (d, n) \<Longrightarrow> is_rbac_role_ident name \<Longrightarrow> wf_role_decl d"
  by (auto simp: parse_role_decl_def Let_def wf_role_decl_def wf_grants_def wf_role_parts_def
      dest!: role_decl_loop_valid split: option.splits)

lemma rbac_catalog_loop_valid:
  "rbac_catalog_loop ls i ps rs = Ok (ps', rs') \<Longrightarrow>
   list_all wf_permission_decl ps \<Longrightarrow> list_all wf_role_decl rs \<Longrightarrow>
   list_all wf_permission_decl ps' \<and> list_all wf_role_decl rs'"
proof (induction i arbitrary: ps rs rule: index_induct[where n = "length ls"])
  case (step i)
  have IH: "list_all wf_permission_decl ps' \<and> list_all wf_role_decl rs'"
    if "rbac_catalog_loop ls j qs ss = Ok (ps', rs')" "i < length ls" "i < j"
      "list_all wf_permission_decl qs" "list_all wf_role_decl ss" for j qs ss
    using step.IH that by blast
  have perm: "wf_permission_decl d" if "parse_permission_decl line raw = Ok d" for line raw d
    using that by (auto simp: permission_decl_ok wf_permission_decl_def)
  from step.prems show ?case
    by (subst (asm) rbac_catalog_loop.simps)
      (auto simp: Let_def split: if_splits option.splits prod.splits
        dest!: IH dest: perm role_decl_valid role_decl_bounds)
qed

section \<open>Properties\<close>

text \<open>
  The three places that read a permission identifier agree: \<^verbatim>\<open>permission\<close> declares a name,
  \<^verbatim>\<open>grants\<close> accepts an entry and \<^verbatim>\<open>has_permission\<close> accepts an argument exactly for the same
  identifiers, so a permission that can be declared can be granted and tested, and conversely.
\<close>

lemma permission_grammars_agree:
  "((\<exists>d. parse_permission_decl line name = Ok d) \<longleftrightarrow> is_valid_permission_ref (trim name)) \<and>
   (check_grant_entry line name = Ok () \<longleftrightarrow> is_valid_permission_ref name) \<and>
   (is_valid_permission_ref name \<longleftrightarrow> is_valid_permission_ref (trim name) \<and> trim name = name)"
  using permission_ref_graphic(2)[of name] trim_all_graphic[of name]
  by (auto simp: permission_decl_ok grant_entry_ok)

text \<open>
  Every declaration of a parsed package is well formed: permissions have two to four lower-case
  segments which are the colon-split of their name; role names and parents are identifiers; an
  explicit grants list is non-empty and holds valid permission references only.
\<close>

lemma rbac_catalog_decls_wf:
  assumes "parse_rbac_catalog_decls source = Ok (permissions, roles)"
  shows "list_all wf_permission_decl permissions \<and> list_all wf_role_decl roles"
  using assms rbac_catalog_loop_valid unfolding parse_rbac_catalog_decls_def by fastforce

lemma rbac_catalog_decls_wf_example:
  "list_all wf_role_decl
     [\<lparr>rd_name = ''admin'', rd_inherits = Some ''user'', rd_grants = GExplicit [''users:read''],
       rd_span = Span 22 72\<rparr>]"
proof -
  let ?nl = "[CHR 0x0A]"
  have "parse_rbac_catalog_decls
      (''permission users:read'' @ ?nl @ ''role admin'' @ ?nl @ ''  inherits user'' @ ?nl @
       ''  grants'' @ ?nl @ ''    users:read'' @ ?nl) =
      Ok ([\<lparr>pd_name = ''users:read'', pd_segments = [''users'', ''read''], pd_span = Span 0 21\<rparr>],
          [\<lparr>rd_name = ''admin'', rd_inherits = Some ''user'', rd_grants = GExplicit [''users:read''],
            rd_span = Span 22 72\<rparr>])"
    by code_simp
  from rbac_catalog_decls_wf[OF this] show ?thesis ..
qed

end
