(* ===== verification/Rbac_Catalog.thy ===== *)
theory Rbac_Catalog
  imports Rbac_Syntax
begin

text \<open>
  The analyzer pass for the access-control catalog (\<^verbatim>\<open>lazuli_analyzer/src/rbac.rs\<close>, with the data
  of \<^verbatim>\<open>lazuli_ir/src/nodes/rbac.rs\<close>): declarations are deduplicated, references checked,
  inheritance cycles reported and the permission closure of every role computed. Ordered maps and sets
  are the sorted lists of the prelude; the two walks over the inheritance chain are total functions,
  the visited names being the termination argument.

  Shown here: the closure of a role is exactly what the roles on its inheritance chain grant; it grows
  along \<^verbatim>\<open>inherits\<close>; a cycle is reported exactly when there is one; a clean catalog refers to
  declared names only.
\<close>

section \<open>The catalog\<close>

record permission_entry =
  pe_name :: string
  pe_segments :: "string list"
  pe_span_ref :: "(nat \<times> nat) option"

datatype RoleGrants = Explicit "string list" | All | InheritedOnly

record role_entry =
  re_name :: string
  re_inherits :: "string option"
  re_grants :: RoleGrants
  re_closure :: "string list"
  re_span_ref :: "(nat \<times> nat) option"

record rbac_catalog =
  rc_permissions :: "permission_entry list"
  rc_roles :: "role_entry list"

record rbac_issue =
  ri_code :: string
  ri_message :: string
  ri_span :: "(nat \<times> nat) option"

abbreviation Issue :: "string \<Rightarrow> string \<Rightarrow> (nat \<times> nat) option \<Rightarrow> rbac_issue" where
  "Issue c m s \<equiv> \<lparr>ri_code = c, ri_message = m, ri_span = s\<rparr>"

definition span_pair :: "span \<Rightarrow> nat \<times> nat" where
  "span_pair s = (sp_start s, sp_end s)"

section \<open>First pass: deduplication and references\<close>

fun permission_pass :: "string list \<Rightarrow> permission_decl list \<Rightarrow> permission_entry list \<times> rbac_issue list" where
  "permission_pass seen [] = ([], [])"
| "permission_pass seen (p # ps) =
     (if pd_name p \<in> set seen then
        (case permission_pass seen ps of (entries, issues) \<Rightarrow>
           (entries, Issue ''RBAC-PERM-DUPLICATE-001''
              (''duplicate permission `'' @ pd_name p @ ''` in catalog'') (Some (span_pair (pd_span p))) # issues))
      else
        (case permission_pass (pd_name p # seen) ps of (entries, issues) \<Rightarrow>
           (\<lparr>pe_name = pd_name p, pe_segments = pd_segments p, pe_span_ref = Some (span_pair (pd_span p))\<rparr> # entries,
            issues)))"

definition unknown_grants :: "string list \<Rightarrow> role_decl \<Rightarrow> rbac_issue list" where
  "unknown_grants perm_names r = (case rd_grants r of
       GExplicit list \<Rightarrow> map (\<lambda>g. Issue ''RBAC-PERM-UNKNOWN-001''
         (''role `'' @ rd_name r @ ''` grants undeclared permission `'' @ g @ ''`'') (Some (span_pair (rd_span r))))
         (filter (\<lambda>g. g \<notin> set perm_names) list)
     | _ \<Rightarrow> [])"

fun lower_grants :: "RoleGrantsAst \<Rightarrow> RoleGrants" where
  "lower_grants (GExplicit list) = Explicit list"
| "lower_grants GAll = All"
| "lower_grants GInheritedOnly = InheritedOnly"

fun role_pass :: "string list \<Rightarrow> string list \<Rightarrow> role_decl list \<Rightarrow> role_entry list \<times> rbac_issue list" where
  "role_pass perm_names seen [] = ([], [])"
| "role_pass perm_names seen (r # rs) =
     (if rd_name r \<in> set seen then
        (case role_pass perm_names seen rs of (entries, issues) \<Rightarrow>
           (entries, Issue ''RBAC-ROLE-DUPLICATE-001''
              (''duplicate role `'' @ rd_name r @ ''` in catalog'') (Some (span_pair (rd_span r))) # issues))
      else
        (case role_pass perm_names (rd_name r # seen) rs of (entries, issues) \<Rightarrow>
           (\<lparr>re_name = rd_name r, re_inherits = rd_inherits r, re_grants = lower_grants (rd_grants r),
             re_closure = [], re_span_ref = Some (span_pair (rd_span r))\<rparr> # entries,
            unknown_grants perm_names r @ issues)))"

definition inherit_pass :: "string list \<Rightarrow> role_decl list \<Rightarrow> rbac_issue list" where
  "inherit_pass role_names rs = concat (map (\<lambda>r. case rd_inherits r of
       Some parent \<Rightarrow> (if parent \<in> set role_names then [] else
         [Issue ''RBAC-ROLE-INHERIT-UNKNOWN-001''
           (''role `'' @ rd_name r @ ''` inherits from unknown role `'' @ parent @ ''`'') (Some (span_pair (rd_span r)))])
     | None \<Rightarrow> []) rs)"

section \<open>Inheritance cycles\<close>

type_synonym parent_map = "(string \<times> string option) list"

definition role_parent :: "role_entry list \<Rightarrow> parent_map" where
  "role_parent roles = bmap_of (map (\<lambda>r. (re_name r, re_inherits r)) roles)"

definition parent_of :: "parent_map \<Rightarrow> string \<Rightarrow> string option" where
  "parent_of pm name = (case map_of pm name of Some p \<Rightarrow> p | None \<Rightarrow> None)"

text \<open>Names of the map that a walk has not met yet: both walks remove one at every step that goes on.\<close>

definition unmet :: "parent_map \<Rightarrow> string list \<Rightarrow> nat" where
  "unmet pm met = card (fst ` set pm - set met)"

lemma unmet_mono: "set met \<subseteq> set met' \<Longrightarrow> unmet pm met' \<le> unmet pm met"
  unfolding unmet_def by (rule card_mono) auto

lemma unmet_less: "parent_of pm name = Some p \<Longrightarrow> name \<notin> set met \<Longrightarrow> set met' = insert name (set met) \<Longrightarrow>
  unmet pm met' < unmet pm met"
  unfolding unmet_def
proof (rule psubset_card_mono)
  assume p: "parent_of pm name = Some p" "name \<notin> set met" "set met' = insert name (set met)"
  then have "name \<in> fst ` set pm" by (force simp: parent_of_def split: option.splits dest: map_of_SomeD)
  with p show "fst ` set pm - set met' \<subset> fst ` set pm - set met" by auto
qed simp

text \<open>\<^verbatim>\<open>while let Some(name) = cur\<close>: the chain walked so far and the name at which it closes.\<close>

function cycle_walk :: "parent_map \<Rightarrow> string list \<Rightarrow> string option \<Rightarrow> (string list \<times> string) option" where
  "cycle_walk pm chain None = None"
| "cycle_walk pm chain (Some name) =
     (if name \<in> set chain then Some (chain, name)
      else cycle_walk pm (chain @ [name]) (parent_of pm name))"
  by pat_completeness auto
termination
proof (relation "measures [\<lambda>(pm, chain, cur). unmet pm chain, \<lambda>(pm, chain, cur). if cur = None then 0 else 1]")
  fix pm :: parent_map and chain and name :: string assume n: "name \<notin> set chain"
  show "((pm, chain @ [name], parent_of pm name), pm, chain, Some name) \<in>
     measures [\<lambda>(pm, chain, cur). unmet pm chain, \<lambda>(pm, chain, cur). if cur = None then 0 else 1]"
  proof (cases "parent_of pm name")
    case None
    have "unmet pm (chain @ [name]) \<le> unmet pm chain" by (rule unmet_mono) auto
    with None show ?thesis by (simp add: le_less)
  next
    case (Some p)
    then show ?thesis using unmet_less[OF Some n, of "chain @ [name]"] by simp
  qed
qed simp

fun cycle_pass :: "parent_map \<Rightarrow> string list \<Rightarrow> role_entry list \<Rightarrow> rbac_issue list" where
  "cycle_pass pm reported [] = []"
| "cycle_pass pm reported (r # rs) = (case cycle_walk pm [] (Some (re_name r)) of
       None \<Rightarrow> cycle_pass pm reported rs
     | Some (chain, name) \<Rightarrow>
         let key = join '','' (sort (chain @ [name])) in
         if key \<in> set reported then cycle_pass pm reported rs
         else Issue ''RBAC-CYCLE-001''
             (''role inheritance cycle detected: '' @ join '' -> '' chain @ '' -> '' @ name) (re_span_ref r)
           # cycle_pass pm (key # reported) rs)"

section \<open>Permission closures\<close>

definition own_grants :: "(string \<times> RoleGrants) list \<Rightarrow> string list \<Rightarrow> string \<Rightarrow> string list" where
  "own_grants gm all_perms name = (case map_of gm name of
       Some (Explicit list) \<Rightarrow> filter (\<lambda>g. g \<in> set all_perms) list | _ \<Rightarrow> [])"

function closure_walk ::
  "(string \<times> RoleGrants) list \<Rightarrow> string list \<Rightarrow> parent_map \<Rightarrow> string list \<Rightarrow> string list \<Rightarrow> string list \<Rightarrow>
   string list \<times> bool" where
  "closure_walk gm all_perms pm visited [] acc = (acc, False)"
| "closure_walk gm all_perms pm visited (name # stack) acc =
     (if name \<in> set visited then closure_walk gm all_perms pm visited stack acc
      else if map_of gm name = Some All then (acc, True)
      else closure_walk gm all_perms pm (name # visited)
        (case parent_of pm name of Some parent \<Rightarrow> parent # stack | None \<Rightarrow> stack)
        (fold bset_insert (own_grants gm all_perms name) acc))"
  by pat_completeness auto
termination
proof (relation "measures [\<lambda>(gm, ap, pm, visited, stack, acc). unmet pm visited,
     \<lambda>(gm, ap, pm, visited, stack, acc). length stack]", goal_cases)
  case (3 gm ap pm visited name stack acc)
  show ?case
  proof (cases "parent_of pm name")
    case None
    have "unmet pm (name # visited) \<le> unmet pm visited" by (rule unmet_mono) auto
    with None show ?thesis by (simp add: le_less)
  next
    case (Some p)
    then show ?thesis using unmet_less[OF Some 3(1), of "name # visited"] by simp
  qed
qed simp_all

definition role_closure :: "string list \<Rightarrow> role_entry list \<Rightarrow> role_entry \<Rightarrow> string list" where
  "role_closure all_perms roles r =
     (case closure_walk (bmap_of (map (\<lambda>r. (re_name r, re_grants r)) roles)) all_perms (role_parent roles)
        [] [re_name r] [] of (acc, bail_all) \<Rightarrow> if bail_all then all_perms else acc)"

section \<open>The pass\<close>

definition unused_pass :: "permission_entry list \<Rightarrow> role_entry list \<Rightarrow> rbac_issue list" where
  "unused_pass perms roles =
     (if list_ex (\<lambda>r. re_grants r = All) roles then []
      else let used = bset_of (concat (map re_closure roles)) in
        map (\<lambda>p. Issue ''RBAC-PERM-UNUSED-001''
            (''permission `'' @ pe_name p @ ''` is declared but no role grants it'') (pe_span_ref p))
          (filter (\<lambda>p. pe_name p \<notin> set used) perms))"

definition analyze_rbac_catalog :: "'f package_skeleton \<Rightarrow> rbac_catalog option \<times> rbac_issue list" where
  "analyze_rbac_catalog pkg =
     (if ps_permissions pkg = [] \<and> ps_roles pkg = [] then (None, [])
      else case permission_pass [] (ps_permissions pkg) of (perm_entries, issues1) \<Rightarrow>
        case role_pass (map pe_name perm_entries) [] (ps_roles pkg) of (role_entries, issues2) \<Rightarrow>
        let issues3 = inherit_pass (map re_name role_entries) (ps_roles pkg);
            issues4 = cycle_pass (role_parent role_entries) [] role_entries;
            all_perm_names = map pe_name perm_entries;
            closed = map (\<lambda>r. r\<lparr>re_closure := role_closure all_perm_names role_entries r\<rparr>) role_entries;
            issues5 = unused_pass perm_entries closed
        in (Some \<lparr>rc_permissions = perm_entries, rc_roles = closed\<rparr>,
            issues1 @ issues2 @ issues3 @ issues4 @ issues5))"

definition role_grants_permission :: "rbac_catalog \<Rightarrow> string \<Rightarrow> string \<Rightarrow> bool" where
  "role_grants_permission catalog role perm =
     (case find (\<lambda>r. re_name r = role) (rc_roles catalog) of
        Some r \<Rightarrow> perm \<in> set (re_closure r) | None \<Rightarrow> False)"


section \<open>The inheritance relation\<close>

definition inherits_rel :: "role_entry list \<Rightarrow> (string \<times> string) set" where
  "inherits_rel roles = {(re_name r, p) | r p. r \<in> set roles \<and> re_inherits r = Some p}"

definition parent_rel :: "parent_map \<Rightarrow> (string \<times> string) set" where
  "parent_rel pm = {(a, b). parent_of pm a = Some b}"

lemma lookup_role_map:
  assumes "distinct (map re_name roles)" "r \<in> set roles"
  shows "map_of (bmap_of (map (\<lambda>r. (re_name r, f r)) roles)) (re_name r) = Some (f r)"
proof -
  have "distinct (map fst (rev (map (\<lambda>r. (re_name r, f r)) roles)))"
    using assms(1) by (simp add: comp_def rev_map[symmetric])
  moreover have "(re_name r, f r) \<in> set (rev (map (\<lambda>r. (re_name r, f r)) roles))"
    using assms(2) by auto
  ultimately show ?thesis unfolding lookup_bmap_of by (rule map_of_is_SomeI)
qed

lemma lookup_role_map_D:
  assumes "map_of (bmap_of (map (\<lambda>r. (re_name r, f r)) roles)) a = Some v"
  obtains r where "r \<in> set roles" "a = re_name r" "v = f r"
  using assms unfolding lookup_bmap_of by (auto dest!: map_of_SomeD)

lemma parent_rel_roles:
  assumes "distinct (map re_name roles)"
  shows "parent_rel (role_parent roles) = inherits_rel roles"
proof (rule set_eqI, clarify)
  fix a b
  show "(a, b) \<in> parent_rel (role_parent roles) \<longleftrightarrow> (a, b) \<in> inherits_rel roles"
  proof
    assume "(a, b) \<in> parent_rel (role_parent roles)"
    then have "map_of (role_parent roles) a = Some (Some b)"
      by (auto simp: parent_rel_def parent_of_def split: option.splits)
    then show "(a, b) \<in> inherits_rel roles"
      unfolding role_parent_def by (rule lookup_role_map_D) (auto simp: inherits_rel_def)
  next
    assume "(a, b) \<in> inherits_rel roles"
    then obtain r where "r \<in> set roles" "a = re_name r" "re_inherits r = Some b"
      by (auto simp: inherits_rel_def)
    with lookup_role_map[OF assms, of r re_inherits] show "(a, b) \<in> parent_rel (role_parent roles)"
      by (simp add: parent_rel_def parent_of_def role_parent_def)
  qed
qed

section \<open>What the cycle walk finds\<close>

lemma cycle_walk_Some:
  "cycle_walk pm chain (Some n) = Some (chain', m) \<Longrightarrow> \<forall>c \<in> set chain. (c, n) \<in> (parent_rel pm)\<^sup>+ \<Longrightarrow>
   (m, m) \<in> (parent_rel pm)\<^sup>+"
proof (induction pm chain "Some n" arbitrary: n rule: cycle_walk.induct)
  case (2 pm chain name)
  show ?case
  proof (cases "name \<in> set chain")
    case False
    with "2.prems"(1) obtain p where p: "parent_of pm name = Some p"
      by (cases "parent_of pm name") auto
    then have "(name, p) \<in> parent_rel pm" by (simp add: parent_rel_def)
    with "2.prems"(2) have "\<forall>c \<in> set (chain @ [name]). (c, p) \<in> (parent_rel pm)\<^sup>+"
      by (auto intro: trancl_into_trancl)
    moreover have "cycle_walk pm (chain @ [name]) (Some p) = Some (chain', m)"
      using "2.prems"(1) False p by simp
    ultimately show ?thesis using "2.hyps"[OF False p] p by simp
  qed (use 2 in auto)
qed

lemma cycle_walk_None:
  "cycle_walk pm chain (Some n) = None \<Longrightarrow> (n, x) \<in> (parent_rel pm)\<^sup>* \<Longrightarrow> (x, x) \<notin> (parent_rel pm)\<^sup>+"
proof (induction pm chain "Some n" arbitrary: n x rule: cycle_walk.induct)
  case (2 pm chain name)
  from "2.prems"(1) have fresh: "name \<notin> set chain" by (auto split: if_splits)
  show ?case
  proof (cases "parent_of pm name")
    case None
    then have no: "(name, y) \<notin> parent_rel pm" for y by (simp add: parent_rel_def)
    then have "x = name" using "2.prems"(2) by (metis converse_rtranclE)
    with no show ?thesis by (metis tranclD)
  next
    case (Some p)
    have step: "y = p" if "(name, y) \<in> parent_rel pm" for y using that Some by (simp add: parent_rel_def)
    have rest: "(x, x) \<notin> (parent_rel pm)\<^sup>+" if "(p, x) \<in> (parent_rel pm)\<^sup>*" for x
      using "2.hyps"[OF fresh Some] "2.prems"(1) fresh Some that by simp
    show ?thesis
    proof
      assume cyc: "(x, x) \<in> (parent_rel pm)\<^sup>+"
      from "2.prems"(2) have "x = name \<or> (p, x) \<in> (parent_rel pm)\<^sup>*"
        by (metis converse_rtranclE step)
      moreover have "(p, name) \<in> (parent_rel pm)\<^sup>*" if "x = name"
        using cyc that by (metis tranclD step)
      ultimately show False using rest cyc by blast
    qed
  qed
qed

lemma cycle_pass_codes: "i \<in> set (cycle_pass pm reported rs) \<Longrightarrow> ri_code i = ''RBAC-CYCLE-001''"
  by (induction rs arbitrary: reported) (auto simp: Let_def split: option.splits if_splits)

lemma cycle_pass_Nil_iff:
  "cycle_pass pm reported rs = [] \<longleftrightarrow>
     (\<forall>r \<in> set rs. case cycle_walk pm [] (Some (re_name r)) of None \<Rightarrow> True
        | Some (chain, name) \<Rightarrow> join '','' (sort (chain @ [name])) \<in> set reported)"
  by (induction rs) (auto simp: Let_def split: option.splits)

lemma cycle_pass_iff:
  assumes "distinct (map re_name roles)"
  shows "cycle_pass (role_parent roles) [] roles \<noteq> [] \<longleftrightarrow> \<not> acyclic (inherits_rel roles)"
proof -
  let ?pm = "role_parent roles"
  have R: "parent_rel ?pm = inherits_rel roles" using assms by (rule parent_rel_roles)
  have "cycle_pass ?pm [] roles \<noteq> [] \<longleftrightarrow> (\<exists>r \<in> set roles. cycle_walk ?pm [] (Some (re_name r)) \<noteq> None)"
    unfolding cycle_pass_Nil_iff by (auto split: option.splits)
  also have "\<dots> \<longleftrightarrow> (\<exists>x. (x, x) \<in> (parent_rel ?pm)\<^sup>+)"
  proof
    assume "\<exists>r \<in> set roles. cycle_walk ?pm [] (Some (re_name r)) \<noteq> None"
    then show "\<exists>x. (x, x) \<in> (parent_rel ?pm)\<^sup>+" using cycle_walk_Some by fastforce
  next
    assume "\<exists>x. (x, x) \<in> (parent_rel ?pm)\<^sup>+"
    then obtain x where x: "(x, x) \<in> (parent_rel ?pm)\<^sup>+" ..
    then obtain y where "(x, y) \<in> inherits_rel roles" unfolding R by (metis tranclD)
    then obtain r where "r \<in> set roles" "re_name r = x" by (auto simp: inherits_rel_def)
    moreover have "cycle_walk ?pm [] (Some x) \<noteq> None" using x cycle_walk_None by blast
    ultimately show "\<exists>r \<in> set roles. cycle_walk ?pm [] (Some (re_name r)) \<noteq> None" by blast
  qed
  finally show ?thesis by (simp add: acyclic_def R)
qed


section \<open>What the closure walk collects\<close>

lemma closure_walk_spec:
  assumes "\<forall>v \<in> set visited. \<forall>p. (v, p) \<in> parent_rel pm \<longrightarrow> p \<in> set visited \<union> set stack"
    "\<forall>v \<in> set visited. map_of gm v \<noteq> Some All"
    "set acc = (\<Union>v \<in> set visited. set (own_grants gm ap v))" "strictly_sorted acc"
    "closure_walk gm ap pm visited stack acc = (acc', bail)"
  shows "(bail \<longleftrightarrow> (\<exists>x \<in> (parent_rel pm)\<^sup>* `` (set stack \<union> set visited). map_of gm x = Some All)) \<and>
    (\<not> bail \<longrightarrow> set acc' = (\<Union>x \<in> (parent_rel pm)\<^sup>* `` (set stack \<union> set visited). set (own_grants gm ap x))) \<and>
    strictly_sorted acc'"
  using assms
proof (induction gm ap pm visited stack acc rule: closure_walk.induct)
  case (1 gm ap pm visited acc)
  have "(parent_rel pm)\<^sup>* `` set visited = set visited"
    using "1.prems"(1) by (intro Image_closed_trancl) auto
  with 1 show ?case by auto
next
  case (2 gm ap pm visited name stack acc)
  let ?R = "parent_rel pm"
  show ?case
  proof (cases "name \<in> set visited")
    case True
    then have "set (name # stack) \<union> set visited = set stack \<union> set visited" by auto
    then show ?thesis using "2.IH"(1)[OF True] "2.prems" True by auto
  next
    case fresh: False
    show ?thesis
    proof (cases "map_of gm name = Some All")
      case True
      with fresh "2.prems" show ?thesis by auto
    next
      case False
      let ?stack = "case parent_of pm name of Some parent \<Rightarrow> parent # stack | None \<Rightarrow> stack"
      have new: "set ?stack = set stack \<union> {p. (name, p) \<in> ?R}"
        by (auto simp: parent_rel_def split: option.splits)
      have reach: "?R\<^sup>* `` (set ?stack \<union> set (name # visited)) = ?R\<^sup>* `` (set (name # stack) \<union> set visited)"
        unfolding new by (auto intro: converse_rtrancl_into_rtrancl)
      have "closure_walk gm ap pm (name # visited) ?stack (fold bset_insert (own_grants gm ap name) acc) = (acc', bail)"
        using "2.prems"(5) fresh False by simp
      moreover have "\<forall>v \<in> set (name # visited). \<forall>p. (v, p) \<in> ?R \<longrightarrow> p \<in> set (name # visited) \<union> set ?stack"
        unfolding new using "2.prems"(1) by auto
      ultimately show ?thesis
        using "2.IH"(2)[OF fresh False] "2.prems"(2-4) False unfolding reach
        by (simp add: set_fold_bset_insert sorted_fold_bset_insert Un_commute)
    qed
  qed
qed

definition reaches_all :: "role_entry list \<Rightarrow> string \<Rightarrow> bool" where
  "reaches_all roles name \<longleftrightarrow> (\<exists>a \<in> set roles. (name, re_name a) \<in> (inherits_rel roles)\<^sup>* \<and> re_grants a = All)"

lemma role_closure_spec:
  assumes "distinct (map re_name roles)"
  shows "reaches_all roles (re_name r) \<Longrightarrow> role_closure ap roles r = ap"
    and "\<not> reaches_all roles (re_name r) \<Longrightarrow> strictly_sorted (role_closure ap roles r) \<and>
      set (role_closure ap roles r) = {p \<in> set ap. \<exists>a \<in> set roles. (re_name r, re_name a) \<in> (inherits_rel roles)\<^sup>* \<and>
        (\<exists>l. re_grants a = Explicit l \<and> p \<in> set l)}"
proof -
  let ?gm = "bmap_of (map (\<lambda>r. (re_name r, re_grants r)) roles)" and ?pm = "role_parent roles"
  obtain acc bail where w: "closure_walk ?gm ap ?pm [] [re_name r] [] = (acc, bail)" by force
  have R: "parent_rel ?pm = inherits_rel roles" using assms by (rule parent_rel_roles)
  have look: "map_of ?gm x = Some g \<longleftrightarrow> (\<exists>a \<in> set roles. x = re_name a \<and> g = re_grants a)" for x g
    using lookup_role_map[OF assms, of _ re_grants] by (auto elim: lookup_role_map_D)
  note spec = closure_walk_spec[OF _ _ _ _ w, simplified, unfolded R]
  have bail: "bail \<longleftrightarrow> reaches_all roles (re_name r)"
    using spec[THEN conjunct1] unfolding look reaches_all_def by (metis (no_types, lifting) Image_singleton_iff)
  have rc: "role_closure ap roles r = (if bail then ap else acc)"
    by (simp only: role_closure_def w prod.case)
  show "reaches_all roles (re_name r) \<Longrightarrow> role_closure ap roles r = ap"
    using bail by (simp add: rc)
  have own: "p \<in> set (own_grants ?gm ap x) \<longleftrightarrow>
      p \<in> set ap \<and> (\<exists>a \<in> set roles. x = re_name a \<and> (\<exists>l. re_grants a = Explicit l \<and> p \<in> set l))" for p x
    using look[of x] unfolding own_grants_def by (auto split: option.splits RoleGrants.splits) metis+
  assume "\<not> reaches_all roles (re_name r)"
  with bail have "\<not> bail" by simp
  with spec have acc: "strictly_sorted acc" "set acc = (\<Union>x \<in> (inherits_rel roles)\<^sup>* `` {re_name r}. set (own_grants ?gm ap x))"
    by simp_all
  show "strictly_sorted (role_closure ap roles r) \<and>
      set (role_closure ap roles r) = {p \<in> set ap. \<exists>a \<in> set roles. (re_name r, re_name a) \<in> (inherits_rel roles)\<^sup>* \<and>
        (\<exists>l. re_grants a = Explicit l \<and> p \<in> set l)}"
  proof (intro conjI set_eqI iffI)
    show "strictly_sorted (role_closure ap roles r)" using acc \<open>\<not> bail\<close> by (simp add: rc)
  qed (use \<open>\<not> bail\<close> in \<open>auto simp: rc acc own\<close>)
qed

section \<open>The catalog against its package\<close>

lemma permission_pass_names:
  "permission_pass seen ps = (entries, issues) \<Longrightarrow>
   distinct (map pe_name entries) \<and> set (map pe_name entries) = pd_name ` set ps - set seen"
proof (induction ps arbitrary: seen entries issues)
  case (Cons p ps)
  show ?case
  proof (cases "pd_name p \<in> set seen")
    case True
    then obtain is' where "permission_pass seen ps = (entries, is')" using Cons.prems by (auto split: prod.splits)
    from Cons.IH[OF this] True show ?thesis by auto
  next
    case False
    obtain es is' where es: "permission_pass (pd_name p # seen) ps = (es, is')" by force
    with False Cons.prems have "map pe_name entries = pd_name p # map pe_name es" by (auto split: prod.splits)
    with Cons.IH[OF es] False show ?thesis by (auto simp del: set_map)
  qed
qed simp

lemma permission_pass_codes:
  "permission_pass seen ps = (entries, issues) \<Longrightarrow> i \<in> set issues \<Longrightarrow> ri_code i = ''RBAC-PERM-DUPLICATE-001''"
  by (induction ps arbitrary: seen entries issues) (auto split: if_splits prod.splits)

lemma role_pass_names:
  "role_pass pn seen rs = (entries, issues) \<Longrightarrow>
   distinct (map re_name entries) \<and> set (map re_name entries) = rd_name ` set rs - set seen"
proof (induction rs arbitrary: seen entries issues)
  case (Cons p rs)
  show ?case
  proof (cases "rd_name p \<in> set seen")
    case True
    then obtain is' where "role_pass pn seen rs = (entries, is')" using Cons.prems by (auto split: prod.splits)
    from Cons.IH[OF this] True show ?thesis by auto
  next
    case False
    obtain es is' where es: "role_pass pn (rd_name p # seen) rs = (es, is')" by force
    with False Cons.prems have "map re_name entries = rd_name p # map re_name es" by (auto split: prod.splits)
    with Cons.IH[OF es] False show ?thesis by (auto simp del: set_map)
  qed
qed simp

lemma role_pass_codes:
  "role_pass pn seen rs = (entries, issues) \<Longrightarrow> i \<in> set issues \<Longrightarrow>
   ri_code i \<in> {''RBAC-ROLE-DUPLICATE-001'', ''RBAC-PERM-UNKNOWN-001''}"
  by (induction rs arbitrary: seen entries issues)
    (auto simp: unknown_grants_def split: if_splits prod.splits RoleGrantsAst.splits)

lemma role_pass_clean:
  "role_pass pn seen rs = (entries, []) \<Longrightarrow> r \<in> set entries \<Longrightarrow> re_grants r = Explicit l \<Longrightarrow> set l \<subseteq> set pn"
proof (induction rs arbitrary: seen entries)
  case (Cons d rs)
  then obtain entries' where e: "role_pass pn (rd_name d # seen) rs = (entries', [])" "unknown_grants pn d = []"
      "entries = \<lparr>re_name = rd_name d, re_inherits = rd_inherits d, re_grants = lower_grants (rd_grants d),
             re_closure = [], re_span_ref = Some (span_pair (rd_span d))\<rparr> # entries'"
    by (auto split: if_splits prod.splits)
  show ?case
  proof (cases "r \<in> set entries'")
    case True
    with Cons.IH[OF e(1)] Cons.prems(3) show ?thesis by blast
  next
    case False
    with e(3) Cons.prems have "lower_grants (rd_grants d) = Explicit l" by auto
    with e(2) show ?thesis
      by (cases "rd_grants d") (auto simp: unknown_grants_def filter_empty_conv)
  qed
qed simp

lemma role_pass_parents:
  "role_pass pn seen rs = (entries, issues) \<Longrightarrow> r \<in> set entries \<Longrightarrow>
   \<exists>d \<in> set rs. rd_name d = re_name r \<and> rd_inherits d = re_inherits r \<and> lower_grants (rd_grants d) = re_grants r"
  by (induction rs arbitrary: seen entries issues) (fastforce split: if_splits prod.splits)+

lemma inherits_rel_alt:
  "inherits_rel roles = {(a, b). (a, Some b) \<in> set (map (\<lambda>r. (re_name r, re_inherits r)) roles)}"
  unfolding inherits_rel_def by (auto simp: image_iff)

lemma analyze_unfold:
  assumes "analyze_rbac_catalog pkg = (Some cat, issues)"
  obtains entries issues1 issues2 where
    "permission_pass [] (ps_permissions pkg) = (rc_permissions cat, issues1)"
    "role_pass (map pe_name (rc_permissions cat)) [] (ps_roles pkg) = (entries, issues2)"
    "rc_roles cat = map (\<lambda>r. r\<lparr>re_closure := role_closure (map pe_name (rc_permissions cat)) entries r\<rparr>) entries"
    "issues = issues1 @ issues2 @ inherit_pass (map re_name entries) (ps_roles pkg) @
       cycle_pass (role_parent entries) [] entries @ unused_pass (rc_permissions cat) (rc_roles cat)"
    "distinct (map re_name entries)" "distinct (map pe_name (rc_permissions cat))"
    "inherits_rel (rc_roles cat) = inherits_rel entries"
proof -
  from assms obtain entries issues1 issues2 where *:
    "permission_pass [] (ps_permissions pkg) = (rc_permissions cat, issues1)"
    "role_pass (map pe_name (rc_permissions cat)) [] (ps_roles pkg) = (entries, issues2)"
    "rc_roles cat = map (\<lambda>r. r\<lparr>re_closure := role_closure (map pe_name (rc_permissions cat)) entries r\<rparr>) entries"
    "issues = issues1 @ issues2 @ inherit_pass (map re_name entries) (ps_roles pkg) @
       cycle_pass (role_parent entries) [] entries @ unused_pass (rc_permissions cat) (rc_roles cat)"
    by (auto simp: analyze_rbac_catalog_def Let_def split: if_splits prod.splits)
  moreover have "distinct (map re_name entries)" "distinct (map pe_name (rc_permissions cat))"
    using role_pass_names[OF *(2)] permission_pass_names[OF *(1)] by simp_all
  moreover have "inherits_rel (rc_roles cat) = inherits_rel entries"
    unfolding inherits_rel_alt *(3) by (simp add: comp_def)
  ultimately show thesis by (rule that)
qed

definition chain_grants :: "rbac_catalog \<Rightarrow> string \<Rightarrow> string \<Rightarrow> bool" where
  "chain_grants cat role perm \<longleftrightarrow> perm \<in> pe_name ` set (rc_permissions cat) \<and>
     (\<exists>a \<in> set (rc_roles cat). (role, re_name a) \<in> (inherits_rel (rc_roles cat))\<^sup>* \<and>
        (re_grants a = All \<or> (\<exists>l. re_grants a = Explicit l \<and> perm \<in> set l)))"

lemma closure_chain_grants:
  assumes "analyze_rbac_catalog pkg = (Some cat, issues)" "r \<in> set (rc_roles cat)"
  shows "perm \<in> set (re_closure r) \<longleftrightarrow> chain_grants cat (re_name r) perm"
    "strictly_sorted (re_closure r) \<or> re_closure r = map pe_name (rc_permissions cat)"
proof -
  let ?ap = "map pe_name (rc_permissions cat)"
  from assms(1) obtain entries issues1 issues2 where roles:
      "rc_roles cat = map (\<lambda>r. r\<lparr>re_closure := role_closure ?ap entries r\<rparr>) entries"
      and d: "distinct (map re_name entries)" and R: "inherits_rel (rc_roles cat) = inherits_rel entries"
    by (rule analyze_unfold)
  obtain e where e: "e \<in> set entries" "r = e\<lparr>re_closure := role_closure ?ap entries e\<rparr>"
    using assms(2) by (auto simp: roles)
  have ex: "(\<exists>a \<in> set (rc_roles cat). (x, re_name a) \<in> (inherits_rel (rc_roles cat))\<^sup>* \<and> P (re_grants a)) \<longleftrightarrow>
      (\<exists>a \<in> set entries. (x, re_name a) \<in> (inherits_rel entries)\<^sup>* \<and> P (re_grants a))" for x P
    unfolding R by (simp add: roles)
  note spec = role_closure_spec[OF d, of e ?ap]
  show "perm \<in> set (re_closure r) \<longleftrightarrow> chain_grants cat (re_name r) perm"
    unfolding chain_grants_def ex[of _ "\<lambda>g. g = All \<or> (\<exists>l. g = Explicit l \<and> perm \<in> set l)"]
    using spec e(2) by (cases "reaches_all entries (re_name e)") (auto simp: reaches_all_def)
  show "strictly_sorted (re_closure r) \<or> re_closure r = ?ap"
    using spec e(2) by (cases "reaches_all entries (re_name e)") auto
qed


lemma chain_grants_inherit:
  "chain_grants cat b perm \<Longrightarrow> (a, b) \<in> inherits_rel (rc_roles cat) \<Longrightarrow> chain_grants cat a perm"
  unfolding chain_grants_def by (meson converse_rtrancl_into_rtrancl)

lemma inherit_pass_codes: "i \<in> set (inherit_pass names rs) \<Longrightarrow> ri_code i = ''RBAC-ROLE-INHERIT-UNKNOWN-001''"
  by (auto simp: inherit_pass_def split: option.splits if_splits)

lemma unused_pass_codes: "i \<in> set (unused_pass perms roles) \<Longrightarrow> ri_code i = ''RBAC-PERM-UNUSED-001''"
  by (auto simp: unused_pass_def Let_def split: if_splits)

lemma inherit_pass_clean:
  "inherit_pass names rs = [] \<Longrightarrow> d \<in> set rs \<Longrightarrow> rd_inherits d = Some p \<Longrightarrow> p \<in> set names"
  by (fastforce simp: inherit_pass_def split: option.splits if_splits)

lemma unused_pass_clean:
  "unused_pass perms roles = [] \<Longrightarrow> p \<in> set perms \<Longrightarrow>
   (\<exists>r \<in> set roles. re_grants r = All) \<or> (\<exists>r \<in> set roles. pe_name p \<in> set (re_closure r))"
  by (auto simp: unused_pass_def Let_def filter_empty_conv list_ex_iff split: if_splits)

section \<open>Properties\<close>

text \<open>
  C12. The permission closure of a role is exact: it holds a permission exactly when the permission is
  declared and some role on the inheritance chain of the role (itself included) grants it, by name or
  with \<^verbatim>\<open>grants_all\<close>. This also holds where the chain is cyclic or leaves the catalog.
\<close>

theorem rbac_closure_exact:
  assumes "analyze_rbac_catalog pkg = (Some cat, issues)" "r \<in> set (rc_roles cat)"
  shows "perm \<in> set (re_closure r) \<longleftrightarrow> chain_grants cat (re_name r) perm"
  using assms by (rule closure_chain_grants)

text \<open>The package of the examples: an administrator inherits from a user, a guest has no grants.\<close>

definition sample_package :: "unit package_skeleton" where
  "sample_package = \<lparr>ps_features = [],
     ps_permissions = [\<lparr>pd_name = ''users:write'', pd_segments = [''users'', ''write''], pd_span = Span 0 22\<rparr>,
       \<lparr>pd_name = ''users:read'', pd_segments = [''users'', ''read''], pd_span = Span 23 44\<rparr>],
     ps_roles = [\<lparr>rd_name = ''admin'', rd_inherits = Some ''user'', rd_grants = GExplicit [''users:write''], rd_span = Span 45 90\<rparr>,
       \<lparr>rd_name = ''user'', rd_inherits = None, rd_grants = GExplicit [''users:read''], rd_span = Span 91 120\<rparr>,
       \<lparr>rd_name = ''root'', rd_inherits = None, rd_grants = GAll, rd_span = Span 121 140\<rparr>]\<rparr>"

definition sample_admin :: role_entry where
  "sample_admin = \<lparr>re_name = ''admin'', re_inherits = Some ''user'', re_grants = Explicit [''users:write''],
     re_closure = [''users:read'', ''users:write''], re_span_ref = Some (45, 90)\<rparr>"

definition sample_user :: role_entry where
  "sample_user = \<lparr>re_name = ''user'', re_inherits = None, re_grants = Explicit [''users:read''],
     re_closure = [''users:read''], re_span_ref = Some (91, 120)\<rparr>"

definition sample_root :: role_entry where
  "sample_root = \<lparr>re_name = ''root'', re_inherits = None, re_grants = All,
     re_closure = [''users:write'', ''users:read''], re_span_ref = Some (121, 140)\<rparr>"

definition sample_catalog :: rbac_catalog where
  "sample_catalog = \<lparr>rc_permissions =
       [\<lparr>pe_name = ''users:write'', pe_segments = [''users'', ''write''], pe_span_ref = Some (0, 22)\<rparr>,
        \<lparr>pe_name = ''users:read'', pe_segments = [''users'', ''read''], pe_span_ref = Some (23, 44)\<rparr>],
     rc_roles = [sample_admin, sample_user, sample_root]\<rparr>"

lemma sample_analyzed: "analyze_rbac_catalog sample_package = (Some sample_catalog, [])"
  by code_simp

theorem rbac_closure_exact_witness: "chain_grants sample_catalog ''admin'' ''users:read''"
proof -
  have "sample_admin \<in> set (rc_roles sample_catalog)" by (simp add: sample_catalog_def)
  from rbac_closure_exact[OF sample_analyzed this, of "''users:read''"]
  show ?thesis by (simp add: sample_admin_def)
qed

text \<open>
  Inheriting never loses a permission: when a role inherits from another role of the catalog, the
  lookup \<^verbatim>\<open>role_grants_permission\<close> answers yes for the heir wherever it does for the parent.
\<close>

lemma role_grants_permission_inherits:
  assumes "analyze_rbac_catalog pkg = (Some cat, issues)"
    "r \<in> set (rc_roles cat)" "re_inherits r = Some parent" "role_grants_permission cat parent perm"
  shows "role_grants_permission cat (re_name r) perm"
proof -
  have exact: "perm \<in> set (re_closure q) \<longleftrightarrow> chain_grants cat (re_name q) perm" if "q \<in> set (rc_roles cat)" for q
    using assms(1) that by (rule closure_chain_grants)
  from assms(4) obtain q where q: "q \<in> set (rc_roles cat)" "re_name q = parent" "perm \<in> set (re_closure q)"
    by (auto simp: role_grants_permission_def split: option.splits dest!: find_SomeD)
  have "(re_name r, parent) \<in> inherits_rel (rc_roles cat)"
    using assms(2,3) by (auto simp: inherits_rel_def)
  with q exact have "chain_grants cat (re_name r) perm" using chain_grants_inherit by metis
  with exact have "\<forall>s \<in> set (rc_roles cat). re_name s = re_name r \<longrightarrow> perm \<in> set (re_closure s)" by simp
  then show ?thesis
    using assms(2) unfolding role_grants_permission_def
    by (cases "find (\<lambda>s. re_name s = re_name r) (rc_roles cat)")
      (auto simp: find_None_iff dest!: find_SomeD)
qed

lemma role_grants_permission_inherits_example:
  "role_grants_permission sample_catalog ''admin'' ''users:read''"
proof -
  have "sample_admin \<in> set (rc_roles sample_catalog)" by (simp add: sample_catalog_def)
  moreover have "re_inherits sample_admin = Some ''user''" by (simp add: sample_admin_def)
  moreover have "role_grants_permission sample_catalog ''user'' ''users:read''" by code_simp
  ultimately show ?thesis
    using role_grants_permission_inherits[OF sample_analyzed, of sample_admin "''user''" "''users:read''"]
    by (simp add: sample_admin_def)
qed

text \<open>
  C14. Cycle detection is sound and complete: the pass reports \<^verbatim>\<open>RBAC-CYCLE-001\<close> exactly when the
  inheritance relation of the catalog has a cycle.
\<close>

theorem rbac_cycle_reported_iff:
  assumes "analyze_rbac_catalog pkg = (Some cat, issues)"
  shows "(\<exists>i \<in> set issues. ri_code i = ''RBAC-CYCLE-001'') \<longleftrightarrow> \<not> acyclic (inherits_rel (rc_roles cat))"
proof -
  from assms obtain entries issues1 issues2 where u:
    "permission_pass [] (ps_permissions pkg) = (rc_permissions cat, issues1)"
    "role_pass (map pe_name (rc_permissions cat)) [] (ps_roles pkg) = (entries, issues2)"
    "rc_roles cat = map (\<lambda>r. r\<lparr>re_closure := role_closure (map pe_name (rc_permissions cat)) entries r\<rparr>) entries"
    "issues = issues1 @ issues2 @ inherit_pass (map re_name entries) (ps_roles pkg) @
       cycle_pass (role_parent entries) [] entries @ unused_pass (rc_permissions cat) (rc_roles cat)"
    "distinct (map re_name entries)" "distinct (map pe_name (rc_permissions cat))"
    "inherits_rel (rc_roles cat) = inherits_rel entries"
    by (rule analyze_unfold)
  have "(\<exists>i \<in> set issues. ri_code i = ''RBAC-CYCLE-001'') \<longleftrightarrow> cycle_pass (role_parent entries) [] entries \<noteq> []"
  proof -
    have "\<forall>i \<in> set issues1. ri_code i \<noteq> ''RBAC-CYCLE-001''" "\<forall>i \<in> set issues2. ri_code i \<noteq> ''RBAC-CYCLE-001''"
      using permission_pass_codes[OF u(1)] role_pass_codes[OF u(2)] by force+
    moreover have "\<forall>i \<in> set (inherit_pass (map re_name entries) (ps_roles pkg)). ri_code i \<noteq> ''RBAC-CYCLE-001''"
        "\<forall>i \<in> set (unused_pass (rc_permissions cat) (rc_roles cat)). ri_code i \<noteq> ''RBAC-CYCLE-001''"
      using inherit_pass_codes unused_pass_codes by force+
    moreover have "(\<exists>i \<in> set (cycle_pass (role_parent entries) [] entries). ri_code i = ''RBAC-CYCLE-001'') \<longleftrightarrow>
        cycle_pass (role_parent entries) [] entries \<noteq> []"
      using cycle_pass_codes by (metis last_in_set list.set(1) empty_iff)
    ultimately show ?thesis unfolding u(4) set_append by blast
  qed
  then show ?thesis using cycle_pass_iff[OF u(5)] by (simp add: u(7))
qed

theorem rbac_cycle_reported_iff_witness: "acyclic (inherits_rel (rc_roles sample_catalog))"
  using rbac_cycle_reported_iff[OF sample_analyzed] by simp



text \<open>
  The order of a closure: it is strictly sorted, or it is the declaration order of all permissions
  (the roles that reach a \<^verbatim>\<open>grants_all\<close>); in the second case it need not be sorted, as the root role of
  the sample shows.
\<close>

lemma rbac_closure_order:
  "(analyze_rbac_catalog pkg = (Some cat, issues) \<longrightarrow> r \<in> set (rc_roles cat) \<longrightarrow>
      strictly_sorted (re_closure r) \<or> re_closure r = map pe_name (rc_permissions cat)) \<and>
   (sample_root \<in> set (rc_roles sample_catalog) \<and> \<not> strictly_sorted (re_closure sample_root))"
proof -
  have "strictly_sorted (re_closure r) \<or> re_closure r = map pe_name (rc_permissions cat)"
    if "analyze_rbac_catalog pkg = (Some cat, issues)" "r \<in> set (rc_roles cat)"
    using that by (rule closure_chain_grants)
  moreover have "sample_root \<in> set (rc_roles sample_catalog)" by (simp add: sample_catalog_def)
  moreover have "\<not> strictly_sorted (re_closure sample_root)" by code_simp
  ultimately show ?thesis by blast
qed

lemma rbac_closure_order_example:
  "strictly_sorted (re_closure sample_admin) \<or>
   re_closure sample_admin = map pe_name (rc_permissions sample_catalog)"
proof -
  have "sample_admin \<in> set (rc_roles sample_catalog)" by (simp add: sample_catalog_def)
  then show ?thesis
    using rbac_closure_order[of sample_package sample_catalog "[]" sample_admin] sample_analyzed by blast
qed

text \<open>
  One inheritance cycle may be reported more than once: two roles that inherit from each other
  give two findings, because the key that is meant to identify the cycle also counts the entry point
  twice and so differs with the role the walk starts from.
\<close>

lemma rbac_two_cycle_reported_twice:
  assumes "x < y" and "CHR '','' \<notin> set x" and "CHR '','' \<notin> set y"
    and "roles = [\<lparr>re_name = x, re_inherits = Some y, re_grants = InheritedOnly, re_closure = [], re_span_ref = sx\<rparr>,
                  \<lparr>re_name = y, re_inherits = Some x, re_grants = InheritedOnly, re_closure = [], re_span_ref = sy\<rparr>]"
  shows "map ri_code (cycle_pass (role_parent roles) [] roles) = [''RBAC-CYCLE-001'', ''RBAC-CYCLE-001'']"
proof -
  have pm: "parent_of (role_parent roles) x = Some y" "parent_of (role_parent roles) y = Some x"
    using assms(1) by (simp_all add: assms(4) role_parent_def parent_of_def bmap_of_def)
  have ne: "x \<noteq> y" "y \<noteq> x" using assms(1) by auto
  have wx: "cycle_walk (role_parent roles) [] (Some x) = Some ([x, y], x)"
    and wy: "cycle_walk (role_parent roles) [] (Some y) = Some ([y, x], y)"
    using ne by (simp_all add: pm)
  have "sort [x, y, x] = [x, x, y]" "sort [y, x, y] = [x, y, y]" using assms(1) by auto
  moreover have "join '','' [x, x, y] \<noteq> join '','' [x, y, y]"
  proof
    assume "join '','' [x, x, y] = join '','' [x, y, y]"
    then have "split_on CHR '','' (join '','' [x, x, y]) = split_on CHR '','' (join '','' [x, y, y])" by simp
    then show False using assms(2,3) ne split_on_join[of "[x, x, y]" "CHR '',''"] split_on_join[of "[x, y, y]" "CHR '',''"]
      by simp
  qed
  ultimately show ?thesis
    unfolding assms(4) using wx wy[unfolded assms(4)] wx[unfolded assms(4)] by (simp add: Let_def)
qed

lemma rbac_two_cycle_reported_twice_example:
  "map ri_code (cycle_pass (role_parent
      [\<lparr>re_name = ''a'', re_inherits = Some ''b'', re_grants = InheritedOnly, re_closure = [], re_span_ref = None\<rparr>,
       \<lparr>re_name = ''b'', re_inherits = Some ''a'', re_grants = InheritedOnly, re_closure = [], re_span_ref = None\<rparr>]) []
      [\<lparr>re_name = ''a'', re_inherits = Some ''b'', re_grants = InheritedOnly, re_closure = [], re_span_ref = None\<rparr>,
       \<lparr>re_name = ''b'', re_inherits = Some ''a'', re_grants = InheritedOnly, re_closure = [], re_span_ref = None\<rparr>]) =
   [''RBAC-CYCLE-001'', ''RBAC-CYCLE-001'']"
proof -
  have "''a'' < (''b'' :: string)" by code_simp
  then show ?thesis
    using rbac_two_cycle_reported_twice[of "''a''" "''b''" _ None None] by simp
qed

end
