(* ===== verification/Lifecycle_Syntax.thy ===== *)
theory Lifecycle_Syntax
  imports Source_Text
begin

text \<open>
  The resource-scoped \<^verbatim>\<open>lifecycle\<close> block (\<^verbatim>\<open>lazuli_syntax/src/parser/lzi/lifecycle.rs\<close>, AST of
  \<^verbatim>\<open>types.rs\<close>): states, transitions with their clauses and inline tests, invariants of the closed
  catalog. The mutable locals of each Rust loop are a record threaded through the loop.

  Shown here: the nested blocks advance and stay inside the file; an accepted block is well formed (at
  least two states, at least one transition, every transition with a source and one target); a clause
  that may be written once keeps its first value.
\<close>

section \<open>Syntax\<close>

datatype LifecycleInvariantForm =
    TerminalImmutable
  | SingleStatePerScope string string
  | NoJumpMoreThanOne

record lifecycle_state =
  ls_name :: string
  ls_kind_keyword :: "string option"
  ls_span :: span

record lifecycle_transition =
  lt_name :: string
  lt_from :: "string list"
  lt_to :: string
  lt_policy :: "string option"
  lt_audit :: "string option"
  lt_timestamps :: "string option"
  lt_emits :: "string list"
  lt_requires :: "string option"
  lt_tests :: "string list"
  lt_previously :: "string list"
  lt_span :: span

record lifecycle_invariant =
  li_form :: LifecycleInvariantForm
  li_span :: span

record lifecycle_block =
  lb_discriminator_field :: string
  lb_states :: "lifecycle_state list"
  lb_transitions :: "lifecycle_transition list"
  lb_invariants :: "lifecycle_invariant list"
  lb_invariant_handlers :: "string list"
  lb_span :: span

section \<open>Single lines\<close>

fun invariant_form_to_ast :: "InvariantForm \<Rightarrow> LifecycleInvariantForm" where
  "invariant_form_to_ast IF_TerminalImmutable = TerminalImmutable"
| "invariant_form_to_ast IF_NoJumpMoreThanOne = NoJumpMoreThanOne"
| "invariant_form_to_ast (IF_SingleStatePerScope state scope_field) = SingleStatePerScope state scope_field"

definition ensure_lifecycle_once :: "source_line \<Rightarrow> string \<Rightarrow> bool \<Rightarrow> (ParseError, unit) result" where
  "ensure_lifecycle_once line keyword already_seen =
     (if already_seen then
        Err (line_error_owned line (''transition declares `'' @ keyword @ ''` at most once''))
      else Ok ())"

definition parse_lifecycle_single_identifier :: "source_line \<Rightarrow> string \<Rightarrow> string \<Rightarrow> (ParseError, string) result" where
  "parse_lifecycle_single_identifier line keyword rest =
     (case split_whitespace rest of
        [] \<Rightarrow> Err (line_error_owned line (keyword @ '' requires exactly one identifier''))
      | [value] \<Rightarrow> Ok value
      | _ \<Rightarrow> Err (line_error_owned line (keyword @ '' requires exactly one identifier'')))"

definition parse_lifecycle_state ::
  "source_line \<Rightarrow> string \<Rightarrow> (ParseError, (string \<times> string option) \<times> span) result" where
  "parse_lifecycle_state line rest =
     (case split_whitespace rest of
        [] \<Rightarrow> Err (line_error line ''`state` requires a name'')
      | name # parts \<Rightarrow>
          try_bind
            (case parts of
               [] \<Rightarrow> Ok (None, [])
             | k # parts1 \<Rightarrow>
                 if k = ''initial'' \<or> k = ''terminal'' then Ok (Some k, parts1)
                 else Err (line_error_owned line
                   (''`state` modifier must be `initial` or `terminal`, got `'' @ k @ ''`'')))
            (\<lambda>(kind_keyword, parts2).
              if parts2 \<noteq> [] then Err (line_error line ''`state` accepts at most one modifier (initial | terminal)'')
              else Ok ((name, kind_keyword), Span (sl_start line) (sl_end line))))"

section \<open>Transitions\<close>

record transition_locals =
  tl_from :: "string list"
  tl_to :: "string option"
  tl_policy :: "string option"
  tl_audit :: "string option"
  tl_timestamps :: "string option"
  tl_emits :: "string list"
  tl_requires :: "string option"
  tl_tests :: "string list"
  tl_tests_seen :: bool
  tl_previously :: "string list"
  tl_last_end :: nat

definition transition_init :: "source_line \<Rightarrow> transition_locals" where
  "transition_init header = \<lparr>tl_from = [], tl_to = None, tl_policy = None, tl_audit = None,
     tl_timestamps = None, tl_emits = [], tl_requires = None, tl_tests = [], tl_tests_seen = False,
     tl_previously = [], tl_last_end = sl_end header\<rparr>"

text \<open>One child line of a transition: the chain of \<^verbatim>\<open>strip_prefix\<close> tests of the loop body, up to the
  inner loop that \<^verbatim>\<open>tests\<close> starts.\<close>

definition transition_clause ::
  "source_line \<Rightarrow> string \<Rightarrow> transition_locals \<Rightarrow> (ParseError, transition_locals) result" where
  "transition_clause line trimmed st =
     (case strip_prefix ''from '' trimmed of
        Some rest \<Rightarrow>
          let states = split_lzx_list rest in
          if states = [] then Err (line_error line ''`from` requires at least one state'')
          else Ok (st\<lparr>tl_from := tl_from st @ states, tl_last_end := sl_end line\<rparr>)
      | None \<Rightarrow>
     (case strip_prefix ''to '' trimmed of
        Some rest \<Rightarrow>
          try_bind (ensure_lifecycle_once line ''to'' (tl_to st \<noteq> None)) (\<lambda>_.
          try_bind (parse_lifecycle_single_identifier line ''`to`'' rest) (\<lambda>target.
          Ok (st\<lparr>tl_to := Some target, tl_last_end := sl_end line\<rparr>)))
      | None \<Rightarrow>
     (case strip_prefix ''policy '' trimmed of
        Some rest \<Rightarrow>
          try_bind (ensure_lifecycle_once line ''policy'' (tl_policy st \<noteq> None)) (\<lambda>_.
          Ok (st\<lparr>tl_policy := Some (trim rest), tl_last_end := sl_end line\<rparr>))
      | None \<Rightarrow>
     (case strip_prefix ''audit '' trimmed of
        Some rest \<Rightarrow>
          try_bind (ensure_lifecycle_once line ''audit'' (tl_audit st \<noteq> None)) (\<lambda>_.
          Ok (st\<lparr>tl_audit := Some (''audit '' @ trim rest), tl_last_end := sl_end line\<rparr>))
      | None \<Rightarrow>
     (case strip_prefix ''timestamps '' trimmed of
        Some rest \<Rightarrow>
          try_bind (ensure_lifecycle_once line ''timestamps'' (tl_timestamps st \<noteq> None)) (\<lambda>_.
          try_bind (parse_lifecycle_single_identifier line ''`timestamps`'' rest) (\<lambda>field.
          Ok (st\<lparr>tl_timestamps := Some field, tl_last_end := sl_end line\<rparr>)))
      | None \<Rightarrow>
     (case strip_prefix ''emits '' trimmed of
        Some rest \<Rightarrow>
          let names = filter (\<lambda>s. s \<noteq> []) (map trim (split_on CHR '','' rest)) in
          if names = [] then Err (line_error line ''`emits` requires an event name'')
          else Ok (st\<lparr>tl_emits := tl_emits st @ names, tl_last_end := sl_end line\<rparr>)
      | None \<Rightarrow>
     (case strip_prefix ''requires '' trimmed of
        Some rest \<Rightarrow>
          try_bind (ensure_lifecycle_once line ''requires'' (tl_requires st \<noteq> None)) (\<lambda>_.
          Ok (st\<lparr>tl_requires := Some (trim rest), tl_last_end := sl_end line\<rparr>))
      | None \<Rightarrow>
      if trimmed = ''tests'' then
        try_bind (ensure_lifecycle_once line ''tests'' (tl_tests_seen st)) (\<lambda>_.
        Ok (st\<lparr>tl_tests_seen := True, tl_last_end := sl_end line\<rparr>))
      else
     (case strip_prefix ''previously '' trimmed of
        Some rest \<Rightarrow> Ok (st\<lparr>tl_previously := tl_previously st @ [trim rest], tl_last_end := sl_end line\<rparr>)
      | None \<Rightarrow> Err (line_error line
          ''transition children are `from`, `to`, `policy`, `audit`, `timestamps`, `emits`, `requires`, `tests`, or `previously`'')))))))))"

function tests_loop ::
  "nat \<Rightarrow> source_line list \<Rightarrow> nat \<Rightarrow> transition_locals \<Rightarrow> (ParseError, transition_locals \<times> nat) result" where
  "tests_loop child_indent ls i st =
     (if i < length ls then
        let test_line = ls ! i; test_trimmed = trim_start (sl_text test_line) in
        if is_trivia test_trimmed then tests_loop child_indent ls (i + 1) st
        else if sl_indent test_line \<le> child_indent then Ok (st, i)
        else if sl_indent test_line \<noteq> child_indent + 2 then Err (line_error test_line
          ''`tests` children use one indentation level deeper than the `tests` header'')
        else tests_loop child_indent ls (i + 1)
          (st\<lparr>tl_tests := tl_tests st @ [test_trimmed], tl_last_end := sl_end test_line\<rparr>)
      else Ok (st, i))"
  by pat_completeness auto
termination by (relation "measure (\<lambda>(c, ls, i, st). length ls - i)") auto

declare tests_loop.simps [simp del]

lemma tests_loop_bounds:
  "tests_loop c ls i st = Ok (st', n) \<Longrightarrow> i \<le> n \<and> (i \<le> length ls \<longrightarrow> n \<le> length ls)"
proof (induction i arbitrary: st rule: index_induct[where n = "length ls"])
  case (step i)
  show ?case
  proof (cases "i < length ls")
    case True
    note IH = step.IH[OF this, of "Suc i", simplified]
    from step.prems True show ?thesis
      by (subst (asm) tests_loop.simps) (auto simp: Let_def split: if_splits dest!: IH)
  next
    case False
    with step.prems show ?thesis by (subst (asm) tests_loop.simps) auto
  qed
qed

function transition_loop ::
  "nat \<Rightarrow> nat \<Rightarrow> source_line list \<Rightarrow> nat \<Rightarrow> transition_locals \<Rightarrow> (ParseError, transition_locals \<times> nat) result" where
  "transition_loop block_indent child_indent ls i st =
     (if i < length ls then
        let line = ls ! i; trimmed = trim_start (sl_text line) in
        if is_trivia trimmed then transition_loop block_indent child_indent ls (i + 1) st
        else if sl_indent line \<le> block_indent then Ok (st, i)
        else if sl_indent line \<noteq> child_indent then Err (line_error line
          ''transition children use one indentation level deeper than the `transition` header'')
        else try_bind (transition_clause line trimmed st) (\<lambda>st1.
          if trimmed = ''tests'' then
            try_bind (tests_loop child_indent ls (i + 1) st1) (\<lambda>(st2, next').
              transition_loop block_indent child_indent ls next' st2)
          else transition_loop block_indent child_indent ls (i + 1) st1)
      else Ok (st, i))"
  by pat_completeness auto
termination
  by (relation "measure (\<lambda>(b, c, ls, i, st). length ls - i)") (auto dest: tests_loop_bounds)

declare transition_loop.simps [simp del]

definition parse_lifecycle_transition ::
  "source_line list \<Rightarrow> nat \<Rightarrow> string \<Rightarrow> nat \<Rightarrow> (ParseError, lifecycle_transition \<times> nat) result" where
  "parse_lifecycle_transition ls start name child_indent =
     (let header = ls ! start in
      try_bind (transition_loop (sl_indent header) child_indent ls (start + 1) (transition_init header))
        (\<lambda>(st, i).
          if tl_from st = [] then Err (line_error header ''`transition` requires at least one `from`'')
          else case tl_to st of
            None \<Rightarrow> Err (line_error header ''`transition` requires `to <state>`'')
          | Some to' \<Rightarrow>
              Ok (\<lparr>lt_name = name, lt_from = tl_from st, lt_to = to', lt_policy = tl_policy st,
                   lt_audit = tl_audit st, lt_timestamps = tl_timestamps st, lt_emits = tl_emits st,
                   lt_requires = tl_requires st, lt_tests = tl_tests st, lt_previously = tl_previously st,
                   lt_span = Span (sl_start header) (tl_last_end st)\<rparr>, i)))"

lemma transition_loop_bounds:
  "transition_loop b c ls i st = Ok (st', n) \<Longrightarrow> i \<le> n \<and> (i \<le> length ls \<longrightarrow> n \<le> length ls)"
proof (induction i arbitrary: c st rule: index_induct[where n = "length ls"])
  case (step i)
  show ?case
  proof (cases "i < length ls")
    case True
    note IH = step.IH[OF this]
    from step.prems True show ?thesis
      by (subst (asm) transition_loop.simps)
        (auto simp: Let_def split: if_splits dest!: IH[rotated] tests_loop_bounds)
  next
    case False
    with step.prems show ?thesis by (subst (asm) transition_loop.simps) auto
  qed
qed

lemma transition_bounds:
  "parse_lifecycle_transition ls start name c = Ok (t, n) \<Longrightarrow>
   start < n \<and> (start < length ls \<longrightarrow> n \<le> length ls)"
  by (auto simp: parse_lifecycle_transition_def Let_def dest!: transition_loop_bounds split: if_splits option.splits)

interpretation transition_parser: block_parser "\<lambda>ls start. parse_lifecycle_transition ls start name child_indent"
  by unfold_locales (auto dest: transition_bounds)


section \<open>The lifecycle block\<close>

record lifecycle_locals =
  ll_states :: "lifecycle_state list"
  ll_transitions :: "lifecycle_transition list"
  ll_invariants :: "lifecycle_invariant list"
  ll_invariant_handlers :: "string list"
  ll_last_end :: nat

function lifecycle_loop ::
  "nat \<Rightarrow> source_line list \<Rightarrow> nat \<Rightarrow> lifecycle_locals \<Rightarrow> (ParseError, lifecycle_locals \<times> nat) result" where
  "lifecycle_loop block_indent ls i st =
     (if i < length ls then
        let line = ls ! i; trimmed = trim_start (sl_text line) in
        if is_trivia trimmed then lifecycle_loop block_indent ls (i + 1) st
        else if sl_indent line \<le> block_indent then Ok (st, i)
        else if sl_indent line \<noteq> block_indent + 2 then Err (line_error line
          ''lifecycle children use one indentation level deeper than the `lifecycle` header'')
        else (case strip_prefix ''state '' trimmed of
          Some rest \<Rightarrow>
            try_bind (parse_lifecycle_state line rest) (\<lambda>((name, kind_keyword), span').
            lifecycle_loop block_indent ls (i + 1)
              (st\<lparr>ll_states := ll_states st @ [\<lparr>ls_name = name, ls_kind_keyword = kind_keyword, ls_span = span'\<rparr>],
                  ll_last_end := sl_end line\<rparr>))
        | None \<Rightarrow> (case strip_prefix ''transition '' trimmed of
          Some rest \<Rightarrow>
            let transition_name = trim rest in
            if transition_name = [] then Err (line_error line ''`transition` requires a name'')
            else try_bind (parse_lifecycle_transition ls i transition_name (block_indent + 4)) (\<lambda>(t, next').
            lifecycle_loop block_indent ls next'
              (st\<lparr>ll_transitions := ll_transitions st @ [t], ll_last_end := sl_end (ls ! max (next' - 1) i)\<rparr>))
        | None \<Rightarrow> (case strip_prefix ''invariant_handler '' trimmed of
          Some rest \<Rightarrow>
            lifecycle_loop block_indent ls (i + 1)
              (st\<lparr>ll_invariant_handlers := ll_invariant_handlers st @ [trim rest], ll_last_end := sl_end line\<rparr>)
        | None \<Rightarrow> (case strip_prefix ''invariant '' trimmed of
          Some rest \<Rightarrow>
            try_bind (parse_invariant_form line (trim rest)) (\<lambda>form.
            lifecycle_loop block_indent ls (i + 1)
              (st\<lparr>ll_invariants := ll_invariants st @
                    [\<lparr>li_form = invariant_form_to_ast form, li_span = Span (sl_start line) (sl_end line)\<rparr>],
                  ll_last_end := sl_end line\<rparr>))
        | None \<Rightarrow> Err (line_error line
            ''lifecycle children are `state`, `transition`, `invariant`, `invariant_handler`'')))))
      else Ok (st, i))"
  by pat_completeness auto
termination
  by (relation "measure (\<lambda>(b, ls, i, st). length ls - i)") (auto dest: transition_bounds)

declare lifecycle_loop.simps [simp del]

definition parse_lifecycle_block :: "source_line list \<Rightarrow> nat \<Rightarrow> (ParseError, lifecycle_block \<times> nat) result" where
  "parse_lifecycle_block ls start =
     (let header = ls ! start;
          rest = (case strip_prefix ''lifecycle '' (trim_start (sl_text header)) of Some r \<Rightarrow> r | None \<Rightarrow> []);
          discriminator_field = trim rest in
      try_bind (lifecycle_loop (sl_indent header) ls (start + 1)
          \<lparr>ll_states = [], ll_transitions = [], ll_invariants = [], ll_invariant_handlers = [], ll_last_end = sl_end header\<rparr>)
        (\<lambda>(st, i).
          if length (ll_states st) < 2 then Err (line_error header
            ''lifecycle requires at least 2 `state` declarations'')
          else if ll_transitions st = [] then Err (line_error header
            ''lifecycle requires at least 1 `transition`'')
          else Ok (\<lparr>lb_discriminator_field = discriminator_field, lb_states = ll_states st,
                   lb_transitions = ll_transitions st, lb_invariants = ll_invariants st,
                   lb_invariant_handlers = ll_invariant_handlers st,
                   lb_span = Span (sl_start header) (ll_last_end st)\<rparr>, i)))"

lemma lifecycle_loop_bounds:
  "lifecycle_loop b ls i st = Ok (st', n) \<Longrightarrow> i \<le> n \<and> (i \<le> length ls \<longrightarrow> n \<le> length ls)"
proof (induction i arbitrary: st rule: index_induct[where n = "length ls"])
  case (step i)
  show ?case
  proof (cases "i < length ls")
    case True
    note IH = step.IH[OF this]
    from step.prems True show ?thesis
      by (subst (asm) lifecycle_loop.simps)
        (auto simp: Let_def split: if_splits option.splits dest!: IH[rotated] transition_bounds)
  next
    case False
    with step.prems show ?thesis by (subst (asm) lifecycle_loop.simps) auto
  qed
qed

lemma lifecycle_block_bounds:
  "parse_lifecycle_block ls start = Ok (b, n) \<Longrightarrow> start < n \<and> (start < length ls \<longrightarrow> n \<le> length ls)"
  by (auto simp: parse_lifecycle_block_def Let_def dest!: lifecycle_loop_bounds split: if_splits)

interpretation lifecycle_parser: block_parser parse_lifecycle_block
  by unfold_locales (auto dest: lifecycle_block_bounds)

section \<open>Clauses keep their first value\<close>

definition kept :: "string option \<Rightarrow> string option \<Rightarrow> bool" where
  "kept a b \<longleftrightarrow> a = None \<or> b = a"

lemma kept_simps [simp]: "kept a a" "kept None b"
  by (simp_all add: kept_def)

definition first_kept :: "transition_locals \<Rightarrow> transition_locals \<Rightarrow> bool" where
  "first_kept st st' \<longleftrightarrow>
     kept (tl_to st) (tl_to st') \<and> kept (tl_policy st) (tl_policy st') \<and> kept (tl_audit st) (tl_audit st') \<and>
     kept (tl_timestamps st) (tl_timestamps st') \<and> kept (tl_requires st) (tl_requires st') \<and>
     prefix (tl_from st) (tl_from st') \<and> prefix (tl_emits st) (tl_emits st') \<and>
     prefix (tl_tests st) (tl_tests st') \<and> prefix (tl_previously st) (tl_previously st')"

lemma first_kept_refl [simp]: "first_kept st st"
  by (simp add: first_kept_def)

lemma first_kept_trans: "first_kept a b \<Longrightarrow> first_kept b c \<Longrightarrow> first_kept a c"
proof -
  have "kept x y \<Longrightarrow> kept y z \<Longrightarrow> kept x z" for x y z by (auto simp: kept_def)
  then show "first_kept a b \<Longrightarrow> first_kept b c \<Longrightarrow> first_kept a c"
    unfolding first_kept_def by (meson prefix_order.trans)
qed

lemma ensure_once_Ok [simp]: "ensure_lifecycle_once line kw seen = Ok u \<longleftrightarrow> \<not> seen"
  by (simp add: ensure_lifecycle_once_def)

lemma transition_clause_kept: "transition_clause line tx st = Ok st' \<Longrightarrow> first_kept st st'"
  unfolding transition_clause_def
  by (auto simp: first_kept_def Let_def split: option.splits if_splits)

lemma tests_loop_kept: "tests_loop c ls i st = Ok (st', n) \<Longrightarrow> first_kept st st'"
proof (induction i arbitrary: st rule: index_induct[where n = "length ls"])
  case (step i)
  have add: "first_kept st (st\<lparr>tl_tests := tl_tests st @ [x], tl_last_end := e\<rparr>)" for x e
    by (simp add: first_kept_def)
  from step.prems show ?case
    by (subst (asm) tests_loop.simps)
      (auto simp: Let_def split: if_splits dest: step.IH[of "Suc i", simplified, rotated] intro: first_kept_trans[OF add])
qed

lemma transition_loop_kept: "transition_loop b c ls i st = Ok (st', n) \<Longrightarrow> first_kept st st'"
proof (induction i arbitrary: c st rule: index_induct[where n = "length ls"])
  case (step i)
  have IH: "first_kept st st'"
    if "first_kept st x" "transition_loop b d ls j x = Ok (st', n)" "i < length ls" "i < j" for d j x
    using step.IH[OF that(3,4,2)] that(1) first_kept_trans by blast
  have clause: "first_kept st st'"
    if "transition_clause line tx st = Ok x" "transition_loop b d ls (Suc i) x = Ok (st', n)" "i < length ls"
    for line tx x d
    using IH[OF transition_clause_kept[OF that(1)] that(2,3)] by simp
  have tests: "first_kept st st'"
    if "transition_clause line tx st = Ok x" "tests_loop e ls (Suc i) x = Ok (y, j)"
      "transition_loop b d ls j y = Ok (st', n)" "i < length ls" for line tx x e y j d
    using IH[OF first_kept_trans[OF transition_clause_kept[OF that(1)] tests_loop_kept[OF that(2)]] that(3,4)]
      tests_loop_bounds[OF that(2)] by simp
  from step.prems IH[OF first_kept_refl, of c "Suc i"] show ?case
    by (subst (asm) transition_loop.simps)
      (auto simp: Let_def split: if_splits dest: clause tests)
qed

section \<open>Accepted blocks are well formed\<close>

definition wf_transition :: "lifecycle_transition \<Rightarrow> bool" where
  "wf_transition t \<longleftrightarrow> lt_name t \<noteq> [] \<and> lt_from t \<noteq> [] \<and> list_all (\<lambda>s. s \<noteq> [] \<and> trim s = s) (lt_from t) \<and> lt_to t \<noteq> []"

definition wf_state :: "lifecycle_state \<Rightarrow> bool" where
  "wf_state s \<longleftrightarrow> ls_name s \<noteq> [] \<and> ls_kind_keyword s \<in> {None, Some ''initial'', Some ''terminal''}"

lemma parse_state_wf:
  "parse_lifecycle_state line rest = Ok ((name, kind), sp) \<Longrightarrow>
   wf_state \<lparr>ls_name = name, ls_kind_keyword = kind, ls_span = sp'\<rparr>"
  using split_whitespace_nonempty[of _ rest]
  by (auto simp: parse_lifecycle_state_def wf_state_def split: list.splits if_splits)

lemma single_identifier_nonempty:
  "parse_lifecycle_single_identifier line kw rest = Ok v \<Longrightarrow> v \<noteq> []"
  using split_whitespace_nonempty[of _ rest]
  by (auto simp: parse_lifecycle_single_identifier_def split: list.splits)

definition wf_locals :: "transition_locals \<Rightarrow> bool" where
  "wf_locals st \<longleftrightarrow> list_all (\<lambda>s. s \<noteq> [] \<and> trim s = s) (tl_from st) \<and> tl_to st \<noteq> Some []"

lemma split_lzx_list_wf: "list_all (\<lambda>s. s \<noteq> [] \<and> trim s = s) (split_lzx_list tx)"
  by (auto simp: split_lzx_list_def list_all_iff)

lemma transition_clause_wf: "transition_clause line tx st = Ok st' \<Longrightarrow> wf_locals st \<Longrightarrow> wf_locals st'"
  unfolding transition_clause_def wf_locals_def
  by (auto simp: Let_def split_lzx_list_wf split: option.splits if_splits dest: single_identifier_nonempty)

lemma tests_loop_wf: "tests_loop c ls i st = Ok (st', n) \<Longrightarrow> wf_locals st \<Longrightarrow> wf_locals st'"
proof (induction i arbitrary: st rule: index_induct[where n = "length ls"])
  case (step i)
  have IH: "wf_locals st'" if "tests_loop c ls (Suc i) x = Ok (st', n)" "i < length ls" "wf_locals x" for x
    using step.IH[of "Suc i"] that by simp
  have add: "wf_locals (st\<lparr>tl_tests := ts, tl_last_end := e\<rparr>)" for ts e
    using step.prems(2) by (simp add: wf_locals_def)
  from step.prems show ?case
    by (subst (asm) tests_loop.simps) (auto simp: Let_def split: if_splits intro: IH add)
qed

lemma transition_loop_wf: "transition_loop b c ls i st = Ok (st', n) \<Longrightarrow> wf_locals st \<Longrightarrow> wf_locals st'"
proof (induction i arbitrary: c st rule: index_induct[where n = "length ls"])
  case (step i)
  have IH: "wf_locals st'" if "transition_loop b d ls j x = Ok (st', n)" "i < length ls" "i < j" "wf_locals x" for d j x
    using step.IH that by blast
  have clause: "wf_locals st'"
    if "transition_clause line tx st = Ok x" "transition_loop b d ls (Suc i) x = Ok (st', n)" "i < length ls"
    for line tx x d
    using IH[OF that(2,3)] transition_clause_wf[OF that(1) step.prems(2)] by simp
  have tests: "wf_locals st'"
    if "transition_clause line tx st = Ok x" "tests_loop e ls (Suc i) x = Ok (y, j)"
      "transition_loop b d ls j y = Ok (st', n)" "i < length ls" for line tx x e y j d
    using IH[OF that(3,4) _ tests_loop_wf[OF that(2) transition_clause_wf[OF that(1) step.prems(2)]]]
      tests_loop_bounds[OF that(2)] by simp
  from step.prems show ?case
    by (subst (asm) transition_loop.simps)
      (auto simp: Let_def split: if_splits intro: IH dest: clause tests)
qed

lemma parse_transition_wf:
  "parse_lifecycle_transition ls start name c = Ok (t, n) \<Longrightarrow> name \<noteq> [] \<Longrightarrow> wf_transition t"
proof -
  assume a: "parse_lifecycle_transition ls start name c = Ok (t, n)" "name \<noteq> []"
  have "wf_locals (transition_init (ls ! start))" by (simp add: wf_locals_def transition_init_def)
  with a show ?thesis
    by (auto simp: parse_lifecycle_transition_def Let_def wf_transition_def wf_locals_def
        dest!: transition_loop_wf split: if_splits option.splits)
qed

definition wf_lifecycle_locals :: "lifecycle_locals \<Rightarrow> bool" where
  "wf_lifecycle_locals st \<longleftrightarrow> list_all wf_state (ll_states st) \<and> list_all wf_transition (ll_transitions st)"

lemma wf_lifecycle_locals_step:
  "wf_lifecycle_locals st \<Longrightarrow> wf_state x \<Longrightarrow>
   wf_lifecycle_locals (st\<lparr>ll_states := ll_states st @ [x], ll_last_end := e\<rparr>)"
  "wf_lifecycle_locals st \<Longrightarrow> wf_transition t \<Longrightarrow>
   wf_lifecycle_locals (st\<lparr>ll_transitions := ll_transitions st @ [t], ll_last_end := e\<rparr>)"
  "wf_lifecycle_locals st \<Longrightarrow> wf_lifecycle_locals (st\<lparr>ll_invariants := is, ll_last_end := e\<rparr>)"
  "wf_lifecycle_locals st \<Longrightarrow> wf_lifecycle_locals (st\<lparr>ll_invariant_handlers := hs, ll_last_end := e\<rparr>)"
  by (simp_all add: wf_lifecycle_locals_def)

lemma lifecycle_loop_wf:
  "lifecycle_loop b ls i st = Ok (st', n) \<Longrightarrow> wf_lifecycle_locals st \<Longrightarrow> wf_lifecycle_locals st'"
proof (induction i arbitrary: st rule: index_induct[where n = "length ls"])
  case (step i)
  have IH: "wf_lifecycle_locals st'"
    if "lifecycle_loop b ls j x = Ok (st', n)" "i < length ls" "i < j" "wf_lifecycle_locals x" for j x
    using step.IH that by blast
  from step.prems show ?case
    by (subst (asm) lifecycle_loop.simps)
      (auto simp: Let_def split: if_splits option.splits
        intro: IH wf_lifecycle_locals_step parse_state_wf parse_transition_wf dest: transition_bounds)
qed

lemma lifecycle_block_parts:
  "parse_lifecycle_block ls start = Ok (block, next') \<Longrightarrow>
   2 \<le> length (lb_states block) \<and> list_all wf_state (lb_states block) \<and>
   lb_transitions block \<noteq> [] \<and> list_all wf_transition (lb_transitions block)"
  by (auto simp: parse_lifecycle_block_def Let_def wf_lifecycle_locals_def
      dest!: lifecycle_loop_wf split: if_splits)

section \<open>Properties\<close>

text \<open>
  C18. An accepted lifecycle block is well formed and ends inside the file: it has at least two named
  states whose modifier is \<^verbatim>\<open>initial\<close>, \<^verbatim>\<open>terminal\<close> or absent, at least one transition, and every
  transition has a name, at least one trimmed non-empty source state and exactly one target; the
  parser consumes at least the header and never runs past the last line.
\<close>

theorem lifecycle_block_wf:
  assumes "parse_lifecycle_block ls start = Ok (block, next')" "start < length ls"
  shows "2 \<le> length (lb_states block) \<and> list_all wf_state (lb_states block) \<and>
    lb_transitions block \<noteq> [] \<and> list_all wf_transition (lb_transitions block) \<and>
    start < next' \<and> next' \<le> length ls"
  using lifecycle_parser.advances[OF assms(2,1)] lifecycle_parser.stays[OF assms(2,1)] lifecycle_block_parts[OF assms(1)]
  by simp

definition sample_lifecycle :: string where
  "sample_lifecycle = concat (map (\<lambda>l. l @ [CHR 0x0A])
     [''lifecycle status'', ''  state draft initial'', ''  state done terminal'', ''  transition finish'',
      ''    from draft'', ''    to done'', ''    tests'', ''      finish.ok'', ''  invariant terminal_immutable''])"

theorem lifecycle_block_wf_witness:
  "\<exists>block. parse_lifecycle_block (source_lines sample_lifecycle) 0 = Ok (block, 9) \<and>
     map lt_from (lb_transitions block) = [[''draft'']] \<and> map lt_tests (lb_transitions block) = [[''finish.ok'']] \<and>
     list_all wf_transition (lb_transitions block)"
proof -
  have "case parse_lifecycle_block (source_lines sample_lifecycle) 0 of Inl e \<Rightarrow> False
      | Inr (b, n) \<Rightarrow> n = 9 \<and> map lt_from (lb_transitions b) = [[''draft'']] \<and>
          map lt_tests (lb_transitions b) = [[''finish.ok'']]"
    by code_simp
  then obtain block where b: "parse_lifecycle_block (source_lines sample_lifecycle) 0 = Ok (block, 9)"
      "map lt_from (lb_transitions block) = [[''draft'']]" "map lt_tests (lb_transitions block) = [[''finish.ok'']]"
    by (auto split: sum.splits)
  have "0 < length (source_lines sample_lifecycle)" by code_simp
  from lifecycle_block_wf[OF b(1) this] have "list_all wf_transition (lb_transitions block)" by (elim conjE)
  with b show ?thesis by (intro exI[of _ block] conjI)
qed

text \<open>
  The clauses of a transition that may appear once are set once: over the rest of the block the
  target, policy, audit, timestamp and requirement keep the first value they were given, the
  repeatable clauses only grow at the end, and a second \<^verbatim>\<open>to\<close> is an error.
\<close>

lemma transition_clauses_once:
  assumes "transition_loop block_indent child_indent ls i st = Ok (st', n)"
  shows "first_kept st st' \<and>
    (tl_to st \<noteq> None \<longrightarrow> transition_clause line (''to '' @ rest) st =
       Err (line_error_owned line ''transition declares `to` at most once''))"
  using transition_loop_kept[OF assms] strip_prefix_append[of "''to ''" rest]
  by (auto simp: transition_clause_def ensure_lifecycle_once_def)

lemma transition_clauses_once_example:
  "first_kept (transition_init (hd (source_lines sample_lifecycle))) (transition_init (hd (source_lines sample_lifecycle)))"
proof -
  have "transition_loop 0 2 [] 0 (transition_init (hd (source_lines sample_lifecycle))) =
      Ok (transition_init (hd (source_lines sample_lifecycle)), 0)"
    by (subst transition_loop.simps) simp
  from transition_clauses_once[OF this] show ?thesis by blast
qed

end
