(* ===== verification/Rate_Limit.thy ===== *)
theory Rate_Limit
  imports Source_Text
begin

text \<open>
  Numeric tails and the env-aware rate limit: the line parser and the fold of
  \<^verbatim>\<open>lazuli_syntax/src/parser/lzi/numerics.rs\<close>, the AST of \<^verbatim>\<open>ast/mod.rs\<close>, the IR with its closed
  catalog of environments (\<^verbatim>\<open>lazuli_ir/src/nodes/rate_limit.rs\<close>) and the lowering
  (\<^verbatim>\<open>lazuli_analyzer/src/resource_rate_limit.rs\<close>). The mutable \<^verbatim>\<open>&mut Option<RateLimitSpecAst>\<close> of
  the fold is passed and returned.

  Shown here: a printed line parses back; folding the lines of a declaration keeps source order and
  rejects a second default; the lowering gives every environment the limit its first matching line
  states; 32-bit and 64-bit numerals are read at their width.
\<close>

section \<open>Numeric tails\<close>

definition parse_uint32 :: "source_line \<Rightarrow> string \<Rightarrow> (ParseError, nat) result" where
  "parse_uint32 line rest = (case parse_u32 (trim rest) of
     Some n \<Rightarrow> Ok n | None \<Rightarrow> Err (line_error line ''expected a non-negative integer''))"

definition parse_int64 :: "source_line \<Rightarrow> string \<Rightarrow> (ParseError, int) result" where
  "parse_int64 line rest = (case parse_i64 (trim rest) of
     Some n \<Rightarrow> Ok n | None \<Rightarrow> Err (line_error line ''expected a signed integer''))"

section \<open>One rate-limit line\<close>

record rate_limit_by_env_ast =
  rla_limit :: string
  rla_envs :: "string list"
  rla_span :: span

record rate_limit_spec_ast =
  rls_default :: "string option"
  rls_by_env :: "rate_limit_by_env_ast list"
  rls_span :: span

fun rate_limit_envs :: "source_line \<Rightarrow> string list \<Rightarrow> (ParseError, string list) result" where
  "rate_limit_envs line [] = Ok []"
| "rate_limit_envs line (part # parts) =
     (let name = trim part in
      if name = [] then Err (line_error line
        ''`rate_limit` env list cannot contain empty entries (drop the trailing/extra comma)'')
      else try_bind (rate_limit_envs line parts) (\<lambda>envs. Ok (name # envs)))"

definition tail_error :: "source_line \<Rightarrow> ParseError" where
  "tail_error line = line_error line ''`rate_limit` literal may be followed only by `in <env_list>`''"

definition parse_rate_limit_line_body ::
  "source_line \<Rightarrow> string \<Rightarrow> (ParseError, string \<times> string list option) result" where
  "parse_rate_limit_line_body line rest =
     (case strip_prefix [dquote] (trim_start rest) of
        None \<Rightarrow> Err (line_error line
          (''`rate_limit` requires a quoted spec literal (e.g. `rate_limit '' @ [dquote] @ ''5 per minute per ip'' @ [dquote] @ ''`)''))
      | Some after_open \<Rightarrow> (case find_char dquote after_open of
          None \<Rightarrow> Err (line_error line ''`rate_limit` spec literal is missing its closing quote'')
        | Some close_offset \<Rightarrow>
            let literal = take close_offset after_open in
            if literal = [] then Err (line_error line ''`rate_limit` spec literal must be non-empty'')
            else let tail = trim_start (drop (close_offset + 1) after_open) in
            if tail = [] then Ok (literal, None)
            else (case strip_prefix ''in'' tail of
              None \<Rightarrow> Err (tail_error line)
            | Some after_in \<Rightarrow>
                try_bind
                  (case strip_ws_char after_in of
                     Some stripped \<Rightarrow> Ok (trim stripped)
                   | None \<Rightarrow> if after_in = [] then Ok [] else Err (tail_error line))
                  (\<lambda>env_list_text.
                    if env_list_text = [] then Err (line_error line
                      (''`rate_limit '' @ [dquote] @ ''X'' @ [dquote] @ '' in` requires at least one env name (e.g. `in dev, staging, test`)''))
                    else try_bind (rate_limit_envs line (split_on CHR '','' env_list_text)) (\<lambda>envs.
                      Ok (literal, Some envs))))))"

definition duplicate_default_message :: string where
  "duplicate_default_message = ''rate_limit_duplicate_default: declaration already carries an unqualified `rate_limit` line '' @
     [CHR 0xE2, CHR 0x80, CHR 0x94] @ '' add `in <env_list>` to differentiate or remove one''"

definition fold_rate_limit_line ::
  "source_line \<Rightarrow> rate_limit_spec_ast option \<Rightarrow> string \<Rightarrow> string list option \<Rightarrow>
   (ParseError, rate_limit_spec_ast) result" where
  "fold_rate_limit_line line spec literal envs =
     (let entry_span = Span (sl_start line) (sl_end line);
          aggregate0 = (case spec of Some s \<Rightarrow> s | None \<Rightarrow> \<lparr>rls_default = None, rls_by_env = [], rls_span = entry_span\<rparr>);
          aggregate = aggregate0\<lparr>rls_span := Span (sp_start (rls_span aggregate0)) (sp_end entry_span)\<rparr> in
      case envs of
        None \<Rightarrow>
          if rls_default aggregate \<noteq> None then Err (line_error line duplicate_default_message)
          else Ok (aggregate\<lparr>rls_default := Some (unquote_lzx_value literal)\<rparr>)
      | Some es \<Rightarrow>
          Ok (aggregate\<lparr>rls_by_env := rls_by_env aggregate @ [\<lparr>rla_limit = literal, rla_envs = es, rla_span = entry_span\<rparr>]\<rparr>))"

text \<open>The callers' loop: every \<^verbatim>\<open>rate_limit\<close> line of a declaration is parsed and folded, in order.\<close>

fun fold_rate_limit_lines ::
  "rate_limit_spec_ast option \<Rightarrow> (source_line \<times> string) list \<Rightarrow> (ParseError, rate_limit_spec_ast option) result" where
  "fold_rate_limit_lines spec [] = Ok spec"
| "fold_rate_limit_lines spec ((line, rest) # ls) =
     try_bind (parse_rate_limit_line_body line rest) (\<lambda>(literal, envs).
     try_bind (fold_rate_limit_line line spec literal envs) (\<lambda>spec'.
     fold_rate_limit_lines (Some spec') ls))"

section \<open>Lowering\<close>

datatype EnvName = Production | Staging | Test | Dev | Local

definition from_ident :: "string \<Rightarrow> EnvName option" where
  "from_ident ident =
     (if ident = ''production'' then Some Production
      else if ident = ''staging'' then Some Staging
      else if ident = ''test'' then Some Test
      else if ident = ''dev'' then Some Dev
      else if ident = ''local'' then Some Local
      else None)"

fun as_str :: "EnvName \<Rightarrow> string" where
  "as_str Production = ''production''"
| "as_str Staging = ''staging''"
| "as_str Test = ''test''"
| "as_str Dev = ''dev''"
| "as_str Local = ''local''"

record rate_limit_by_env =
  rl_envs :: "EnvName list"
  rl_unknown_envs :: "string list"
  rl_limit :: string
  rl_span_ref :: "(nat \<times> nat) option"

record rate_limit_spec =
  rl_default :: string
  rl_by_env :: "rate_limit_by_env list"
  rl_spec_span_ref :: "(nat \<times> nat) option"

definition from_default :: "string \<Rightarrow> rate_limit_spec" where
  "from_default s = \<lparr>rl_default = s, rl_by_env = [], rl_spec_span_ref = None\<rparr>"

definition lower_rate_limit_literal :: "string \<Rightarrow> string" where
  "lower_rate_limit_literal literal = (if literal = ''unlimited'' then [] else literal)"

definition lower_by_env :: "rate_limit_by_env_ast \<Rightarrow> rate_limit_by_env" where
  "lower_by_env entry = \<lparr>rl_envs = List.map_filter from_ident (rla_envs entry),
     rl_unknown_envs = filter (\<lambda>raw. from_ident raw = None) (rla_envs entry),
     rl_limit = lower_rate_limit_literal (rla_limit entry), rl_span_ref = None\<rparr>"

definition lower_rate_limit_spec :: "rate_limit_spec_ast \<Rightarrow> rate_limit_spec" where
  "lower_rate_limit_spec spec =
     \<lparr>rl_default = (case rls_default spec of Some literal \<Rightarrow> lower_rate_limit_literal literal | None \<Rightarrow> []),
      rl_by_env = map lower_by_env (rls_by_env spec), rl_spec_span_ref = None\<rparr>"

interpretation env_catalog: closed_catalog from_ident as_str
proof
  show "from_ident (as_str x) = Some x" for x
    by (cases x) (simp_all add: from_ident_def)
  show "from_ident s = Some x \<Longrightarrow> as_str x = s" for s x
    by (auto simp: from_ident_def split: if_splits)
qed


section \<open>Printed lines parse back\<close>

definition show_rate_limit :: "string \<Rightarrow> string list option \<Rightarrow> string" where
  "show_rate_limit literal envs = [dquote] @ literal @ [dquote] @
     (case envs of None \<Rightarrow> [] | Some es \<Rightarrow> '' in '' @ join '', '' es)"

definition wf_rate_limit :: "string \<Rightarrow> string list option \<Rightarrow> bool" where
  "wf_rate_limit literal envs \<longleftrightarrow> literal \<noteq> [] \<and> dquote \<notin> set literal \<and>
     (case envs of None \<Rightarrow> True | Some es \<Rightarrow> es \<noteq> [] \<and> list_all (\<lambda>e. tight e \<and> CHR '','' \<notin> set e) es)"

lemma rate_limit_envs_show:
  "list_all (\<lambda>e. tight e \<and> CHR '','' \<notin> set e) (e # es) \<Longrightarrow>
   rate_limit_envs line (split_on CHR '','' (join '', '' (e # es))) = Ok (e # es)"
proof -
  assume es: "list_all (\<lambda>e. tight e \<and> CHR '','' \<notin> set e) (e # es)"
  have "split_on CHR '','' (join '','' (e # map ((#) CHR '' '') es)) = e # map ((#) CHR '' '') es"
    by (rule split_on_join) (use es in \<open>auto simp: list_all_iff\<close>)
  moreover have tr: "trim x = x" "trim (CHR '' '' # x) = x" "x \<noteq> []" if "tight x" for x
    using that by (simp_all add: tight_trim tight_def trim_def char_class_defs trim_end_graphic_last)
      (metis trim_graphic_ends trim_def tight_def that)+
  moreover have "rate_limit_envs line (map ((#) CHR '' '') xs) = Ok xs" if "list_all tight xs" for xs
    using that by (induction xs) (simp_all add: tr Let_def)
  moreover have "list_all tight es" using es by (simp add: list_all_iff)
  ultimately show ?thesis using es by (simp add: join_comma_space Let_def)
qed

lemma parse_show_rate_limit:
  assumes "wf_rate_limit literal envs"
  shows "parse_rate_limit_line_body line (show_rate_limit literal envs) = Ok (literal, envs)"
proof -
  let ?tail = "case envs of None \<Rightarrow> [] | Some es \<Rightarrow> '' in '' @ join '', '' es"
  have lit: "literal \<noteq> []" "dquote \<notin> set literal" using assms by (simp_all add: wf_rate_limit_def)
  have find: "find_char dquote (literal @ dquote # ?tail) = Some (length literal)"
    using lit(2) by (auto simp: find_char_Some_iff nth_append)
  have dq: "trim_start (dquote # x) = dquote # x" for x by (simp add: char_class_defs)
  show ?thesis
  proof (cases envs)
    case None
    with lit find show ?thesis by (simp add: parse_rate_limit_line_body_def show_rate_limit_def dq)
  next
    case (Some es)
    obtain e rest where es: "es = e # rest" using assms Some by (cases es) (auto simp: wf_rate_limit_def)
    have wf: "list_all (\<lambda>e. tight e \<and> CHR '','' \<notin> set e) (e # rest)"
      using assms Some es by (simp add: wf_rate_limit_def)
    have "list_all tight es" using wf es by (simp add: list_all_iff)
    then have t: "tight (join '', '' es)" using es by (intro tight_join) simp_all
    have sp: "trim_start (CHR '' '' # CHR ''i'' # x) = CHR ''i'' # x" "ws1 CHR '' ''" for x
      by (simp_all add: char_class_defs)
    from Some lit find t rate_limit_envs_show[OF wf] show ?thesis
      by (simp add: parse_rate_limit_line_body_def show_rate_limit_def dq sp tight_trim es[symmetric])
        (simp add: tight_def)
  qed
qed

lemma unquote_plain: "dquote \<notin> set s \<Longrightarrow> unquote_lzx_value s = s"
  by (cases s) (auto simp: unquote_lzx_value_def strip_prefix_Some_iff split: option.splits)

section \<open>Folding the lines of a declaration\<close>

type_synonym rate_entry = "source_line \<times> string \<times> string list option"

definition entry_lines :: "rate_entry list \<Rightarrow> (source_line \<times> string) list" where
  "entry_lines = map (\<lambda>(line, literal, envs). (line, show_rate_limit literal envs))"

definition entry_wf :: "rate_entry \<Rightarrow> bool" where
  "entry_wf = (\<lambda>(line, literal, envs). wf_rate_limit literal envs)"

definition defaults_of :: "rate_entry list \<Rightarrow> string list" where
  "defaults_of es = List.map_filter (\<lambda>(line, literal, envs). if envs = None then Some literal else None) es"

definition overrides_of :: "rate_entry list \<Rightarrow> rate_limit_by_env_ast list" where
  "overrides_of es = List.map_filter (\<lambda>(line, literal, envs). map_option
     (\<lambda>names. \<lparr>rla_limit = literal, rla_envs = names, rla_span = Span (sl_start line) (sl_end line)\<rparr>) envs) es"

lemma entry_simps [simp]:
  "entry_lines [] = []" "defaults_of [] = []" "overrides_of [] = []"
  "entry_lines ((line, literal, envs) # es) = (line, show_rate_limit literal envs) # entry_lines es"
  "defaults_of ((line, literal, None) # es) = literal # defaults_of es"
  "defaults_of ((line, literal, Some ns) # es) = defaults_of es"
  "overrides_of ((line, literal, None) # es) = overrides_of es"
  "overrides_of ((line, literal, Some ns) # es) =
     \<lparr>rla_limit = literal, rla_envs = ns, rla_span = Span (sl_start line) (sl_end line)\<rparr> # overrides_of es"
  by (simp_all add: entry_lines_def defaults_of_def overrides_of_def List.map_filter_simps)

lemma fold_lines_Some:
  assumes "list_all entry_wf es"
  shows "if length (defaults_of es) + (case rls_default sp of None \<Rightarrow> 0 | Some _ \<Rightarrow> 1) \<le> 1
    then \<exists>sp'. fold_rate_limit_lines (Some sp) (entry_lines es) = Ok (Some sp') \<and>
      rls_by_env sp' = rls_by_env sp @ overrides_of es \<and>
      rls_default sp' = (case rls_default sp of Some d \<Rightarrow> Some d | None \<Rightarrow> (case defaults_of es of [] \<Rightarrow> None | d # _ \<Rightarrow> Some d))
    else \<exists>line. fold_rate_limit_lines (Some sp) (entry_lines es) = Err (line_error line duplicate_default_message)"
  using assms
proof (induction es arbitrary: sp)
  case Nil
  then show ?case by (simp split: option.splits)
next
  case (Cons e es)
  obtain line literal envs where e: "e = (line, literal, envs)" by (cases e)
  have p: "parse_rate_limit_line_body line (show_rate_limit literal envs) = Ok (literal, envs)"
    and plain: "dquote \<notin> set literal"
    using Cons.prems e by (simp_all add: entry_wf_def parse_show_rate_limit wf_rate_limit_def)
  let ?span = "Span (sp_start (rls_span sp)) (sl_end line)"
  show ?case
  proof (cases envs)
    case None
    show ?thesis
    proof (cases "rls_default sp")
      case d: None
      obtain sp2 where step: "fold_rate_limit_lines (Some sp) (entry_lines (e # es)) =
          fold_rate_limit_lines (Some sp2) (entry_lines es)"
          and sp2: "rls_by_env sp2 = rls_by_env sp" "rls_default sp2 = Some literal"
        using p None d plain by (simp add: e fold_rate_limit_line_def Let_def unquote_plain)
      from Cons.IH[of sp2] Cons.prems show ?thesis unfolding step by (simp add: sp2 d e None split: if_splits)
    next
      case (Some x)
      with p None show ?thesis by (auto simp: e fold_rate_limit_line_def Let_def)
    qed
  next
    case (Some ns)
    obtain sp2 where step: "fold_rate_limit_lines (Some sp) (entry_lines (e # es)) =
        fold_rate_limit_lines (Some sp2) (entry_lines es)"
        and sp2: "rls_default sp2 = rls_default sp" "rls_by_env sp2 = rls_by_env sp @
          [\<lparr>rla_limit = literal, rla_envs = ns, rla_span = Span (sl_start line) (sl_end line)\<rparr>]"
      using p Some by (simp add: e fold_rate_limit_line_def Let_def)
    have dflt: "defaults_of (e # es) = defaults_of es" by (simp add: e Some)
    from Cons.IH[of sp2] Cons.prems show ?thesis
      unfolding step dflt by (simp add: sp2 e Some split: if_splits)
  qed
qed

lemma fold_lines_first:
  "fold_rate_limit_lines None ((line, rest) # ls) =
   fold_rate_limit_lines (Some \<lparr>rls_default = None, rls_by_env = [], rls_span = Span (sl_start line) (sl_end line)\<rparr>) ((line, rest) # ls)"
  by (simp add: fold_rate_limit_line_def Let_def)


section \<open>Resolution\<close>

text \<open>The contract of the lowered form: the first entry that lists the environment wins, the default is
  the fallback, and the empty text means no throttle. The authored form is read the same way.\<close>

definition resolve_limit :: "rate_limit_spec \<Rightarrow> EnvName \<Rightarrow> string" where
  "resolve_limit spec env = (case find (\<lambda>e. env \<in> set (rl_envs e)) (rl_by_env spec) of
     Some e \<Rightarrow> rl_limit e | None \<Rightarrow> rl_default spec)"

definition authored_limit :: "rate_limit_spec_ast \<Rightarrow> string \<Rightarrow> string option" where
  "authored_limit spec env = (case find (\<lambda>e. env \<in> set (rla_envs e)) (rls_by_env spec) of
     Some e \<Rightarrow> Some (rla_limit e) | None \<Rightarrow> rls_default spec)"

lemma env_known_iff: "env \<in> set (List.map_filter from_ident raws) \<longleftrightarrow> as_str env \<in> set raws"
proof
  assume "env \<in> set (List.map_filter from_ident raws)"
  then obtain r where "r \<in> set raws" "from_ident r = Some env" by (auto simp: List.map_filter_def)
  then show "as_str env \<in> set raws" by (simp add: env_catalog.of_token_iff)
next
  assume "as_str env \<in> set raws"
  moreover have "from_ident (as_str env) = Some env" by (rule env_catalog.of_token_token)
  ultimately show "env \<in> set (List.map_filter from_ident raws)"
    unfolding List.map_filter_def by (auto intro!: image_eqI[of env _ "as_str env"])
qed

lemma find_map_by: "(\<And>x. P (f x) \<longleftrightarrow> Q x) \<Longrightarrow> find P (map f xs) = map_option f (find Q xs)"
  by (induction xs) auto

section \<open>Properties\<close>

text \<open>
  A rate-limit line parses back: for every non-empty literal without a quote and every non-empty
  list of environment names (or none), the printed line yields exactly that literal and list.
\<close>

lemma rate_limit_line_roundtrip:
  assumes "wf_rate_limit literal envs"
  shows "parse_rate_limit_line_body line (show_rate_limit literal envs) = Ok (literal, envs)"
  using assms by (rule parse_show_rate_limit)

lemma rate_limit_line_roundtrip_example:
  "parse_rate_limit_line_body \<lparr>sl_text = [], sl_indent = 0, sl_start = 0, sl_end = 0\<rparr>
     ([dquote] @ ''5 per minute'' @ [dquote] @ '' in dev, test'') = Ok (''5 per minute'', Some [''dev'', ''test''])"
proof -
  have "wf_rate_limit ''5 per minute'' (Some [''dev'', ''test''])" by code_simp
  from rate_limit_line_roundtrip[OF this, of "\<lparr>sl_text = [], sl_indent = 0, sl_start = 0, sl_end = 0\<rparr>"]
  show ?thesis by (simp add: show_rate_limit_def)
qed

text \<open>
  Folding the rate-limit lines of a declaration: with at most one unqualified line the fold
  succeeds, its default is that line's literal and its overrides are the qualified lines in source
  order; with a second unqualified line it fails with the duplicate-default error.
\<close>

lemma rate_limit_fold_spec:
  assumes "list_all entry_wf es" "es \<noteq> []"
  shows "if length (defaults_of es) \<le> 1
    then \<exists>spec. fold_rate_limit_lines None (entry_lines es) = Ok (Some spec) \<and>
      rls_by_env spec = overrides_of es \<and>
      rls_default spec = (case defaults_of es of [] \<Rightarrow> None | d # _ \<Rightarrow> Some d)
    else \<exists>line. fold_rate_limit_lines None (entry_lines es) = Err (line_error line duplicate_default_message)"
proof -
  obtain line literal envs es' where es: "es = (line, literal, envs) # es'" using assms(2) by (cases es) auto
  let ?sp = "\<lparr>rls_default = None, rls_by_env = [], rls_span = Span (sl_start line) (sl_end line)\<rparr>"
  have start: "fold_rate_limit_lines None (entry_lines es) = fold_rate_limit_lines (Some ?sp) (entry_lines es)"
    unfolding es entry_simps by (rule fold_lines_first)
  show ?thesis using fold_lines_Some[OF assms(1), of ?sp] unfolding start by (simp split: if_splits)
qed

lemma rate_limit_fold_spec_example:
  "\<exists>line. fold_rate_limit_lines None (entry_lines
     [(\<lparr>sl_text = [], sl_indent = 0, sl_start = 0, sl_end = 9\<rparr>, ''1 per day'', None),
      (\<lparr>sl_text = [], sl_indent = 0, sl_start = 10, sl_end = 19\<rparr>, ''2 per day'', None)]) =
     Err (line_error line duplicate_default_message)"
proof -
  let ?es = "[(\<lparr>sl_text = [], sl_indent = 0, sl_start = 0, sl_end = 9\<rparr>, ''1 per day'', None),
      (\<lparr>sl_text = [], sl_indent = 0, sl_start = 10, sl_end = 19\<rparr>, ''2 per day'', None)] :: rate_entry list"
  have "list_all entry_wf ?es" by code_simp
  moreover have "\<not> length (defaults_of ?es) \<le> 1" by simp
  ultimately show ?thesis using rate_limit_fold_spec[of ?es] by simp
qed

text \<open>
  Lowering keeps the meaning of a rate limit: for every environment of the catalog the lowered
  form resolves to the limit authored for it (first matching line, else the default), with
  \<^verbatim>\<open>unlimited\<close> and a missing default as the empty text; and no authored name is lost, each being in
  the known or in the unknown list of its row.
\<close>

lemma lower_rate_limit_resolves:
  "resolve_limit (lower_rate_limit_spec spec) env =
     (case authored_limit spec (as_str env) of Some literal \<Rightarrow> lower_rate_limit_literal literal | None \<Rightarrow> []) \<and>
   map (\<lambda>e. as_str ` set (rl_envs e) \<union> set (rl_unknown_envs e)) (rl_by_env (lower_rate_limit_spec spec)) =
     map (\<lambda>e. set (rla_envs e)) (rls_by_env spec)"
proof
  have "find (\<lambda>e. env \<in> set (rl_envs e)) (map lower_by_env (rls_by_env spec)) =
      map_option lower_by_env (find (\<lambda>e. as_str env \<in> set (rla_envs e)) (rls_by_env spec))"
    by (rule find_map_by) (simp add: lower_by_env_def env_known_iff)
  then show "resolve_limit (lower_rate_limit_spec spec) env =
     (case authored_limit spec (as_str env) of Some literal \<Rightarrow> lower_rate_limit_literal literal | None \<Rightarrow> [])"
    by (simp add: resolve_limit_def authored_limit_def lower_rate_limit_spec_def lower_by_env_def split: option.splits)
  have "as_str ` set (rl_envs (lower_by_env e)) \<union> set (rl_unknown_envs (lower_by_env e)) = set (rla_envs e)" for e
    using env_catalog.partition_tokens[of "rla_envs e"] by (simp add: lower_by_env_def)
  then show "map (\<lambda>e. as_str ` set (rl_envs e) \<union> set (rl_unknown_envs e)) (rl_by_env (lower_rate_limit_spec spec)) =
     map (\<lambda>e. set (rla_envs e)) (rls_by_env spec)"
    by (simp add: lower_rate_limit_spec_def)
qed

end
