(* ===== verification/Ir_Core.thy ===== *)
theory Ir_Core
  imports Rate_Limit "HOL-Library.Word"
begin

text \<open>
  The part of the intermediate representation that several passes share (\<^verbatim>\<open>lazuli_ir\<close>): the closed
  catalogs of types, currencies and capabilities (\<^verbatim>\<open>nodes/resource/type_ref.rs\<close>,
  \<^verbatim>\<open>nodes/capability.rs\<close>), default values, fields, resources, commands and features. The type catalogs are
  complete; of fields, resources, commands and features the records hold the slots the modelled passes read
  (of the authentication block only the session table, and whether it rotates).
  The catalog entries \<^verbatim>\<open>Id\<close>, \<^verbatim>\<open>Text\<close> and so on carry the prefix \<open>Bt\<close>. Machine integers keep
  their width.

  Shown here: the currency codes are a closed catalog, and the byte count of a file-size literal never
  leaves 64 bits.
\<close>

section \<open>Names and types\<close>

record qualified_name =
  qn_feature :: "string option"
  qn_name :: string

datatype CurrencyCode = BRL | USD | EUR | GBP | JPY | CHF

fun as_iso :: "CurrencyCode \<Rightarrow> string" where
  "as_iso BRL = ''BRL''"
| "as_iso USD = ''USD''"
| "as_iso EUR = ''EUR''"
| "as_iso GBP = ''GBP''"
| "as_iso JPY = ''JPY''"
| "as_iso CHF = ''CHF''"

definition from_iso :: "string \<Rightarrow> CurrencyCode option" where
  "from_iso raw =
     (if raw = ''BRL'' then Some BRL else if raw = ''USD'' then Some USD else if raw = ''EUR'' then Some EUR
      else if raw = ''GBP'' then Some GBP else if raw = ''JPY'' then Some JPY
      else if raw = ''CHF'' then Some CHF else None)"

record plugin_type =
  pl_plugin :: string
  pl_name :: string
  pl_validator :: string
  pl_go_module :: string
  pl_ts_package :: string
  pl_error_code :: string
  pl_message_key :: string
  pl_ts_validator :: string

datatype BuiltinType =
    BtId | BtText | BtBoolean | BtInteger | BtDecimal | BtDate | BtDateTime | BtJson
  | SemanticEmail | SemanticMoney CurrencyCode | SemanticPhone | SemanticUrl | SemanticUuid
  | SemanticCurrency | SemanticGeoPoint | SemanticHexColor | SemanticPercentage
  | SemanticPositiveDecimal | SemanticNonNegativeInt
  | SemanticPluginType plugin_type BuiltinType
  | CapSecret | CapFile

section \<open>Capabilities\<close>

datatype FileSizeLiteral = Kb "32 word" | Mb "32 word" | Gb "32 word"

fun file_size_bytes :: "FileSizeLiteral \<Rightarrow> 64 word" where
  "file_size_bytes (Kb n) = ucast n * 1024"
| "file_size_bytes (Mb n) = ucast n * 1024 * 1024"
| "file_size_bytes (Gb n) = ucast n * 1024 * 1024 * 1024"

record file_size =
  fz_bytes :: "64 word"
  fz_literal :: FileSizeLiteral

record mime_type =
  mt_family :: string
  mt_subtype :: string

datatype FileVisibility = Public | Private | Signed

record file_capability =
  fc_max_size :: file_size
  fc_accept :: "mime_type list"
  fc_visibility :: "FileVisibility option"
  fc_signed_ttl :: "string option"
  fc_auto_photo_policy :: "string option"

record pii_capability =
  pc_class :: string
  pc_retention :: "string option"
  pc_log_redact :: "bool option"

datatype HashAlgorithm = Argon2id | Bcrypt

datatype TokenStore = HashedStore

record token_capability =
  tk_ttl :: string
  tk_single_use :: bool
  tk_store :: TokenStore

datatype CapabilityRef =
    File file_capability
  | PII pii_capability
  | Hashed HashAlgorithm
  | Encrypted string
  | E2ee string
  | Token token_capability

datatype TypeRef =
    Builtin BuiltinType
  | UserDefined qualified_name
  | EnumRef qualified_name
  | Many TypeRef
  | Unresolved string
  | Capability CapabilityRef

section \<open>Defaults, fields, resources, features\<close>

record enum_literal =
  el_type_name :: "qualified_name option"
  el_variant :: string

datatype DefaultValue =
    DString string | DInteger int | DBoolean bool | DEnumLiteral enum_literal | DNil

record cross_feature_target =
  ct_feature :: string
  ct_resource :: string

text \<open>\<^verbatim>\<open>OwnerAxis\<close> has one slot, the column \<^verbatim>\<open>through\<close>.\<close>

datatype SanitizeHtmlProfile = Strict | Basic | MarkdownSafe

text \<open>\<^verbatim>\<open>FieldConstraints\<close>: \<^verbatim>\<open>i64\<close>, \<^verbatim>\<open>usize\<close>, \<^verbatim>\<open>u32\<close> and \<^verbatim>\<open>u64\<close> slots are only copied and compared.\<close>

record field_constraints =
  fk_min :: "int option"
  fk_max :: "int option"
  fk_pattern :: "string option"
  fk_between :: "(int \<times> int) option"
  fk_length :: "nat option"
  fk_in :: "string list option"
  fk_sanitize_html :: "SanitizeHtmlProfile option"
  fk_utf8_safe :: "bool option"
  fk_max_recursion :: "32 word option"
  fk_max_size :: "64 word option"
  fk_covers_pii :: "string option"

definition default_constraints :: field_constraints where
  "default_constraints = \<lparr>fk_min = None, fk_max = None, fk_pattern = None, fk_between = None, fk_length = None,
     fk_in = None, fk_sanitize_html = None, fk_utf8_safe = None, fk_max_recursion = None, fk_max_size = None,
     fk_covers_pii = None\<rparr>"

record field_ir =
  fi_name :: string
  fi_type_ref :: TypeRef
  fi_required :: bool
  fi_unique :: bool
  fi_default :: "DefaultValue option"
  fi_derived_from :: "string option"
  fi_constraints :: field_constraints
  fi_full_text :: bool
  fi_owner_axis :: "string option"
  fi_cross_feature_target :: "cross_feature_target option"

record polymorphic_ref =
  pr_type_field :: string
  pr_id_field :: string
  pr_targets :: "string list"

datatype CompareOp = Eq | Ne | Lt | Le | Gt | Ge

datatype Expr =
    EPath "string list" | EString string | EInteger int | EBoolean bool | EEnum enum_literal | ENil
  | EFnCall qualified_name "Expr list"

datatype Predicate =
    Comparison Expr CompareOp Expr | Has Expr Expr | PAnd "Predicate list" | POr "Predicate list"

datatype EvalContainsRhs = ContainsLiteral string | ContainsSemanticType qualified_name

datatype ToolsCallsOp = Includes | Excludes

datatype ToolKind = QueryList | QueryLookup | QuerySql | QueryView | Command | Api | QueryUnspecified

datatype QualifiedToolRef = LocalTool ToolKind string | CrossFeatureTool string ToolKind string | AdapterTool "string list"

datatype EvalPredicate =
    Closed Predicate | Contains "string list" EvalContainsRhs | ToolsCalls ToolsCallsOp QualifiedToolRef
  | Unparsed string

record unique_constraint =
  uc_fields :: "string list"
  uc_per :: "string option"
  uc_when :: "EvalPredicate option"
  uc_error_code :: "string option"

datatype IndexMethod = Btree | Gin | Gist

record index_constraint =
  ic_fields :: "string list"
  ic_method :: "IndexMethod option"
  ic_full_text :: bool

datatype Constraint = Unique unique_constraint | Index index_constraint

record composite_key =
  ck_fields :: "string list"
  ck_primary :: bool

datatype Tenancy = Org | Team | Custom string | NoTenancy

type_synonym span_ref = "nat \<times> nat"

datatype PolicyRef = RefLocal string | RefAtom string | RefExternal string string | RefUnresolved string | RefNone

record audit_materialize =
  am_feature :: string
  am_resource :: string

record audit_spec =
  au_subjects :: "string list"
  au_emit_to :: "string option"
  au_data_subject :: "string option"
  au_record_before :: bool
  au_record_after :: bool
  au_retain_for :: "string option"
  au_materialize :: "audit_materialize option"

datatype TestAssertion =
    PolicyAllow "string list" | PolicyDeny "string list"
  | AllowsWhen Predicate | DeniesWhen Predicate
  | AllowsFrom string | DeniesFrom string
  | AllowsAs string | DeniesAs string
  | AllowsFromAs string string | DeniesFromAs string string
  | AllowsExtension string | DeniesExtension string
  | RawTest string

record test_block =
  tb_assertions :: "TestAssertion list"
  tb_span_ref :: "span_ref option"

record handler_ref =
  hr_namespace :: string
  hr_name :: string
  hr_span_ref :: "span_ref option"

datatype LifecycleStateKind = Initial | Intermediate | Terminal

record lifecycle_state_ir =
  si_name :: string
  si_kind :: LifecycleStateKind
  si_span_ref :: "span_ref option"

record lifecycle_transition_ir =
  ti_name :: string
  ti_from :: "string list"
  ti_to :: string
  ti_policy :: "PolicyRef option"
  ti_audit :: "audit_spec option"
  ti_timestamps :: "string option"
  ti_emits :: "string list"
  ti_requires :: "PolicyRef option"
  ti_tests :: "test_block option"
  ti_previous_names :: "string list"
  ti_span_ref :: "span_ref option"

datatype LifecycleInvariant =
    InvTerminalImmutable | InvSingleStatePerScope string string | InvNoJumpMoreThanOne

record lifecycle_ir =
  lc_discriminator_field :: string
  lc_generated_enum :: string
  lc_states :: "lifecycle_state_ir list"
  lc_transitions :: "lifecycle_transition_ir list"
  lc_invariants :: "LifecycleInvariant list"
  lc_invariant_handlers :: "handler_ref list"
  lc_previous_names :: "string list"
  lc_span_ref :: "span_ref option"

datatype ConventionRef = Crud | Me

datatype ConventionOrigin = Synthesized ConventionRef | AuthorOverride ConventionRef

datatype RetentionAction = Anonymize | DeleteRow | Archive

record retention_spec =
  rp_duration :: string
  rp_action :: RetentionAction

record resource_ir =
  rs_name :: string
  rs_tenancy :: "Tenancy option"
  rs_soft_delete :: bool
  rs_soft_delete_actor :: bool
  rs_timestamps :: "bool option"
  rs_fields :: "field_ir list"
  rs_constraints :: "Constraint list"
  rs_retention :: "retention_spec option"
  rs_composite_key :: "composite_key option"
  rs_polymorphic_refs :: "polymorphic_ref list"
  rs_lifecycle :: "lifecycle_ir option"
  rs_conventions :: "ConventionRef list"

definition synthesized_soft_delete_columns :: "resource_ir \<Rightarrow> string list" where
  "synthesized_soft_delete_columns r =
     (if \<not> rs_soft_delete r then []
      else if rs_soft_delete_actor r then [''deleted_at'', ''deleted_by''] else [''deleted_at''])"

datatype StorageValue = StInteger int | StString string

record enum_variant =
  ev_name :: string
  ev_storage_value :: "StorageValue option"

record enum_decl =
  ed_name :: string
  ed_variants :: "enum_variant list"

record record_decl =
  rd_name :: string
  rd_fields :: "field_ir list"

datatype DefaultsAudit = AuditDefault

record feature_defaults =
  df_tenancy :: "Tenancy option"
  df_timestamps :: bool
  df_rate_limit :: "string option"
  df_audit :: "DefaultsAudit option"

datatype TheftAction = RevokeSessionFamily | RevokeUser

record rotation_config =
  rc_refresh_ttl :: "string option"
  rc_grace :: "string option"
  rc_theft_detection_action :: "TheftAction option"

record auth_sessions =
  as_resource :: qualified_name
  as_rotation :: "rotation_config option"

definition is_rotation_enabled :: "auth_sessions \<Rightarrow> bool" where
  "is_rotation_enabled s \<longleftrightarrow> as_rotation s \<noteq> None"

datatype CommandKind = Create | Update | Delete | Returns | Reorder

record typed_slot =
  ts_name :: string
  ts_type_ref :: TypeRef
  ts_required :: bool
  ts_constraints :: field_constraints
  ts_validate_skip :: bool

datatype CommandInput = InShort "string list" | InTyped "typed_slot list" | InEmpty

datatype RouteSlotKind = PlainSlot | OpaqueToken | SignedToken

record route_slot =
  rt_name :: string
  rt_type_ref :: TypeRef
  rt_from :: "string option"
  rt_kind :: RouteSlotKind

datatype DeprecationReplacement =
    LocalCommand string | LocalApi string | Qualified qualified_name | QualifiedApi qualified_name | Url string

record deprecation =
  dp_since :: "string option"
  dp_replacement :: "DeprecationReplacement option"
  dp_sunset :: "string option"

record named_arg =
  na_name :: string
  na_value :: Expr

record target_expr =
  te_query :: qualified_name
  te_args :: "named_arg list"

record assignment =
  asg_field :: string
  asg_value :: Expr

datatype CommandEffect =
    Creates qualified_name bool "assignment list"
  | UpdatesRow qualified_name "assignment list" "assignment list"
  | DeletesRow qualified_name "assignment list"
  | ReturnsType TypeRef
  | Reorders qualified_name string
  | NoEffect

record owner_scope_sql =
  os_field_name :: string
  os_fk_target :: string
  os_through_column :: string
  os_where_predicate :: string
  os_cte_owner_check :: "string option"

datatype DerivedFrom = FromLifecycle string string

record let_binding =
  let_name :: string
  let_value :: Expr

record invalidates_spec =
  iv_query :: qualified_name
  iv_args :: "named_arg list"

datatype AutoPhotoCommandRole = RoleRequest | RoleConfirm | RoleClear | RoleGetUrl

record synthesized_from_cap_file =
  sf_resource :: string
  sf_field :: string
  sf_role :: AutoPhotoCommandRole

record command_ir =
  cm_name :: string
  cm_kind :: CommandKind
  cm_route :: "route_slot list"
  cm_input :: CommandInput
  cm_target :: "target_expr option"
  cm_lets :: "let_binding list"
  cm_effect :: CommandEffect
  cm_policy :: PolicyRef
  cm_emits :: "string list"
  cm_rate_limit :: "rate_limit_spec option"
  cm_invalidates :: "invalidates_spec list"
  cm_audit :: "audit_spec option"
  cm_deprecated :: "deprecation option"
  cm_handler :: "handler_ref option"
  cm_tests :: "test_block option"
  cm_previous_names :: "string list"
  cm_span_ref :: "span_ref option"
  cm_triggers :: "string list"
  cm_owner_scope_sql :: "owner_scope_sql option"
  cm_synthesized_from_cap_file :: "synthesized_from_cap_file option"
  cm_derived_from :: "DerivedFrom option"

section \<open>Queries\<close>

record ir_policy_atom =
  ia_namespace :: string
  ia_name :: string
  ia_args :: "string option"

datatype IrPolicyExpr =
    IrAuthenticated | IrHasRole string | IrHasPermission string | IrAtom ir_policy_atom
  | IrAnd "IrPolicyExpr list" | IrOr "IrPolicyExpr list" | IrNot IrPolicyExpr

record filter_ir =
  fl_predicate :: Predicate
  fl_when :: "string option"

record key_clause =
  kc_path :: "string list"
  kc_equals :: Expr

datatype OrderDir = Asc | Desc

record order_by =
  ob_field :: string
  ob_direction :: OrderDir

record list_query =
  lq_name :: string
  lq_params :: "typed_slot list"
  lq_scope :: "Predicate list"
  lq_scope_override :: bool
  lq_filters :: "filter_ir list"
  lq_order :: "order_by list"
  lq_paginate :: "32 word option"
  lq_modifier :: "string option"
  lq_policy :: PolicyRef
  lq_policy_expr :: "IrPolicyExpr option"
  lq_previous_names :: "string list"
  lq_span_ref :: "span_ref option"
  lq_owner_scope_sql :: "owner_scope_sql option"

record lookup_query =
  kq_name :: string
  kq_params :: "typed_slot list"
  kq_keys :: "key_clause list"
  kq_scope :: "Predicate list"
  kq_scope_override :: bool
  kq_filters :: "filter_ir list"
  kq_policy :: PolicyRef
  kq_policy_expr :: "IrPolicyExpr option"
  kq_previous_names :: "string list"
  kq_span_ref :: "span_ref option"
  kq_owner_scope_sql :: "owner_scope_sql option"

text \<open>Of a query in SQL the passes read the name alone.\<close>

record sql_query =
  sq_name :: string
  sq_params :: "typed_slot list"
  sq_returns :: TypeRef
  sq_sql_path :: string

datatype Query = ListQ list_query | LookupQ lookup_query | SqlQ sql_query

fun query_name :: "Query \<Rightarrow> string" where
  "query_name (ListQ q) = lq_name q"
| "query_name (LookupQ q) = kq_name q"
| "query_name (SqlQ q) = sq_name q"

section \<open>Events\<close>

datatype EventKind = DomainEvent | TraceEvent

datatype OutboxMode = NoOutbox | GuaranteedOutbox

record event_field =
  ef_name :: string
  ef_type_ref :: TypeRef
  ef_optional :: bool

record event_ir =
  en_name :: string
  en_kind :: EventKind
  en_payload :: "event_field list"
  en_payload_none :: bool
  en_level :: "string option"
  en_outbox :: OutboxMode
  en_previous_names :: "string list"
  en_span_ref :: "span_ref option"

datatype EventVariantKind = CommittedVariant | TraceVariant

record event_variant =
  vr_name :: string
  vr_kind :: EventVariantKind
  vr_outbox :: OutboxMode
  vr_fields :: "event_field list"
  vr_span_ref :: "span_ref option"

record event_group =
  eg_pattern :: string
  eg_on_resource :: "string option"
  eg_variants :: "event_variant list"

section \<open>Features\<close>

record policy_category =
  pg_name :: string
  pg_atoms :: "string list"

record feature_ir =
  fe_name :: string
  fe_uses :: "string list"
  fe_defaults :: feature_defaults
  fe_sessions :: "auth_sessions option"
  fe_resources :: "resource_ir list"
  fe_records :: "record_decl list"
  fe_enums :: "enum_decl list"
  fe_commands :: "command_ir list"
  fe_queries :: "Query list"
  fe_policy_categories :: "policy_category list"
  fe_events :: "event_ir list"
  fe_event_groups :: "event_group list"
  fe_synth_origins :: "(string \<times> ConventionOrigin) list"

type_synonym module_ir = "feature_ir list"

section \<open>Facts\<close>

lemma from_iso_as_iso [simp]: "from_iso (as_iso c) = Some c"
  by (cases c) (simp_all add: from_iso_def)

lemma as_iso_from_iso: "from_iso raw = Some c \<Longrightarrow> as_iso c = raw"
  by (auto simp: from_iso_def split: if_splits)

interpretation currency_catalog: closed_catalog from_iso as_iso
  by unfold_locales (auto dest: as_iso_from_iso)

text \<open>The largest literal is below \<open>2 ^ 62\<close>, so no product wraps.\<close>

lemma file_size_bytes_exact:
  "unat (file_size_bytes l) =
     (case l of Kb n \<Rightarrow> unat n * 2 ^ 10 | Mb n \<Rightarrow> unat n * 2 ^ 20 | Gb n \<Rightarrow> unat n * 2 ^ 30)"
proof -
  have small: "unat n < 2 ^ 32" for n :: "32 word" using unsigned_less[of n] by simp
  have cast: "unat (ucast n :: 64 word) = unat n" for n :: "32 word"
    using small[of n] by (simp add: unsigned_ucast_eq take_bit_eq_mod)
  have mult: "unat (ucast n * of_nat k :: 64 word) = unat n * k" if "k \<le> 2 ^ 30" for n :: "32 word" and k
  proof -
    have "unat n * k \<le> 2 ^ 32 * 2 ^ 30" using small[of n] that by (intro mult_le_mono) auto
    moreover have "k < 2 ^ 64" using that by simp
    ultimately show ?thesis using small[of n] cast[of n]
      by (simp add: unat_word_ariths unat_of_nat take_bit_eq_mod)
  qed
  from mult[of "2 ^ 10"] mult[of "2 ^ 20"] mult[of "2 ^ 30"] show ?thesis
    by (cases l) (simp_all add: mult.assoc)
qed

end
