(* ===== verification/Lifecycle_Triggers.thy ===== *)
theory Lifecycle_Triggers
  imports Ir_Core
begin

text \<open>
  Command-trigger diagnostics (\<^verbatim>\<open>lazuli_analyzer/src/checks/lifecycle_transition/mod.rs\<close>): the index
  over features and resources, the walk over \<^verbatim>\<open>uses\<close>, the overlap check and the per-command check.
  The model starts at the check's own projection of the IR (\<^verbatim>\<open>CheckInput\<close>); the ordered maps are the
  sorted association lists of the prelude, and a stack is a list whose head is its top.

  Shown here: the walk finds exactly the features that \<^verbatim>\<open>uses\<close> reaches; a command whose resource
  has a lifecycle passes exactly when its trigger chain can run on the lifecycle as a state machine and
  does not assign the discriminator; the overlap check is silent exactly when triggers are disjoint.
\<close>

section \<open>Facts\<close>

datatype Severity = Error | Warning

record diagnostic =
  dg_code :: string
  dg_severity :: Severity
  dg_message :: string
  dg_span :: "(nat \<times> nat) option"

record transition_facts =
  tf_name :: string
  tf_from :: "string list"
  tf_to :: string

record lifecycle_facts =
  lf_discriminator_field :: string
  lf_transitions :: "transition_facts list"

record resource_facts =
  rf_name :: string
  rf_lifecycle :: "lifecycle_facts option"

datatype CommandEffectFacts = Updates qualified_name "string list" | Other

record command_facts =
  cf_feature :: string
  cf_name :: string
  cf_triggers :: "string list"
  cf_effect :: CommandEffectFacts
  cf_span :: "(nat \<times> nat) option"

record feature_facts =
  ff_name :: string
  ff_uses :: "string list"
  ff_resources :: "resource_facts list"
  ff_commands :: "command_facts list"

definition diag :: "string \<Rightarrow> Severity \<Rightarrow> (nat \<times> nat) option \<Rightarrow> string \<Rightarrow> diagnostic" where
  "diag code' severity span message =
     \<lparr>dg_code = code', dg_severity = severity, dg_message = message, dg_span = span\<rparr>"

definition list_or_none :: "string list \<Rightarrow> string" where
  "list_or_none values = (if values = [] then ''<none>'' else join '', '' values)"

section \<open>The index\<close>

record index =
  ix_features :: "(string \<times> feature_facts) list"
  ix_resources :: "((string \<times> string) \<times> resource_facts) list"

definition index_new :: "feature_facts list \<Rightarrow> index" where
  "index_new features = \<lparr>ix_features = bmap_of (map (\<lambda>f. (ff_name f, f)) features),
     ix_resources = bmap_of (concat (map (\<lambda>f. map (\<lambda>r. ((ff_name f, rf_name r), r)) (ff_resources f)) features))\<rparr>"

definition unseen :: "(string \<times> feature_facts) list \<Rightarrow> string list \<Rightarrow> nat" where
  "unseen fm seen = card (fst ` set fm - set seen)"

function reachable_loop ::
  "(string \<times> feature_facts) list \<Rightarrow> string list \<Rightarrow> string list \<Rightarrow> feature_facts list" where
  "reachable_loop fm seen [] = []"
| "reachable_loop fm seen (name # stack) =
     (if name \<in> set seen then reachable_loop fm seen stack
      else case map_of fm name of
          None \<Rightarrow> reachable_loop fm (name # seen) stack
        | Some feature \<Rightarrow> feature # reachable_loop fm (name # seen) (ff_uses feature @ stack))"
  by pat_completeness auto
termination
proof (relation "measures [\<lambda>(fm, seen, stack). unseen fm seen, \<lambda>(fm, seen, stack). length stack]", goal_cases)
  case (3 fm seen name stack)
  have "unseen fm (name # seen) \<le> unseen fm seen" unfolding unseen_def by (rule card_mono) auto
  then show ?case by (simp add: le_less)
next
  case (4 fm seen name stack feature)
  then have "name \<in> fst ` set fm" by (force dest: map_of_SomeD)
  with 4 have "unseen fm (name # seen) < unseen fm seen"
    unfolding unseen_def by (intro psubset_card_mono) auto
  then show ?case by simp
qed simp_all

definition reachable :: "index \<Rightarrow> string \<Rightarrow> feature_facts list" where
  "reachable ix feature = reachable_loop (ix_features ix) [] [feature]"

fun first_resource :: "index \<Rightarrow> string \<Rightarrow> feature_facts list \<Rightarrow> resource_facts option" where
  "first_resource ix name [] = None"
| "first_resource ix name (f # fs) = (case map_of (ix_resources ix) (ff_name f, name) of
     Some r \<Rightarrow> Some r | None \<Rightarrow> first_resource ix name fs)"

definition index_resource :: "index \<Rightarrow> string \<Rightarrow> qualified_name \<Rightarrow> resource_facts option" where
  "index_resource ix feature q = (case qn_feature q of
       Some owner \<Rightarrow> map_of (ix_resources ix) (owner, qn_name q)
     | None \<Rightarrow> first_resource ix (qn_name q) (reachable ix feature))"

section \<open>Overlaps\<close>

definition shared_triggers :: "command_facts \<Rightarrow> command_facts \<Rightarrow> string list" where
  "shared_triggers left right = bset_of (filter (\<lambda>t. t \<in> set (cf_triggers left)) (cf_triggers right))"

definition overlap_pair :: "string \<Rightarrow> command_facts \<Rightarrow> command_facts \<Rightarrow> diagnostic list" where
  "overlap_pair feature left right =
     (if cf_triggers right = [] then []
      else let shared = shared_triggers left right in
      if shared = [] then []
      else [diag ''LIFECYCLE-TRANSITION-003'' Warning
        (case cf_span right of Some s \<Rightarrow> Some s | None \<Rightarrow> cf_span left)
        (''commands `'' @ cf_name left @ ''` and `'' @ cf_name right @ ''` in feature `'' @ feature @
         ''` both trigger lifecycle transition(s): '' @ join '', '' shared @
         ''. Only one command should own each lifecycle transition.'')])"

fun overlap_commands :: "string \<Rightarrow> command_facts list \<Rightarrow> diagnostic list" where
  "overlap_commands feature [] = []"
| "overlap_commands feature (left # rest) =
     (if cf_triggers left = [] then [] else concat (map (overlap_pair feature left) rest)) @
     overlap_commands feature rest"

definition check_overlaps :: "feature_facts list \<Rightarrow> diagnostic list" where
  "check_overlaps features = concat (map (\<lambda>f. overlap_commands (ff_name f) (ff_commands f)) features)"

section \<open>One command\<close>

definition assigns_lifecycle_field :: "string list \<Rightarrow> lifecycle_facts option \<Rightarrow> bool" where
  "assigns_lifecycle_field assignments lifecycle =
     list_ex (\<lambda>field. field = ''lifecycle_state'' \<or>
       (case lifecycle of Some lc \<Rightarrow> field = lf_discriminator_field lc | None \<Rightarrow> False)) assignments"

type_synonym transition_map = "(string \<times> transition_facts) list"

definition transition_map :: "lifecycle_facts \<Rightarrow> transition_map" where
  "transition_map lc = bmap_of (map (\<lambda>t. (tf_name t, t)) (lf_transitions lc))"

fun missing_triggers :: "transition_map \<Rightarrow> string list \<Rightarrow> string list \<Rightarrow> string list" where
  "missing_triggers tm missing [] = []"
| "missing_triggers tm missing (trigger # triggers) =
     (if map_of tm trigger = None \<and> trigger \<notin> set missing
      then trigger # missing_triggers tm (trigger # missing) triggers
      else missing_triggers tm missing triggers)"

definition missing_diag :: "command_facts \<Rightarrow> resource_facts \<Rightarrow> transition_map \<Rightarrow> string \<Rightarrow> diagnostic" where
  "missing_diag command resource tm trigger =
     diag ''LIFECYCLE-TRANSITION-001'' Error (cf_span command)
       (''command `'' @ cf_name command @ ''` triggers `'' @ trigger @ ''`, but resource `'' @ rf_name resource @
        ''` declares no lifecycle transition with that name. Declared transitions: '' @
        list_or_none (map (\<lambda>name. ''`'' @ name @ ''`'') (map fst tm)) @ ''.'')"

definition gap_diag :: "command_facts \<Rightarrow> transition_map \<Rightarrow> string \<times> string \<Rightarrow> diagnostic list" where
  "gap_diag command tm = (\<lambda>(l, r). case map_of tm l of None \<Rightarrow> []
     | Some left \<Rightarrow> (case map_of tm r of None \<Rightarrow> []
       | Some right \<Rightarrow>
           if tf_to left \<in> set (tf_from right) then []
           else [diag ''LIFECYCLE-TRANSITION-006'' Error (cf_span command)
             (''command `'' @ cf_name command @ ''` triggers a non-contiguous lifecycle chain: `'' @ tf_name left @
              ''` ends at `'' @ tf_to left @ ''` but `'' @ tf_name right @ ''` starts from '' @
              list_or_none (tf_from right) @ ''.'')]))"

definition check_command :: "command_facts \<Rightarrow> index \<Rightarrow> diagnostic list" where
  "check_command command ix =
     (if cf_triggers command = [] then []
      else case cf_effect command of
        Other \<Rightarrow> [diag ''LIFECYCLE-TRANSITION-004'' Error (cf_span command)
          (''command `'' @ cf_name command @ ''` declares `triggers` but has no `updates` block to advance.'')]
      | Updates q assignments \<Rightarrow>
          let resource = index_resource ix (cf_feature command) q;
              lifecycle = Option.bind resource rf_lifecycle in
          (if assigns_lifecycle_field assignments lifecycle then
             [diag ''LIFECYCLE-TRANSITION-005'' Error (cf_span command)
               (''command `'' @ cf_name command @
                ''` both declares `triggers` and assigns the lifecycle discriminator directly; runtime owns lifecycle advancement.'')]
           else []) @
          (case resource of None \<Rightarrow> []
           | Some r \<Rightarrow> (case lifecycle of
               None \<Rightarrow> [diag ''LIFECYCLE-TRANSITION-002'' Error (cf_span command)
                 (''command `'' @ cf_name command @ ''` declares `triggers`, but updates resource `'' @ rf_name r @
                  ''` has no lifecycle block.'')]
             | Some lc \<Rightarrow>
                 let tm = transition_map lc; triggers = cf_triggers command in
                 map (missing_diag command r tm) (missing_triggers tm [] triggers) @
                 concat (map (gap_diag command tm) (zip triggers (tl triggers))))))"

definition check_input :: "feature_facts list \<Rightarrow> diagnostic list" where
  "check_input features =
     (let ix = index_new features in
      check_overlaps features @
      concat (map (\<lambda>f. concat (map (\<lambda>c. check_command c ix) (ff_commands f))) features))"

section \<open>Lifecycles as state machines\<close>

text \<open>A run fires the named transitions in order: each needs the current state among its sources and
  moves to its target. A later declaration of the same name overrides an earlier one, as in the
  code's map.\<close>

inductive lifecycle_run :: "transition_map \<Rightarrow> string \<Rightarrow> string list \<Rightarrow> string \<Rightarrow> bool" for tm where
  Done: "lifecycle_run tm s [] s"
| Fire: "map_of tm n = Some t \<Longrightarrow> s \<in> set (tf_from t) \<Longrightarrow> lifecycle_run tm (tf_to t) ns s' \<Longrightarrow>
    lifecycle_run tm s (n # ns) s'"

inductive_simps lifecycle_run_Nil [simp]: "lifecycle_run tm s [] s'"
inductive_simps lifecycle_run_Cons: "lifecycle_run tm s (n # ns) s'"

fun chain_ok :: "transition_map \<Rightarrow> string list \<Rightarrow> bool" where
  "chain_ok tm [] = True"
| "chain_ok tm [n] = (map_of tm n \<noteq> None)"
| "chain_ok tm (n # m # ns) = (chain_ok tm (m # ns) \<and>
     (case map_of tm n of None \<Rightarrow> False | Some l \<Rightarrow> (case map_of tm m of None \<Rightarrow> False
       | Some r \<Rightarrow> tf_to l \<in> set (tf_from r))))"

lemma chain_ok_run:
  "chain_ok tm (n # ns) \<longleftrightarrow> (\<exists>t s'. map_of tm n = Some t \<and> lifecycle_run tm (tf_to t) ns s')"
proof (induction ns arbitrary: n)
  case (Cons m ns)
  then show ?case by (auto simp: lifecycle_run_Cons split: option.splits)
qed auto

lemma chain_ok_runs:
  assumes "ns \<noteq> []" "\<forall>(n, t) \<in> set tm. tf_from t \<noteq> []"
  shows "chain_ok tm ns \<longleftrightarrow> (\<exists>s s'. lifecycle_run tm s ns s')"
proof -
  obtain n ms where ns: "ns = n # ms" using assms(1) by (cases ns) auto
  have "\<exists>s. s \<in> set (tf_from t)" if "map_of tm n = Some t" for t
    using assms(2) map_of_SomeD[OF that] by (cases "tf_from t") auto
  then show ?thesis unfolding ns chain_ok_run lifecycle_run_Cons by blast
qed

lemma missing_triggers_Nil_iff:
  "set missing \<inter> set ns = {} \<Longrightarrow> missing_triggers tm missing ns = [] \<longleftrightarrow> (\<forall>n \<in> set ns. map_of tm n \<noteq> None)"
  by (induction ns) auto

lemma chain_ok_checks:
  "chain_ok tm ns \<longleftrightarrow> missing_triggers tm [] ns = [] \<and> concat (map (gap_diag c tm) (zip ns (tl ns))) = []"
proof -
  have "chain_ok tm ns \<longleftrightarrow>
      (\<forall>n \<in> set ns. map_of tm n \<noteq> None) \<and> concat (map (gap_diag c tm) (zip ns (tl ns))) = []"
    by (induction tm ns rule: chain_ok.induct) (auto simp: gap_diag_def split: option.splits)
  then show ?thesis by (simp add: missing_triggers_Nil_iff)
qed


section \<open>The walk over uses\<close>

definition uses_rel :: "(string \<times> feature_facts) list \<Rightarrow> (string \<times> string) set" where
  "uses_rel fm = {(a, b). \<exists>f. map_of fm a = Some f \<and> b \<in> set (ff_uses f)}"

lemma reachable_loop_set:
  "\<forall>v \<in> set seen. \<forall>b. (v, b) \<in> uses_rel fm \<longrightarrow> b \<in> set seen \<union> set stack \<Longrightarrow>
   set (reachable_loop fm seen stack) =
     {f. \<exists>x \<in> (uses_rel fm)\<^sup>* `` (set stack \<union> set seen) - set seen. map_of fm x = Some f}"
proof (induction fm seen stack rule: reachable_loop.induct)
  case (1 fm seen)
  have "(uses_rel fm)\<^sup>* `` set seen = set seen"
    using 1 by (intro Image_closed_trancl) auto
  then show ?case by simp
next
  case (2 fm seen name stack)
  let ?R = "uses_rel fm"
  show ?case
  proof (cases "name \<in> set seen")
    case True
    then have "set (name # stack) \<union> set seen = set stack \<union> set seen" by auto
    with True "2.IH"(1)[OF True] "2.prems" show ?thesis by auto
  next
    case fresh: False
    show ?thesis
    proof (cases "map_of fm name")
      case None
      then have sets: "set stack \<union> set (name # seen) = set (name # stack) \<union> set seen" by auto
      have "\<forall>v \<in> set (name # seen). \<forall>b. (v, b) \<in> ?R \<longrightarrow> b \<in> set (name # seen) \<union> set stack"
        using "2.prems" None by (auto simp: uses_rel_def)
      from "2.IH"(2)[OF fresh None this] have
        "set (reachable_loop fm seen (name # stack)) =
          {f. \<exists>x \<in> ?R\<^sup>* `` (set (name # stack) \<union> set seen) - set (name # seen). map_of fm x = Some f}"
        unfolding sets using fresh None by simp
      also have "\<dots> = {f. \<exists>x \<in> ?R\<^sup>* `` (set (name # stack) \<union> set seen) - set seen. map_of fm x = Some f}"
        using None by auto
      finally show ?thesis .
    next
      case (Some f)
      have new: "set (ff_uses f) = {b. (name, b) \<in> ?R}" using Some by (auto simp: uses_rel_def)
      have sets: "?R\<^sup>* `` (set (ff_uses f @ stack) \<union> set (name # seen)) = ?R\<^sup>* `` (set (name # stack) \<union> set seen)"
        unfolding set_append new by (auto intro: converse_rtrancl_into_rtrancl)
      have "\<forall>v \<in> set (name # seen). \<forall>b. (v, b) \<in> ?R \<longrightarrow> b \<in> set (name # seen) \<union> set (ff_uses f @ stack)"
        using "2.prems" unfolding set_append new by auto
      from "2.IH"(3)[OF fresh Some this] have
        "set (reachable_loop fm seen (name # stack)) = insert f
          {f. \<exists>x \<in> ?R\<^sup>* `` (set (name # stack) \<union> set seen) - set (name # seen). map_of fm x = Some f}"
        unfolding sets using fresh Some by simp
      also have "\<dots> = {f. \<exists>x \<in> ?R\<^sup>* `` (set (name # stack) \<union> set seen) - set seen. map_of fm x = Some f}"
        using Some fresh by auto
      finally show ?thesis .
    qed
  qed
qed

lemma reachable_loop_names:
  "(\<And>k f. map_of fm k = Some f \<Longrightarrow> ff_name f = k) \<Longrightarrow>
   distinct (map ff_name (reachable_loop fm seen stack)) \<and>
   set (map ff_name (reachable_loop fm seen stack)) \<inter> set seen = {}"
  by (induction fm seen stack rule: reachable_loop.induct) (auto split: option.splits)

lemma index_feature_name: "map_of (ix_features (index_new features)) k = Some f \<Longrightarrow> ff_name f = k \<and> f \<in> set features"
  by (auto simp: index_new_def lookup_bmap_of dest!: map_of_SomeD)

section \<open>Overlapping triggers\<close>

lemma overlap_pair_Nil_iff: "overlap_pair feature l r = [] \<longleftrightarrow> set (cf_triggers l) \<inter> set (cf_triggers r) = {}"
proof -
  have "shared_triggers l r = [] \<longleftrightarrow> set (shared_triggers l r) = {}" by simp
  also have "\<dots> \<longleftrightarrow> set (cf_triggers l) \<inter> set (cf_triggers r) = {}"
    unfolding shared_triggers_def set_bset_of by auto
  finally show ?thesis by (auto simp: overlap_pair_def Let_def)
qed

lemma overlap_commands_Nil_iff:
  "overlap_commands feature cs = [] \<longleftrightarrow>
   sorted_wrt (\<lambda>l r. set (cf_triggers l) \<inter> set (cf_triggers r) = {}) cs"
  by (induction cs) (auto simp: overlap_pair_Nil_iff)

section \<open>Properties\<close>

text \<open>
  The walk over \<^verbatim>\<open>uses\<close> returns exactly the declared features that the start feature reaches
  through \<^verbatim>\<open>uses\<close> (itself included when declared), each once, whatever cycles or undeclared names
  \<^verbatim>\<open>uses\<close> contains.
\<close>

lemma reachable_exact:
  "set (map ff_name (reachable (index_new features) start)) =
     {b \<in> ff_name ` set features. (start, b) \<in> (uses_rel (ix_features (index_new features)))\<^sup>*} \<and>
   distinct (map ff_name (reachable (index_new features) start))"
proof
  let ?fm = "ix_features (index_new features)"
  have name: "ff_name f = k" if "map_of ?fm k = Some f" for k f using index_feature_name[OF that] by simp
  have dom: "(\<exists>f. map_of ?fm k = Some f) \<longleftrightarrow> k \<in> ff_name ` set features" for k
  proof -
    have "fst ` set (rev (map (\<lambda>f. (ff_name f, f)) features)) = ff_name ` set features" by force
    then have "map_of (rev (map (\<lambda>f. (ff_name f, f)) features)) k = None \<longleftrightarrow> k \<notin> ff_name ` set features"
      unfolding map_of_eq_None_iff by simp
    then show ?thesis
      by (cases "map_of (rev (map (\<lambda>f. (ff_name f, f)) features)) k") (simp_all add: index_new_def lookup_bmap_of)
  qed
  have "set (reachable (index_new features) start) = {f. \<exists>x \<in> (uses_rel ?fm)\<^sup>* `` {start}. map_of ?fm x = Some f}"
    using reachable_loop_set[of "[]" ?fm "[start]"] by (simp add: reachable_def)
  moreover have "ff_name ` {f. \<exists>x \<in> (uses_rel ?fm)\<^sup>* `` {start}. map_of ?fm x = Some f} =
      {b. (start, b) \<in> (uses_rel ?fm)\<^sup>* \<and> (\<exists>f. map_of ?fm b = Some f)}" (is "?L = ?R")
  proof
    show "?L \<subseteq> ?R"
    proof (clarsimp)
      fix f x assume "(start, x) \<in> (uses_rel ?fm)\<^sup>*" "map_of ?fm x = Some f"
      moreover from this(2) have "ff_name f = x" by (rule name)
      ultimately show "(start, ff_name f) \<in> (uses_rel ?fm)\<^sup>* \<and> (\<exists>g. map_of ?fm (ff_name f) = Some g)" by blast
    qed
    show "?R \<subseteq> ?L"
    proof (clarify)
      fix b f assume "(start, b) \<in> (uses_rel ?fm)\<^sup>*" and m: "map_of ?fm b = Some f"
      then have "f \<in> {f. \<exists>x \<in> (uses_rel ?fm)\<^sup>* `` {start}. map_of ?fm x = Some f}" by blast
      then have "ff_name f \<in> ?L" by (rule imageI)
      then show "b \<in> ?L" unfolding name[OF m] .
    qed
  qed
  ultimately have "set (map ff_name (reachable (index_new features) start)) =
      {b. (start, b) \<in> (uses_rel ?fm)\<^sup>* \<and> (\<exists>f. map_of ?fm b = Some f)}"
    by simp
  then show "set (map ff_name (reachable (index_new features) start)) =
      {b \<in> ff_name ` set features. (start, b) \<in> (uses_rel ?fm)\<^sup>*}"
    unfolding dom by blast
  show "distinct (map ff_name (reachable (index_new features) start))"
    unfolding reachable_def using reachable_loop_names[OF name] by blast
qed

lemma check_command_run_iff:
  assumes "cf_triggers command \<noteq> []" "cf_effect command = Updates q assignments"
    "index_resource ix (cf_feature command) q = Some resource" "rf_lifecycle resource = Some lc"
    "\<forall>t \<in> set (lf_transitions lc). tf_from t \<noteq> []"
  shows "check_command command ix = [] \<longleftrightarrow>
    \<not> assigns_lifecycle_field assignments (Some lc) \<and>
    (\<exists>s s'. lifecycle_run (transition_map lc) s (cf_triggers command) s')"
proof -
  have "\<forall>(n, t) \<in> set (transition_map lc). tf_from t \<noteq> []"
  proof (clarify)
    fix n t assume "(n, t) \<in> set (transition_map lc)"
    then have "map_of (rev (map (\<lambda>t. (tf_name t, t)) (lf_transitions lc))) n = Some t"
      unfolding transition_map_def bmap_entry_iff lookup_bmap_of .
    then have "t \<in> set (lf_transitions lc)" by (auto dest!: map_of_SomeD)
    moreover assume "tf_from t = []"
    ultimately show False using assms(5) by blast
  qed
  with chain_ok_runs[OF assms(1)] have
    "chain_ok (transition_map lc) (cf_triggers command) \<longleftrightarrow>
      (\<exists>s s'. lifecycle_run (transition_map lc) s (cf_triggers command) s')" by blast
  then show ?thesis
    using assms(1-4) chain_ok_checks[of "transition_map lc" "cf_triggers command" command]
    by (simp add: check_command_def Let_def)
qed

text \<open>
  C21. The per-command check is sound and complete for trigger chains: for a command that updates a
  resource with a lifecycle (whose transitions all have a source, as the parser guarantees), the check
  is silent exactly when the command does not assign the discriminator itself and its triggers, fired
  in order, are a run of the lifecycle from some state.
\<close>

theorem check_command_silent_iff_run:
  assumes "cf_triggers command \<noteq> []" "cf_effect command = Updates q assignments"
    "index_resource ix (cf_feature command) q = Some resource" "rf_lifecycle resource = Some lc"
    "\<forall>t \<in> set (lf_transitions lc). tf_from t \<noteq> []"
  shows "check_command command ix = [] \<longleftrightarrow>
    \<not> assigns_lifecycle_field assignments (Some lc) \<and>
    (\<exists>s s'. lifecycle_run (transition_map lc) s (cf_triggers command) s')"
  using assms by (rule check_command_run_iff)

text \<open>The lifecycle of the example: a draft is submitted, then approved.\<close>

definition sample_facts :: "feature_facts list" where
  "sample_facts = [\<lparr>ff_name = ''docs'', ff_uses = [],
     ff_resources = [\<lparr>rf_name = ''doc'', rf_lifecycle = Some \<lparr>lf_discriminator_field = ''status'', lf_transitions =
       [\<lparr>tf_name = ''submit'', tf_from = [''draft''], tf_to = ''review''\<rparr>,
        \<lparr>tf_name = ''approve'', tf_from = [''review''], tf_to = ''done''\<rparr>]\<rparr>\<rparr>],
     ff_commands = [\<lparr>cf_feature = ''docs'', cf_name = ''publish'', cf_triggers = [''submit'', ''approve''],
       cf_effect = Updates \<lparr>qn_feature = None, qn_name = ''doc''\<rparr> [''title''], cf_span = None\<rparr>]\<rparr>]"

theorem check_command_silent_iff_run_witness:
  "let ix = index_new sample_facts; command = hd (ff_commands (hd sample_facts)) in
   check_command command ix = [] \<and>
   (\<exists>s s'. lifecycle_run (transition_map (the (rf_lifecycle (hd (ff_resources (hd sample_facts)))))) s
      (cf_triggers command) s')"
proof -
  let ?ix = "index_new sample_facts" and ?c = "hd (ff_commands (hd sample_facts))"
  let ?r = "hd (ff_resources (hd sample_facts))"
  let ?lc = "the (rf_lifecycle ?r)"
  have silent: "check_command ?c ?ix = []" by code_simp
  have "cf_triggers ?c \<noteq> []" "cf_effect ?c = Updates \<lparr>qn_feature = None, qn_name = ''doc''\<rparr> [''title'']"
    "rf_lifecycle ?r = Some ?lc" "\<forall>t \<in> set (lf_transitions ?lc). tf_from t \<noteq> []"
    by (simp_all add: sample_facts_def)
  moreover have "index_resource ?ix (cf_feature ?c) \<lparr>qn_feature = None, qn_name = ''doc''\<rparr> = Some ?r" by code_simp
  ultimately show ?thesis
    using check_command_silent_iff_run[of ?c _ _ ?ix ?r ?lc] silent by (simp add: Let_def)
qed

text \<open>
  The overlap check is silent exactly when, within each feature, no lifecycle transition is
  triggered by two commands.
\<close>

lemma check_overlaps_silent_iff:
  "check_overlaps features = [] \<longleftrightarrow>
   (\<forall>f \<in> set features. sorted_wrt (\<lambda>l r. set (cf_triggers l) \<inter> set (cf_triggers r) = {}) (ff_commands f))"
  by (auto simp: check_overlaps_def overlap_commands_Nil_iff)

lemma check_overlaps_silent_iff_example:
  "check_overlaps sample_facts = []"
  using check_overlaps_silent_iff[of sample_facts] by (simp add: sample_facts_def)

end
