(* ===== verification/Type_Syntax.thy ===== *)
theory Type_Syntax
  imports Ir_Core Source_Text
begin

text \<open>
  Lowering of type tokens (\<^verbatim>\<open>lazuli_analyzer/src/types.rs\<close>, with the token scanner of
  \<^verbatim>\<open>helpers.rs\<close>): from the text after the colon of a field to a \<open>TypeRef\<close>, with the list forms, the
  member access \<^verbatim>\<open>.ID\<close>, the capability decorators and the closed catalog of semantic types. A Rust
  \<^verbatim>\<open>match\<close> on a type name is a lookup in an association list, and the ordered map of capability
  arguments, which is only looked up, is a map. The recursion is on ever shorter texts.

  Shown here: every printed type, in either spelling and with any trailing decorators, lowers to the
  type it was printed from; file sizes are read at their width.
\<close>

section \<open>The token scanner\<close>

fun top_level_ws :: "int \<Rightarrow> string \<Rightarrow> nat option" where
  "top_level_ws depth [] = None"
| "top_level_ws depth (c # s) =
     (if c = CHR ''('' \<or> c = CHR ''['' then map_option Suc (top_level_ws (depth + 1) s)
      else if c = CHR '')'' \<or> c = CHR '']'' then map_option Suc (top_level_ws (depth - 1) s)
      else if strip_ws_char (c # s) \<noteq> None \<and> depth = 0 then Some 0
      else map_option Suc (top_level_ws depth s))"

definition first_paren_balanced_token :: "string \<Rightarrow> string" where
  "first_paren_balanced_token text0 =
     (let text = trim text0 in
      case top_level_ws 0 text of Some idx \<Rightarrow> trim_end (take idx text) | None \<Rightarrow> text)"

section \<open>Capabilities\<close>

definition strip_cap :: "string \<Rightarrow> string \<Rightarrow> string option" where
  "strip_cap ty name =
     (case (case strip_prefix (''@cap.'' @ name @ ''('') ty of
              Some r \<Rightarrow> Some r | None \<Rightarrow> strip_prefix (name @ ''('') ty) of
        None \<Rightarrow> None
      | Some inner \<Rightarrow> strip_suffix '')'' inner)"

definition parse_capability_args :: "string \<Rightarrow> string \<rightharpoonup> string" where
  "parse_capability_args inner = map_of (rev (List.map_filter
     (\<lambda>part. map_option (\<lambda>(k, v). (trim k, trim v)) (split_once CHR '':'' part))
     (filter (\<lambda>part. part \<noteq> []) (map trim (split_on CHR '','' inner)))))"

definition parse_file_size :: "string \<Rightarrow> file_size option" where
  "parse_file_size raw =
     (let digits = takeWhile is_ascii_digit raw; unit = dropWhile is_ascii_digit raw in
      if digits = [] \<or> unit = [] then None
      else case parse_u32 digits of
          None \<Rightarrow> None
        | Some n \<Rightarrow>
            let amount = word_of_nat n in
            case map_of [(''kb'', Kb amount), (''mb'', Mb amount), (''gb'', Gb amount)] unit of
              None \<Rightarrow> None
            | Some literal \<Rightarrow> Some \<lparr>fz_bytes = file_size_bytes literal, fz_literal = literal\<rparr>)"

fun parse_mimes :: "string list \<Rightarrow> mime_type list option" where
  "parse_mimes [] = Some []"
| "parse_mimes (raw # rest) =
     (let token = trim raw in
      if token = [] then None
      else case split_once CHR ''/'' token of
          None \<Rightarrow> None
        | Some (family0, subtype0) \<Rightarrow>
            let family = trim family0; subtype = trim subtype0 in
            if family = [] \<or> subtype = [] then None
            else map_option ((#) \<lparr>mt_family = family, mt_subtype = subtype\<rparr>) (parse_mimes rest))"

definition parse_mime_list :: "string \<Rightarrow> mime_type list option" where
  "parse_mime_list raw = parse_mimes (split_on CHR ''|'' raw)"

definition parse_file_visibility :: "string \<Rightarrow> FileVisibility option" where
  "parse_file_visibility raw =
     map_of [(''public'', Public), (''private'', Private), (''signed'', Signed)] raw"

definition unquote_capability_arg :: "string \<Rightarrow> string" where
  "unquote_capability_arg value =
     (case Option.bind (strip_prefix [dquote] value) (strip_suffix [dquote]) of Some r \<Rightarrow> r | None \<Rightarrow> value)"

definition parse_cap_hashed_type :: "string \<Rightarrow> HashAlgorithm option" where
  "parse_cap_hashed_type ty =
     Option.bind (strip_cap ty ''Hashed'') (\<lambda>inner.
     Option.bind (parse_capability_args inner ''algorithm'')
       (map_of [(''argon2id'', Argon2id), (''bcrypt'', Bcrypt)]))"

definition parse_cap_key :: "string \<Rightarrow> string \<Rightarrow> string option" where
  "parse_cap_key name ty =
     Option.bind (strip_cap ty name) (\<lambda>inner.
     Option.bind (parse_capability_args inner ''key'') (\<lambda>key.
       if starts_with key ''@key.'' then Some key else None))"

definition parse_cap_encrypted_type :: "string \<Rightarrow> string option" where
  "parse_cap_encrypted_type ty = parse_cap_key ''Encrypted'' ty"

definition parse_cap_e2ee_type :: "string \<Rightarrow> string option" where
  "parse_cap_e2ee_type ty = parse_cap_key ''E2ee'' ty"

definition parse_cap_token_type :: "string \<Rightarrow> token_capability option" where
  "parse_cap_token_type ty =
     Option.bind (strip_cap ty ''Token'') (\<lambda>inner.
     let args = parse_capability_args inner in
     Option.bind (args ''ttl'') (\<lambda>ttl.
     Option.bind (Option.bind (args ''single_use'') (map_of [(''true'', True), (''false'', False)])) (\<lambda>single_use.
     Option.bind (Option.bind (args ''store'') (map_of [(''hashed'', HashedStore)])) (\<lambda>store.
       Some \<lparr>tk_ttl = ttl, tk_single_use = single_use, tk_store = store\<rparr>))))"

definition parse_cap_file_type :: "string \<Rightarrow> file_capability option" where
  "parse_cap_file_type ty0 =
     (let ty = first_paren_balanced_token ty0 in
     Option.bind (strip_cap ty ''File'') (\<lambda>inner.
     let args = parse_capability_args inner in
     Option.bind (Option.bind (args ''max_size'') parse_file_size) (\<lambda>max_size.
     Option.bind (Option.bind (args ''accept'') parse_mime_list) (\<lambda>accept.
       if accept = [] then None
       else Some \<lparr>fc_max_size = max_size, fc_accept = accept,
         fc_visibility = Option.bind (args ''visibility'') parse_file_visibility,
         fc_signed_ttl = args ''signed_ttl'', fc_auto_photo_policy = args ''auto_photo_policy''\<rparr>))))"

definition parse_cap_pii_type :: "string \<Rightarrow> pii_capability option" where
  "parse_cap_pii_type ty0 =
     (let ty = first_paren_balanced_token ty0 in
     Option.bind (strip_cap ty ''PII'') (\<lambda>inner.
     let args = parse_capability_args inner in
     Option.bind (map_option unquote_capability_arg (args ''class'')) (\<lambda>class'.
       if class' = [] then None
       else let retention = map_option unquote_capability_arg (args ''retention'') in
       case args ''log_redact'' of
         None \<Rightarrow> Some \<lparr>pc_class = class', pc_retention = retention, pc_log_redact = None\<rparr>
       | Some v \<Rightarrow>
           if v = ''true'' then Some \<lparr>pc_class = class', pc_retention = retention, pc_log_redact = Some True\<rparr>
           else if v = ''false'' then Some \<lparr>pc_class = class', pc_retention = retention, pc_log_redact = Some False\<rparr>
           else None)))"

definition parse_semantic_money_type :: "string \<Rightarrow> BuiltinType option" where
  "parse_semantic_money_type ty =
     Option.bind (case strip_prefix ''@semantic.Money('' ty of
                    Some r \<Rightarrow> Some r | None \<Rightarrow> strip_prefix ''Money('' ty) (\<lambda>r.
     Option.bind (strip_suffix '')'' r) (\<lambda>inner.
     Option.bind (parse_capability_args inner ''currency'') (\<lambda>raw.
       map_option SemanticMoney (from_iso raw))))"

section \<open>Type names\<close>

definition semantic_names :: "(string \<times> BuiltinType) list" where
  "semantic_names =
     [(''Email'', SemanticEmail), (''@semantic.Email'', SemanticEmail),
      (''Phone'', SemanticPhone), (''@semantic.Phone'', SemanticPhone),
      (''Url'', SemanticUrl), (''@semantic.Url'', SemanticUrl),
      (''Uuid'', SemanticUuid), (''@semantic.Uuid'', SemanticUuid),
      (''Currency'', SemanticCurrency), (''@semantic.Currency'', SemanticCurrency),
      (''GeoPoint'', SemanticGeoPoint), (''@semantic.GeoPoint'', SemanticGeoPoint),
      (''HexColor'', SemanticHexColor), (''@semantic.HexColor'', SemanticHexColor),
      (''Percentage'', SemanticPercentage), (''@semantic.Percentage'', SemanticPercentage),
      (''PositiveDecimal'', SemanticPositiveDecimal), (''@semantic.PositiveDecimal'', SemanticPositiveDecimal),
      (''NonNegativeInt'', SemanticNonNegativeInt), (''@semantic.NonNegativeInt'', SemanticNonNegativeInt),
      (''Money'', SemanticMoney BRL), (''@semantic.Money'', SemanticMoney BRL)]"

definition builtin_names :: "(string \<times> BuiltinType) list" where
  "builtin_names =
     [(''ID'', BtId), (''Id'', BtId), (''Text'', BtText), (''String'', BtText),
      (''Boolean'', BtBoolean), (''Bool'', BtBoolean), (''Integer'', BtInteger), (''Int'', BtInteger),
      (''Decimal'', BtDecimal), (''Float'', BtDecimal), (''Money'', SemanticMoney BRL),
      (''Date'', BtDate), (''DateTime'', BtDateTime), (''JSON'', BtJson), (''Json'', BtJson),
      (''Email'', SemanticEmail)]"

definition is_id_member :: "string \<Rightarrow> bool" where
  "is_id_member ty =
     (case (case strip_suffix ''.ID'' ty of Some p \<Rightarrow> Some p | None \<Rightarrow> strip_suffix ''.Id'' ty) of
        None \<Rightarrow> False
      | Some prefix' \<Rightarrow> prefix' \<noteq> [] \<and> CHR ''.'' \<notin> set prefix')"

definition scalar_type_ref :: "string \<Rightarrow> TypeRef" where
  "scalar_type_ref ty =
     (if is_id_member ty then Builtin BtId
      else (case parse_cap_file_type ty of Some file \<Rightarrow> Capability (File file) | None \<Rightarrow>
      (case parse_cap_pii_type ty of Some pii \<Rightarrow> Capability (PII pii) | None \<Rightarrow>
      (case parse_cap_hashed_type ty of Some hashed \<Rightarrow> Capability (Hashed hashed) | None \<Rightarrow>
      (case parse_cap_encrypted_type ty of Some encrypted \<Rightarrow> Capability (Encrypted encrypted) | None \<Rightarrow>
      (case parse_cap_e2ee_type ty of Some e2ee \<Rightarrow> Capability (E2ee e2ee) | None \<Rightarrow>
      (case parse_cap_token_type ty of Some token \<Rightarrow> Capability (Token token) | None \<Rightarrow>
      (case parse_semantic_money_type ty of Some money \<Rightarrow> Builtin money | None \<Rightarrow>
      (case map_of semantic_names ty of Some b \<Rightarrow> Builtin b | None \<Rightarrow>
      (case map_of builtin_names ty of Some b \<Rightarrow> Builtin b | None \<Rightarrow>
        UserDefined \<lparr>qn_feature = None, qn_name = ty\<rparr>))))))))))"

definition list_inner :: "string \<Rightarrow> string option" where
  "list_inner raw =
     (case strip_prefix ''list of '' raw of Some r \<Rightarrow> Some r | None \<Rightarrow>
      case strip_prefix ''List of '' raw of Some r \<Rightarrow> Some r | None \<Rightarrow>
      case strip_prefix ''list '' raw of Some r \<Rightarrow> Some r | None \<Rightarrow> strip_prefix ''List '' raw)"

lemma length_first_token: "length (first_paren_balanced_token s) \<le> length s"
proof -
  have "length (trim_end (take i (trim s))) \<le> length s" for i
    using length_trim_end[of "take i (trim s)"] length_trim[of s] by (simp del: length_trim_end length_trim)
  then show ?thesis by (simp add: first_paren_balanced_token_def Let_def split: option.split)
qed

lemma length_list_inner: "list_inner raw = Some inner \<Longrightarrow> length inner < length raw"
  by (auto simp: list_inner_def strip_prefix_Some_iff split: option.splits)

function type_ref_from_syntax :: "string \<Rightarrow> TypeRef" where
  "type_ref_from_syntax ty0 =
     (let raw = trim ty0 in
      case list_inner raw of
        Some inner \<Rightarrow> Many (type_ref_from_syntax (trim inner))
      | None \<Rightarrow>
          let ty = first_paren_balanced_token raw in
          case strip_suffix ''[]'' ty of
            Some stripped \<Rightarrow> Many (type_ref_from_syntax (trim_end stripped))
          | None \<Rightarrow> scalar_type_ref ty)"
  by pat_completeness auto
termination
proof (relation "measure length")
  fix ty0 raw inner
  assume "raw = trim ty0" "list_inner raw = Some inner"
  then show "(trim inner, ty0) \<in> measure length"
    using length_list_inner[of raw inner] length_trim[of inner] length_trim[of ty0] by (simp del: length_trim)
next
  fix ty0 raw ty stripped
  assume "raw = trim ty0" "ty = first_paren_balanced_token raw" "strip_suffix ''[]'' ty = Some stripped"
  then show "(trim_end stripped, ty0) \<in> measure length"
    using length_first_token[of raw] length_trim[of ty0] length_trim_end[of stripped]
    by (simp add: strip_suffix_Some_iff del: length_trim length_trim_end)
qed simp

declare type_ref_from_syntax.simps [simp del]

definition type_ref_from_text :: "string \<Rightarrow> TypeRef" where
  "type_ref_from_text t = type_ref_from_syntax (trim t)"


section \<open>Printing\<close>

text \<open>The author's notation for a type: bare, or with the deprecated sigil (\<open>sigil\<close>).\<close>

fun show_builtin :: "bool \<Rightarrow> BuiltinType \<Rightarrow> string" where
  "show_builtin sigil BtId = ''ID''"
| "show_builtin sigil BtText = ''Text''"
| "show_builtin sigil BtBoolean = ''Boolean''"
| "show_builtin sigil BtInteger = ''Integer''"
| "show_builtin sigil BtDecimal = ''Decimal''"
| "show_builtin sigil BtDate = ''Date''"
| "show_builtin sigil BtDateTime = ''DateTime''"
| "show_builtin sigil BtJson = ''JSON''"
| "show_builtin sigil SemanticEmail = (if sigil then ''@semantic.Email'' else ''Email'')"
| "show_builtin sigil (SemanticMoney c) =
     (if sigil then ''@semantic.Money(currency:'' else ''Money(currency:'') @ as_iso c @ '')''"
| "show_builtin sigil SemanticPhone = (if sigil then ''@semantic.Phone'' else ''Phone'')"
| "show_builtin sigil SemanticUrl = (if sigil then ''@semantic.Url'' else ''Url'')"
| "show_builtin sigil SemanticUuid = (if sigil then ''@semantic.Uuid'' else ''Uuid'')"
| "show_builtin sigil SemanticCurrency = (if sigil then ''@semantic.Currency'' else ''Currency'')"
| "show_builtin sigil SemanticGeoPoint = (if sigil then ''@semantic.GeoPoint'' else ''GeoPoint'')"
| "show_builtin sigil SemanticHexColor = (if sigil then ''@semantic.HexColor'' else ''HexColor'')"
| "show_builtin sigil SemanticPercentage = (if sigil then ''@semantic.Percentage'' else ''Percentage'')"
| "show_builtin sigil SemanticPositiveDecimal =
     (if sigil then ''@semantic.PositiveDecimal'' else ''PositiveDecimal'')"
| "show_builtin sigil SemanticNonNegativeInt =
     (if sigil then ''@semantic.NonNegativeInt'' else ''NonNegativeInt'')"
| "show_builtin sigil (SemanticPluginType _ _) = []"
| "show_builtin sigil CapSecret = []"
| "show_builtin sigil CapFile = []"

definition show_arg :: "string \<times> string \<Rightarrow> string" where
  "show_arg kv = fst kv @ CHR '':'' # snd kv"

definition show_cap :: "bool \<Rightarrow> string \<Rightarrow> (string \<times> string) list \<Rightarrow> string" where
  "show_cap sigil name args =
     (if sigil then ''@cap.'' else []) @ name @ CHR ''('' # join '','' (map show_arg args) @ '')''"

fun show_size :: "FileSizeLiteral \<Rightarrow> string" where
  "show_size (Kb n) = nat_to_string (unat n) @ ''kb''"
| "show_size (Mb n) = nat_to_string (unat n) @ ''mb''"
| "show_size (Gb n) = nat_to_string (unat n) @ ''gb''"

definition show_mime :: "mime_type \<Rightarrow> string" where
  "show_mime m = mt_family m @ CHR ''/'' # mt_subtype m"

fun show_visibility :: "FileVisibility \<Rightarrow> string" where
  "show_visibility Public = ''public''"
| "show_visibility Private = ''private''"
| "show_visibility Signed = ''signed''"

definition opt_arg :: "string \<Rightarrow> string option \<Rightarrow> (string \<times> string) list" where
  "opt_arg k v = (case v of None \<Rightarrow> [] | Some x \<Rightarrow> [(k, x)])"

definition show_flag :: "bool \<Rightarrow> string" where
  "show_flag b = (if b then ''true'' else ''false'')"

fun cap_name :: "CapabilityRef \<Rightarrow> string" where
  "cap_name (File _) = ''File''"
| "cap_name (PII _) = ''PII''"
| "cap_name (Hashed _) = ''Hashed''"
| "cap_name (Encrypted _) = ''Encrypted''"
| "cap_name (E2ee _) = ''E2ee''"
| "cap_name (Token _) = ''Token''"

fun cap_args :: "CapabilityRef \<Rightarrow> (string \<times> string) list" where
  "cap_args (File f) =
     (''max_size'', show_size (fz_literal (fc_max_size f))) #
     (''accept'', join ''|'' (map show_mime (fc_accept f))) #
     opt_arg ''visibility'' (map_option show_visibility (fc_visibility f)) @
     opt_arg ''signed_ttl'' (fc_signed_ttl f) @ opt_arg ''auto_photo_policy'' (fc_auto_photo_policy f)"
| "cap_args (PII p) = (''class'', pc_class p) # opt_arg ''retention'' (pc_retention p) @
     opt_arg ''log_redact'' (map_option show_flag (pc_log_redact p))"
| "cap_args (Hashed h) = [(''algorithm'', case h of Argon2id \<Rightarrow> ''argon2id'' | Bcrypt \<Rightarrow> ''bcrypt'')]"
| "cap_args (Encrypted k) = [(''key'', k)]"
| "cap_args (E2ee k) = [(''key'', k)]"
| "cap_args (Token t) = [(''ttl'', tk_ttl t), (''single_use'', show_flag (tk_single_use t)), (''store'', ''hashed'')]"

fun show_type :: "bool \<Rightarrow> TypeRef \<Rightarrow> string" where
  "show_type sigil (Builtin b) = show_builtin sigil b"
| "show_type sigil (UserDefined q) = qn_name q"
| "show_type sigil (Many t) = show_type sigil t @ ''[]''"
| "show_type sigil (Capability c) = show_cap sigil (cap_name c) (cap_args c)"
| "show_type sigil (EnumRef _) = []"
| "show_type sigil (Unresolved _) = []"

text \<open>The types an author can write down.\<close>

definition arg_char :: "char \<Rightarrow> bool" where
  "arg_char c \<longleftrightarrow> graphic c \<and> c \<notin> set ''(),[]'' \<and> c \<noteq> dquote"

definition arg_word :: "string \<Rightarrow> bool" where
  "arg_word s \<longleftrightarrow> s \<noteq> [] \<and> list_all arg_char s"

definition wf_mime :: "mime_type \<Rightarrow> bool" where
  "wf_mime m \<longleftrightarrow> arg_word (mt_family m) \<and> arg_word (mt_subtype m) \<and>
     CHR ''/'' \<notin> set (mt_family m) \<and> CHR ''|'' \<notin> set (mt_family m) \<and> CHR ''|'' \<notin> set (mt_subtype m)"

fun wf_cap :: "CapabilityRef \<Rightarrow> bool" where
  "wf_cap (File f) \<longleftrightarrow> fz_bytes (fc_max_size f) = file_size_bytes (fz_literal (fc_max_size f)) \<and>
     fc_accept f \<noteq> [] \<and> list_all wf_mime (fc_accept f) \<and>
     pred_option arg_word (fc_signed_ttl f) \<and> pred_option arg_word (fc_auto_photo_policy f)"
| "wf_cap (PII p) \<longleftrightarrow> arg_word (pc_class p) \<and> pred_option arg_word (pc_retention p)"
| "wf_cap (Hashed h) \<longleftrightarrow> True"
| "wf_cap (Encrypted k) \<longleftrightarrow> arg_word k \<and> starts_with k ''@key.''"
| "wf_cap (E2ee k) \<longleftrightarrow> arg_word k \<and> starts_with k ''@key.''"
| "wf_cap (Token t) \<longleftrightarrow> arg_word (tk_ttl t)"

definition type_name :: "string \<Rightarrow> bool" where
  "type_name s \<longleftrightarrow> s \<noteq> [] \<and> list_all (\<lambda>c. is_ascii_alphanumeric c \<or> c = CHR ''_'') s \<and>
     s \<notin> set [''list'', ''List'', ''of''] \<and> map_of semantic_names s = None \<and> map_of builtin_names s = None"

fun wf_type :: "TypeRef \<Rightarrow> bool" where
  "wf_type (Builtin b) \<longleftrightarrow> (case b of SemanticPluginType _ _ \<Rightarrow> False | CapSecret \<Rightarrow> False | CapFile \<Rightarrow> False | _ \<Rightarrow> True)"
| "wf_type (UserDefined q) \<longleftrightarrow> qn_feature q = None \<and> type_name (qn_name q)"
| "wf_type (Many t) \<longleftrightarrow> wf_type t"
| "wf_type (Capability c) \<longleftrightarrow> wf_cap c"
| "wf_type (EnumRef _) \<longleftrightarrow> False"
| "wf_type (Unresolved _) \<longleftrightarrow> False"

section \<open>The scanner on printed types\<close>

definition plain_char :: "char \<Rightarrow> bool" where
  "plain_char c \<longleftrightarrow> graphic c \<and> c \<notin> set ''()[]''"

definition shift :: "nat \<Rightarrow> nat option \<Rightarrow> nat option" where
  "shift n x = map_option ((+) n) x"

lemma shift_simps [simp]:
  "shift 0 x = x" "map_option Suc (shift n x) = shift (Suc n) x" "shift n (shift k x) = shift (n + k) x"
  "shift n None = None" "shift n (Some i) = Some (n + i)" "map_option Suc x = shift 1 x"
  by (cases x; simp add: shift_def)+

definition scans :: "string \<Rightarrow> bool" where
  "scans s \<longleftrightarrow> s \<noteq> [] \<and> list_all graphic s \<and>
     (\<forall>r. top_level_ws 0 (s @ r) = shift (length s) (top_level_ws 0 r))"

lemma strip_ws_graphic: "graphic c \<Longrightarrow> strip_ws_char (c # s) = None"
  by (auto split: list.split)

lemma top_level_ws_plain:
  "list_all plain_char w \<Longrightarrow> top_level_ws d (w @ r) = shift (length w) (top_level_ws d r)"
  by (induction w) (auto simp: plain_char_def strip_ws_graphic simp del: strip_ws_char.simps)

lemma scans_plain: "w \<noteq> [] \<Longrightarrow> list_all plain_char w \<Longrightarrow> scans w"
  by (auto simp: scans_def top_level_ws_plain plain_char_def list_all_iff)

lemma scans_array: "scans s \<Longrightarrow> scans (s @ ''[]'')"
  by (auto simp: scans_def char_class_defs)

lemma scans_call:
  assumes "list_all plain_char p" "list_all plain_char w"
  shows "scans (p @ CHR ''('' # w @ '')'')"
proof -
  have "list_all graphic p" "list_all graphic w" using assms by (auto simp: plain_char_def list_all_iff)
  then show ?thesis using assms by (simp add: scans_def top_level_ws_plain add.assoc) (simp add: graphic_def)
qed

lemma trim_end_after_graphic:
  assumes "s \<noteq> []" "graphic (last s)"
  shows "trim_end (s @ t) = s @ trim_end t"
proof -
  let ?T = "trim_by ws1 (\<lambda>b a. ws2 a b) (\<lambda>c b a. ws3 a b c)"
  have "?T (a @ g # r) = ?T a @ g # r" if "graphic g" for a g r
  proof (induction a rule: length_induct)
    case (1 a)
    then have IH: "?T (b @ g # r) = ?T b @ g # r" if "length b < length a" for b using that by blast
    show ?case
    proof (cases a)
      case Nil
      with that show ?thesis by (cases r; cases "tl r") (simp_all add: trim_by.simps(2))
    next
      case (Cons x b)
      with that IH[of b] IH[of "tl b"] IH[of "tl (tl b)"] show ?thesis
        by (cases b; cases "tl b"; cases r) (simp_all add: trim_by.simps(2)[of _ _ _ x])
    qed
  qed
  from this[OF assms(2), of "rev t" "rev (butlast s)"] assms(1) show ?thesis
    by (simp add: trim_end_def flip: rev.simps(2)) (metis append_butlast_last_id append.assoc append_Cons rev_append rev_rev_ident rev.simps(2))
qed

lemma scans_tight: "scans s \<Longrightarrow> tight s"
  by (auto simp: scans_def tight_def list_all_iff)

text \<open>What follows a type: nothing, or a space and any text.\<close>

definition follows :: "string \<Rightarrow> bool" where
  "follows q \<longleftrightarrow> q = [] \<or> hd q = CHR '' ''"

lemma follows_trim_end: "follows q \<Longrightarrow> follows (trim_end q)"
  using trim_end_prefix[of q] by (auto simp: follows_def) (metis append_is_Nil_conv hd_append2)

lemma trim_after:
  assumes "list_all graphic s" "s \<noteq> []"
  shows "trim (s @ q) = s @ trim_end q" "graphic (last s)"
proof -
  show last: "graphic (last s)" using assms by (simp add: list_all_iff)
  obtain c r where s: "s = c # r" "graphic c" using assms by (cases s) auto
  then have "trim_start (s @ q) = s @ q" by simp
  with last assms(2) show "trim (s @ q) = s @ trim_end q" unfolding trim_def by (simp add: trim_end_after_graphic)
qed

lemma top_level_ws_follows: "follows q \<Longrightarrow> q \<noteq> [] \<Longrightarrow> top_level_ws 0 q = Some 0"
  by (cases q) (auto simp: follows_def char_class_defs)

lemma first_token_scans:
  assumes "scans s" "follows q"
  shows "first_paren_balanced_token (s @ q) = s"
proof -
  have s: "list_all graphic s" "s \<noteq> []" "top_level_ws 0 (s @ q') = shift (length s) (top_level_ws 0 q')" for q'
    using assms(1) by (auto simp: scans_def)
  have "follows (trim_end q)" using assms(2) by (rule follows_trim_end)
  then have "top_level_ws 0 (s @ trim_end q) = (if trim_end q = [] then None else Some (length s))"
    using top_level_ws_follows[of "trim_end q"] by (simp add: s(3))
  moreover have "trim_end s = s" using s trim_after(2)[of s] by (simp add: trim_end_graphic_last)
  ultimately show ?thesis by (simp add: first_paren_balanced_token_def trim_after[OF s(1,2)])
qed

lemma list_inner_follows:
  assumes "list_all graphic s" "follows q" "s \<noteq> ''list''" "s \<noteq> ''List''"
  shows "list_inner (s @ q) = None"
proof -
  have cut: "takeWhile graphic (s @ q) = s"
    using assms(1,2) by (cases q) (auto simp: follows_def list_all_iff takeWhile_append2 char_class_defs)
  have "strip_prefix (kw @ CHR '' '' # t) (s @ q) = None" if "kw = ''list'' \<or> kw = ''List''" for kw t
  proof (rule ccontr)
    assume "strip_prefix (kw @ CHR '' '' # t) (s @ q) \<noteq> None"
    then obtain r where "s @ q = kw @ CHR '' '' # t @ r" by (auto simp: strip_prefix_None_iff)
    then have "s = takeWhile graphic (kw @ CHR '' '' # t @ r)" using cut by simp
    also have "\<dots> = kw" using that by (auto simp: char_class_defs)
    finally show False using that assms(3,4) by auto
  qed
  from this[of "''list''" "''of ''"] this[of "''List''" "''of ''"] this[of "''list''" "[]"] this[of "''List''" "[]"]
  show ?thesis by (simp add: list_inner_def)
qed

lemma type_ref_scans:
  assumes "scans s" "follows q" "s \<noteq> ''list''" "s \<noteq> ''List''"
  shows "type_ref_from_syntax (s @ q) =
    (case strip_suffix ''[]'' s of Some t \<Rightarrow> Many (type_ref_from_syntax (trim_end t)) | None \<Rightarrow> scalar_type_ref s)"
proof -
  have s: "list_all graphic s" "s \<noteq> []" using assms(1) by (auto simp: scans_def)
  have q: "follows (trim_end q)" using assms(2) by (rule follows_trim_end)
  show ?thesis
    by (subst type_ref_from_syntax.simps)
      (simp add: trim_after[OF s] list_inner_follows[OF s(1) q assms(3,4)] first_token_scans[OF assms(1) q])
qed

section \<open>Capability arguments\<close>

lemma plain_arg: "arg_char c \<Longrightarrow> plain_char c"
  by (auto simp: arg_char_def plain_char_def)

lemma arg_word_facts:
  assumes "arg_word s"
  shows "trim s = s" "CHR '','' \<notin> set s" "list_all plain_char s" "s \<noteq> []" "unquote_capability_arg s = s"
proof -
  show "trim s = s" "CHR '','' \<notin> set s" "s \<noteq> []"
    using assms trim_all_graphic by (auto simp: arg_word_def arg_char_def list_all_iff)
  show "list_all plain_char s" using assms plain_arg by (auto simp: arg_word_def list_all_iff)
  have "strip_prefix [dquote] s = None"
    using assms by (cases s) (auto simp: arg_word_def arg_char_def)
  then show "unquote_capability_arg s = s" by (simp add: unquote_capability_arg_def)
qed

definition arg_ok :: "string \<times> string \<Rightarrow> bool" where
  "arg_ok kv \<longleftrightarrow> arg_word (fst kv) \<and> CHR '':'' \<notin> set (fst kv) \<and> arg_word (snd kv)"

lemma show_arg_word: "arg_ok kv \<Longrightarrow> arg_word (show_arg kv)"
  by (auto simp: arg_ok_def show_arg_def arg_word_def) (simp add: arg_char_def char_class_defs)

lemma args_show:
  assumes "kvs \<noteq> []" "list_all arg_ok kvs"
  shows "parse_capability_args (join '','' (map show_arg kvs)) = map_of (rev kvs)"
proof -
  have word: "arg_word (show_arg kv)" if "kv \<in> set kvs" for kv
    using assms(2) that show_arg_word by (auto simp: list_all_iff)
  then have "split_on CHR '','' (join '','' (map show_arg kvs)) = map show_arg kvs"
    using assms(1) arg_word_facts(2) by (intro split_on_join) auto
  moreover have "map trim (map show_arg kvs) = map show_arg kvs"
    using word arg_word_facts(1) by (intro map_idI) auto
  moreover have "filter (\<lambda>p. p \<noteq> []) (map show_arg kvs) = map show_arg kvs"
    using word arg_word_facts(4) by (intro filter_True) auto
  moreover have "List.map_filter (\<lambda>part. map_option (\<lambda>(k, v). (trim k, trim v)) (split_once CHR '':'' part)) (map show_arg kvs) = kvs"
    using assms(2)
  proof (induction kvs)
    case (Cons kv kvs)
    then show ?case using arg_word_facts(1) by (cases kv) (simp add: List.map_filter_def show_arg_def arg_ok_def)
  qed (simp add: List.map_filter_def)
  ultimately show ?thesis by (simp only: parse_capability_args_def)
qed

lemma plain_args: "list_all arg_ok kvs \<Longrightarrow> list_all plain_char (join '','' (map show_arg kvs))"
proof (induction kvs)
  case (Cons kv kvs)
  then have "list_all plain_char (show_arg kv)" using show_arg_word arg_word_facts(3) by simp
  moreover have "plain_char CHR '',''" by (simp add: plain_char_def char_class_defs)
  ultimately show ?case using Cons by (cases kvs) auto
qed simp

lemma strip_call: "CHR ''('' \<notin> set p \<Longrightarrow> CHR ''('' \<notin> set q \<Longrightarrow>
   strip_prefix (p @ ''('') (q @ CHR ''('' # r) = (if p = q then Some r else None)"
proof (induction p arbitrary: q)
  case Nil
  then show ?case by (cases q) auto
next
  case (Cons c p)
  then show ?case by (cases q) auto
qed

definition cap_ident :: "string \<Rightarrow> bool" where
  "cap_ident n \<longleftrightarrow> n \<noteq> [] \<and> list_all is_ascii_alphanumeric n"

lemma strip_cap_show:
  assumes "cap_ident name" "cap_ident other"
  shows "strip_cap (show_cap sigil name args) other =
    (if other = name then Some (join '','' (map show_arg args)) else None)"
proof -
  have last: "strip_suffix '')'' (x @ '')'') = Some x" for x by (simp add: strip_suffix_Some_iff)
  have paren: "CHR ''('' \<notin> set name" "CHR ''('' \<notin> set other"
    using assms by (auto simp: cap_ident_def list_all_iff char_class_defs)
  have at: "strip_prefix (other @ p) (CHR ''@'' # r) = None" "strip_prefix (CHR ''@'' # p) (name @ r) = None" for p r
    using assms by (cases other; cases name; auto simp: cap_ident_def char_class_defs)+
  show ?thesis
  proof (cases sigil)
    case True
    have "strip_prefix (''@cap.'' @ other @ ''('') (''@cap.'' @ name @ CHR ''('' # r) =
        (if other = name then Some r else None)" for r
      using strip_call[OF paren(2,1), of r] by simp
    with True show ?thesis using at(1)[of "''(''"] by (simp add: strip_cap_def show_cap_def last)
  next
    case False
    then show ?thesis using strip_call[OF paren(2,1)] at(2) by (simp add: strip_cap_def show_cap_def last)
  qed
qed

lemma arg_word_number: "arg_word (nat_to_string n)"
proof -
  have "list_all arg_char (nat_to_string n)"
    using nat_to_string_digits[of n] by (auto simp: list_all_iff arg_char_def char_class_defs)
  then show ?thesis by (simp add: arg_word_def)
qed

lemma arg_word_append: "arg_word a \<Longrightarrow> arg_word b \<Longrightarrow> arg_word (a @ b)"
  by (simp add: arg_word_def)

lemma arg_word_size: "arg_word (show_size l)"
proof -
  have "arg_word ''kb''" "arg_word ''mb''" "arg_word ''gb''" by code_simp+
  then show ?thesis by (cases l) (simp_all add: arg_word_append arg_word_number)
qed

lemma arg_word_mime:
  assumes "wf_mime m"
  shows "arg_word (show_mime m)" "CHR ''|'' \<notin> set (show_mime m)"
proof -
  have "arg_char CHR ''/''" by code_simp
  with assms show "arg_word (show_mime m)" "CHR ''|'' \<notin> set (show_mime m)"
    by (auto simp: wf_mime_def show_mime_def arg_word_def)
qed

lemma arg_word_mimes: "ms \<noteq> [] \<Longrightarrow> list_all wf_mime ms \<Longrightarrow> arg_word (join ''|'' (map show_mime ms))"
proof (induction ms)
  case (Cons m ms)
  have "arg_word ''|''" by code_simp
  with Cons arg_word_mime[of m] show ?case
    by (cases ms) (auto intro: arg_word_append simp flip: append_Cons append_assoc simp: arg_word_def)
qed simp

lemma parse_u32_number: "parse_u32 (nat_to_string n) = (if n < 2 ^ 32 then Some n else None)"
proof -
  have "(case s of CHR ''+'' # t \<Rightarrow> t | _ \<Rightarrow> s) = s" if "s \<noteq> []" "hd s \<noteq> CHR ''+''" for s :: string
    using that by (cases s) (auto split: char.splits bool.splits)
  moreover have "hd (nat_to_string n) \<noteq> CHR ''+''"
    using nat_to_string_hd_digit[of n] by (auto simp: is_ascii_digit_def)
  ultimately show ?thesis by (simp add: parse_u32_def)
qed

lemma digits_number:
  assumes "\<not> is_ascii_digit u"
  shows "takeWhile is_ascii_digit (nat_to_string n @ u # v) = nat_to_string n"
    "dropWhile is_ascii_digit (nat_to_string n @ u # v) = u # v"
  using nat_to_string_digits[of n] assms
  by (auto simp: list_all_iff takeWhile_append2 dropWhile_append2)

lemma parse_size_show: "parse_file_size (show_size l) = Some \<lparr>fz_bytes = file_size_bytes l, fz_literal = l\<rparr>"
proof -
  have "parse_u32 (nat_to_string (unat w)) = Some (unat w)" for w :: "32 word"
    using unsigned_less[of w] by (simp add: parse_u32_number)
  then show ?thesis
    by (cases l) (simp_all add: parse_file_size_def digits_number is_ascii_digit_def)
qed

lemma parse_mimes_show: "list_all wf_mime ms \<Longrightarrow> parse_mimes (map show_mime ms) = Some ms"
proof (induction ms)
  case (Cons m ms)
  have m: "wf_mime m" using Cons.prems by simp
  note word = arg_word_facts[OF arg_word_mime(1)[OF m]]
  have "split_once CHR ''/'' (show_mime m) = Some (mt_family m, mt_subtype m)"
    using m by (simp add: show_mime_def wf_mime_def)
  then show ?case using Cons m arg_word_facts(1,4) word(1,4) by (cases m) (simp add: wf_mime_def)
qed simp

lemma parse_mime_list_show:
  assumes "ms \<noteq> []" "list_all wf_mime ms"
  shows "parse_mime_list (join ''|'' (map show_mime ms)) = Some ms"
proof -
  have "split_on CHR ''|'' (join ''|'' (map show_mime ms)) = map show_mime ms"
    using assms arg_word_mime(2) by (intro split_on_join) (auto simp: list_all_iff)
  then show ?thesis using parse_mimes_show[OF assms(2)] by (simp add: parse_mime_list_def)
qed

lemma parse_visibility_show: "parse_file_visibility (show_visibility v) = Some v"
  by (cases v) (simp_all add: parse_file_visibility_def)

section \<open>Every printed scalar lowers to itself\<close>

lemma arg_keys:
  "arg_word ''max_size''" "arg_word ''accept''" "arg_word ''visibility''" "arg_word ''signed_ttl''"
  "arg_word ''auto_photo_policy''" "arg_word ''class''" "arg_word ''retention''" "arg_word ''log_redact''"
  "arg_word ''algorithm''" "arg_word ''key''" "arg_word ''ttl''" "arg_word ''single_use''" "arg_word ''store''"
  "arg_word ''argon2id''" "arg_word ''bcrypt''" "arg_word ''hashed''" "arg_word ''true''" "arg_word ''false''"
  by code_simp+

lemma arg_word_visibility: "arg_word (show_visibility v)"
  by (cases v; simp only: show_visibility.simps; code_simp)

lemma cap_args_ok: "wf_cap c \<Longrightarrow> list_all arg_ok (cap_args c)"
  by (cases c) (auto simp: arg_ok_def arg_keys arg_word_size arg_word_mimes arg_word_visibility opt_arg_def
      show_flag_def split: option.split HashAlgorithm.split)

lemma cap_args_not_Nil: "cap_args c \<noteq> []"
  by (cases c) auto

lemma cap_name_ident: "cap_ident (cap_name c)"
  by (cases c; simp only: cap_name.simps; code_simp)

lemma cap_idents:
  "cap_ident ''File''" "cap_ident ''PII''" "cap_ident ''Hashed''" "cap_ident ''Encrypted''"
  "cap_ident ''E2ee''" "cap_ident ''Token''"
  by code_simp+

lemma scans_cap:
  assumes "wf_cap c"
  shows "scans (show_cap sigil (cap_name c) (cap_args c))"
proof -
  have "list_all plain_char ''@cap.''" by code_simp
  moreover have "list_all plain_char (cap_name c)" by (cases c; simp only: cap_name.simps; code_simp)
  ultimately have "scans (((if sigil then ''@cap.'' else []) @ cap_name c) @ CHR ''('' # join '','' (map show_arg (cap_args c)) @ '')'')"
    by (intro scans_call plain_args cap_args_ok assms) simp
  then show ?thesis by (simp add: show_cap_def)
qed

lemma last_cap: "\<exists>x. show_cap sigil name args = x @ '')''"
  unfolding show_cap_def by (metis append.assoc append_Cons)

lemma suffix_cap:
  assumes "last p \<noteq> CHR '')''" "p \<noteq> []"
  shows "strip_suffix p (show_cap sigil name args) = None"
proof (rule ccontr)
  assume "strip_suffix p (show_cap sigil name args) \<noteq> None"
  then obtain r where "show_cap sigil name args = r @ p" by (auto simp: strip_suffix_Some_iff)
  with assms last_cap[of sigil name args] show False by (metis last_appendR last_snoc)
qed

lemma cap_scalar:
  assumes "wf_cap c"
  shows "scalar_type_ref (show_cap sigil (cap_name c) (cap_args c)) = Capability c"
proof -
  define ty where "ty = show_cap sigil (cap_name c) (cap_args c)"
  define inner where "inner = join '','' (map show_arg (cap_args c))"
  have id: "\<not> is_id_member ty" by (simp add: ty_def is_id_member_def suffix_cap)
  have token: "first_paren_balanced_token ty = ty"
    using first_token_scans[OF scans_cap[OF assms], of "[]" sigil] by (simp add: follows_def ty_def)
  have strip: "strip_cap ty n = (if n = cap_name c then Some inner else None)" if "cap_ident n" for n
    unfolding ty_def inner_def using that by (rule strip_cap_show[OF cap_name_ident])
  have args: "parse_capability_args inner = map_of (rev (cap_args c))"
    unfolding inner_def by (rule args_show[OF cap_args_not_Nil cap_args_ok[OF assms]])
  note defs = scalar_type_ref_def parse_cap_file_type_def parse_cap_pii_type_def parse_cap_hashed_type_def
    parse_cap_encrypted_type_def parse_cap_e2ee_type_def parse_cap_key_def parse_cap_token_type_def
  have "scalar_type_ref ty = Capability c"
  proof (cases c)
    case (File f)
    with assms show ?thesis
      by (cases "fc_visibility f"; cases "fc_signed_ttl f"; cases "fc_auto_photo_policy f")
        (simp_all add: defs id token strip cap_idents args opt_arg_def parse_size_show parse_mime_list_show
          parse_visibility_show)
  next
    case (PII p)
    with assms show ?thesis
      by (cases "pc_retention p"; cases "pc_log_redact p")
        (simp_all add: defs id token strip cap_idents args opt_arg_def arg_word_facts show_flag_def)
  next
    case (Hashed h)
    then show ?thesis by (cases h) (simp_all add: defs id token strip cap_idents args)
  next
    case (Encrypted k)
    with assms show ?thesis by (simp add: defs id token strip cap_idents args)
  next
    case (E2ee k)
    with assms show ?thesis by (simp add: defs id token strip cap_idents args)
  next
    case (Token t)
    with assms show ?thesis
      by (cases "tk_store t") (simp_all add: defs id token strip cap_idents args show_flag_def)
  qed
  then show ?thesis by (simp add: ty_def)
qed

definition named_builtins :: "BuiltinType list" where
  "named_builtins = [BtId, BtText, BtBoolean, BtInteger, BtDecimal, BtDate, BtDateTime, BtJson, SemanticEmail,
     SemanticPhone, SemanticUrl, SemanticUuid, SemanticCurrency, SemanticGeoPoint, SemanticHexColor,
     SemanticPercentage, SemanticPositiveDecimal, SemanticNonNegativeInt]"

definition money_builtins :: "BuiltinType list" where
  "money_builtins = map SemanticMoney [BRL, USD, EUR, GBP, JPY, CHF]"

lemma wf_builtin_cases: "wf_type (Builtin b) \<Longrightarrow> b \<in> set named_builtins \<or> b \<in> set money_builtins"
proof (cases b)
  case (SemanticMoney c)
  then show ?thesis by (cases c) (simp_all add: money_builtins_def)
qed (simp_all add: named_builtins_def)

text \<open>A text without parentheses is no call, so it is looked up in the two name tables.\<close>

lemma plain_scalar:
  assumes "list_all plain_char s" "s \<noteq> []" "\<not> is_id_member s"
  shows "scalar_type_ref s = (case map_of semantic_names s of Some b \<Rightarrow> Builtin b | None \<Rightarrow>
      case map_of builtin_names s of Some b \<Rightarrow> Builtin b | None \<Rightarrow> UserDefined \<lparr>qn_feature = None, qn_name = s\<rparr>)"
proof -
  have token: "first_paren_balanced_token s = s"
    using first_token_scans[OF scans_plain[OF assms(2,1)], of "[]"] by (simp add: follows_def)
  have "CHR ''('' \<notin> set s" using assms(1) by (auto simp: list_all_iff plain_char_def)
  then have paren: "strip_prefix (x @ CHR ''('' # y) s = None" for x y
    by (auto simp: strip_prefix_None_iff)
  have cap: "strip_cap s n = None" for n
    using paren[of "''@cap.'' @ n" "[]"] paren[of n "[]"] by (simp add: strip_cap_def)
  have money: "parse_semantic_money_type s = None"
    using paren[of "''@semantic.Money''" "[]"] paren[of "''Money''" "[]"] by (simp add: parse_semantic_money_type_def)
  show ?thesis
    by (simp add: scalar_type_ref_def assms(3) parse_cap_file_type_def parse_cap_pii_type_def
        parse_cap_hashed_type_def parse_cap_encrypted_type_def parse_cap_e2ee_type_def parse_cap_key_def
        parse_cap_token_type_def token cap money)
qed

lemma no_id_member: "CHR ''.'' \<notin> set s \<Longrightarrow> \<not> is_id_member s"
  by (auto simp: is_id_member_def strip_suffix_Some_iff split: option.splits)

lemma named_table:
  "list_all (\<lambda>b. list_all plain_char (show_builtin True b) \<and> list_all plain_char (show_builtin False b) \<and>
     show_builtin True b \<noteq> [] \<and> show_builtin False b \<noteq> [] \<and>
     \<not> is_id_member (show_builtin True b) \<and> \<not> is_id_member (show_builtin False b) \<and>
     last (show_builtin True b) \<noteq> CHR '']'' \<and> last (show_builtin False b) \<noteq> CHR '']'' \<and>
     show_builtin True b \<notin> set [''list'', ''List'', ''of''] \<and> show_builtin False b \<notin> set [''list'', ''List'', ''of''])
     named_builtins"
  by code_simp

lemma named_lookup:
  "list_all (\<lambda>b. ((case map_of semantic_names (show_builtin True b) of Some x \<Rightarrow> Some x | None \<Rightarrow> map_of builtin_names (show_builtin True b)) = Some b \<and> (case map_of semantic_names (show_builtin False b) of Some x \<Rightarrow> Some x | None \<Rightarrow> map_of builtin_names (show_builtin False b)) = Some b)) named_builtins"
  by code_simp


lemma money_scalar:
  shows "scalar_type_ref (show_builtin sigil (SemanticMoney c)) = Builtin (SemanticMoney c)"
    "scans (show_builtin sigil (SemanticMoney c))" "\<exists>x. show_builtin sigil (SemanticMoney c) = x @ '')''"
proof -
  define inner where "inner = ''currency:'' @ as_iso c"
  define ty where "ty = show_builtin sigil (SemanticMoney c)"
  have ty: "ty = (if sigil then ''@semantic.Money('' else ''Money('') @ inner @ '')''"
    by (simp add: ty_def inner_def)
  have "list_all plain_char ''@semantic.Money''" "list_all plain_char ''Money''" by code_simp+
  moreover have "list_all plain_char inner" unfolding inner_def by (cases c; simp only: as_iso.simps; code_simp)
  ultimately have scans: "scans ty"
    using scans_call[of "''@semantic.Money''" inner] scans_call[of "''Money''" inner] by (simp add: ty)
  have token: "first_paren_balanced_token ty = ty" using first_token_scans[OF scans, of "[]"] by (simp add: follows_def)
  have id: "\<not> is_id_member ty"
  proof -
    have "strip_suffix (''.I'' @ [d]) ty = None" if "d \<noteq> CHR '')''" for d
      using that strip_suffix_Some_iff[of "''.I'' @ [d]" ty] by (cases "strip_suffix (''.I'' @ [d]) ty") (auto simp: ty)
    from this[of "CHR ''D''"] this[of "CHR ''d''"] show ?thesis by (simp add: is_id_member_def)
  qed
  have cap: "strip_cap ty n = None" if "cap_ident n" "n \<noteq> ''Money''" for n
  proof -
    have n: "CHR ''('' \<notin> set n" "strip_prefix (n @ p) (CHR ''@'' # r) = None" for p r
      using that by (cases n; auto simp: cap_ident_def list_all_iff char_class_defs)+
    have "strip_prefix (n @ ''('') (''Money'' @ CHR ''('' # r) = None" for r
      using strip_call[OF n(1), of "''Money''" r] that by simp
    with n(2) show ?thesis by (simp add: strip_cap_def ty)
  qed
  have arg: "parse_capability_args inner ''currency'' = Some (as_iso c)"
  proof -
    have "arg_word ''currency''" by code_simp
    moreover have "arg_word (as_iso c)" by (cases c; simp only: as_iso.simps; code_simp)
    ultimately have "list_all arg_ok [(''currency'', as_iso c)]" by (simp add: arg_ok_def)
    from args_show[OF _ this] show ?thesis by (simp add: show_arg_def inner_def)
  qed
  have paren: "strip_suffix '')'' (inner @ '')'') = Some inner" by (simp add: strip_suffix_Some_iff)
  then have "parse_semantic_money_type ty = Some (SemanticMoney c)"
    by (simp add: parse_semantic_money_type_def ty arg)
  then have "scalar_type_ref ty = Builtin (SemanticMoney c)"
    by (simp add: scalar_type_ref_def id parse_cap_file_type_def parse_cap_pii_type_def parse_cap_hashed_type_def
        parse_cap_encrypted_type_def parse_cap_e2ee_type_def parse_cap_key_def parse_cap_token_type_def token cap cap_idents)
  with scans show "scalar_type_ref (show_builtin sigil (SemanticMoney c)) = Builtin (SemanticMoney c)"
    "scans (show_builtin sigil (SemanticMoney c))" by (simp_all only: ty_def)
  show "\<exists>x. show_builtin sigil (SemanticMoney c) = x @ '')''" using ty unfolding ty_def by (metis append.assoc)
qed

lemma builtin_scalar:
  assumes "wf_type (Builtin b)"
  shows "scalar_type_ref (show_builtin sigil b) = Builtin b" "last (show_builtin sigil b) \<noteq> CHR '']''"
    "show_builtin sigil b \<notin> set [''list'', ''List'', ''of'']" "scans (show_builtin sigil b)"
proof -
  let ?s = "show_builtin sigil b"
  have "scalar_type_ref ?s = Builtin b \<and> last ?s \<noteq> CHR '']'' \<and> ?s \<notin> set [''list'', ''List'', ''of''] \<and> scans ?s"
  proof (cases "b \<in> set named_builtins")
    case True
    have facts: "list_all plain_char ?s" "?s \<noteq> []" "\<not> is_id_member ?s" "last ?s \<noteq> CHR '']''"
      "?s \<notin> set [''list'', ''List'', ''of'']"
      using True named_table by (cases sigil; auto simp: list_all_iff)+
    have "(case map_of semantic_names ?s of Some x \<Rightarrow> Some x | None \<Rightarrow> map_of builtin_names ?s) = Some b"
      using True named_lookup by (cases sigil) (simp_all add: list_all_iff cong: option.case_cong)
    then have "scalar_type_ref ?s = Builtin b"
      unfolding plain_scalar[OF facts(1,2,3)] by (cases "map_of semantic_names ?s") auto
    with facts scans_plain[OF facts(2,1)] show ?thesis by blast
  next
    case False
    then obtain c where b: "b = SemanticMoney c" using wf_builtin_cases[OF assms] by (auto simp: money_builtins_def)
    obtain x where x: "?s = x @ '')''" using money_scalar(3)[of sigil c] b by auto
    then have "?s \<noteq> w" if "last w \<noteq> CHR '')''" for w using that by auto
    then have "?s \<notin> set [''list'', ''List'', ''of'']" by auto
    with x show ?thesis using money_scalar(1,2)[of sigil c] by (simp add: b del: show_builtin.simps)
  qed
  then show "scalar_type_ref ?s = Builtin b" "last ?s \<noteq> CHR '']''" "?s \<notin> set [''list'', ''List'', ''of'']" "scans ?s" by auto
qed

lemma user_scalar:
  assumes "type_name s"
  shows "scalar_type_ref s = UserDefined \<lparr>qn_feature = None, qn_name = s\<rparr>" "scans s" "last s \<noteq> CHR '']''"
proof -
  have plain: "list_all plain_char s" and no: "CHR ''.'' \<notin> set s" "CHR '']'' \<notin> set s" and ne: "s \<noteq> []"
    using assms by (auto simp: type_name_def list_all_iff plain_char_def char_class_defs)
  show "scans s" by (rule scans_plain[OF ne plain])
  show "last s \<noteq> CHR '']''" using no ne last_in_set[of s] by metis
  show "scalar_type_ref s = UserDefined \<lparr>qn_feature = None, qn_name = s\<rparr>"
    using assms by (simp add: plain_scalar[OF plain ne no_id_member[OF no(1)]] type_name_def)
qed

section \<open>Properties\<close>

lemma no_array_suffix: "last s \<noteq> CHR '']'' \<Longrightarrow> strip_suffix ''[]'' s = None"
proof (rule ccontr)
  assume "last s \<noteq> CHR '']''" "strip_suffix ''[]'' s \<noteq> None"
  then show False by (auto simp: strip_suffix_Some_iff)
qed

lemma show_type_scans: "wf_type t \<Longrightarrow> scans (show_type sigil t) \<and> show_type sigil t \<notin> set [''list'', ''List'', ''of'']"
proof (induction t)
  case (Builtin b)
  then show ?case using builtin_scalar(3,4)[OF Builtin] by simp
next
  case (UserDefined q)
  then show ?case using user_scalar(2) by (simp add: type_name_def)
next
  case (Many t)
  then have "scans (show_type sigil t @ ''[]'')" by (simp add: scans_array)
  moreover have "x @ ''[]'' \<notin> set [''list'', ''List'', ''of'']" for x
  proof -
    have "last (x @ ''[]'') \<notin> last ` set [''list'', ''List'', ''of'']" by simp
    then show ?thesis by blast
  qed
  ultimately show ?case by simp
next
  case (Capability c)
  have "show_cap sigil n a \<notin> set [''list'', ''List'', ''of'']" for n a
  proof -
    have "CHR ''('' \<in> set (show_cap sigil n a)" by (simp add: show_cap_def)
    then show ?thesis by auto
  qed
  with Capability scans_cap show ?case by simp
qed auto

lemma type_ref_show:
  assumes "wf_type t" "follows q"
  shows "type_ref_from_syntax (show_type sigil t @ q) = t"
  using assms
proof (induction t arbitrary: q)
  case (Builtin b)
  then show ?case using type_ref_scans[OF builtin_scalar(4)[OF Builtin.prems(1)], of q sigil] builtin_scalar[OF Builtin.prems(1), of sigil]
    by (simp add: no_array_suffix)
next
  case (UserDefined q')
  then show ?case using type_ref_scans[of "qn_name q'" q] user_scalar[of "qn_name q'"]
    by (cases q') (simp add: no_array_suffix type_name_def)
next
  case (Many t)
  have s: "scans (show_type sigil (Many t))" "show_type sigil (Many t) \<noteq> ''list''" "show_type sigil (Many t) \<noteq> ''List''"
    using show_type_scans[OF Many.prems(1), of sigil] by auto
  have "scans (show_type sigil t)" using show_type_scans[of t sigil] Many.prems(1) by simp
  then have "trim_end (show_type sigil t) = show_type sigil t"
    using trim_after(2)[of "show_type sigil t"] by (simp add: scans_def trim_end_graphic_last)
  moreover have "strip_suffix ''[]'' (show_type sigil (Many t)) = Some (show_type sigil t)"
    by (simp add: strip_suffix_Some_iff)
  moreover have "type_ref_from_syntax (show_type sigil t) = t"
    using Many.IH[of "[]"] Many.prems(1) by (simp add: follows_def)
  ultimately show ?case using type_ref_scans[OF s(1) Many.prems(2) s(2,3)] by simp
next
  case (Capability c)
  then show ?case
    using type_ref_scans[OF scans_cap[of c sigil], of q] show_type_scans[of "Capability c" sigil]
    by (simp add: suffix_cap cap_scalar)
qed auto

lemma list_inner_keyword:
  assumes "kw \<in> set [''list '', ''List '', ''list of '', ''List of '']" "list_all graphic s" "s \<noteq> ''of''" "s \<noteq> []" "follows q"
  shows "list_inner (kw @ s @ q) = Some (s @ q)"
proof -
  have "strip_prefix ''of '' (s @ q) = None"
  proof (rule ccontr)
    assume "strip_prefix ''of '' (s @ q) \<noteq> None"
    then obtain r where r: "s @ q = ''of '' @ r" by (auto simp: strip_prefix_None_iff)
    have "takeWhile graphic (s @ q) = s"
      using assms(2,5) by (cases q) (auto simp: follows_def list_all_iff takeWhile_append2 char_class_defs)
    then have "s = takeWhile graphic (''of '' @ r)" by (simp add: r)
    also have "\<dots> = ''of''" by (simp add: char_class_defs)
    finally show False using assms(3) by simp
  qed
  with assms(1) show ?thesis by (auto simp: list_inner_def)
qed


text \<open>
  C31. Type lowering inverts the author's notation: every type an author can write (built-in and semantic
  types, money with its currency, the six capabilities with all their arguments, user-defined names, and
  arrays of these), printed bare or with the deprecated sigil, lowers to exactly that type, whatever
  decorators follow it after a space; and each of the four list keywords in front of it gives the list
  of that type.
\<close>

theorem type_ref_roundtrip:
  assumes "wf_type t" "kw \<in> set [''list '', ''List '', ''list of '', ''List of '']"
  shows "type_ref_from_syntax (show_type sigil t) = t \<and>
    type_ref_from_syntax (show_type sigil t @ '' '' @ decorators) = t \<and>
    type_ref_from_syntax (kw @ show_type sigil t) = Many t"
proof (intro conjI)
  let ?s = "show_type sigil t"
  have s: "list_all graphic ?s" "?s \<noteq> []" "?s \<noteq> ''of''"
    using show_type_scans[OF assms(1), of sigil] by (auto simp: scans_def)
  show "type_ref_from_syntax ?s = t" "type_ref_from_syntax (?s @ '' '' @ decorators) = t"
    using type_ref_show[OF assms(1), of "[]" sigil] type_ref_show[OF assms(1), of "'' '' @ decorators" sigil]
    by (simp_all add: follows_def)
  have "graphic (last ?s)" using trim_after(2)[OF s(1,2)] .
  then have "trim (kw @ ?s) = kw @ ?s"
    using assms(2) s(2) by (intro trim_graphic_ends) (auto simp: graphic_def)
  moreover have "list_inner (kw @ ?s) = Some ?s"
    using list_inner_keyword[OF assms(2) s(1,3,2), of "[]"] by (simp add: follows_def)
  moreover have "trim ?s = ?s" using s(1) by (intro trim_all_graphic) (simp add: list_all_iff)
  ultimately have "type_ref_from_syntax (kw @ ?s) = Many (type_ref_from_syntax ?s)"
    by (subst type_ref_from_syntax.simps) (simp add: Let_def)
  then show "type_ref_from_syntax (kw @ ?s) = Many t" using \<open>type_ref_from_syntax ?s = t\<close> by simp
qed

theorem type_ref_roundtrip_witness:
  "type_ref_from_syntax ''@cap.File(max_size:5mb,accept:image/png|image/jpeg,visibility:signed,signed_ttl:1h) @pii.contact'' =
   Capability (File \<lparr>fc_max_size = \<lparr>fz_bytes = file_size_bytes (Mb 5), fz_literal = Mb 5\<rparr>,
     fc_accept = [\<lparr>mt_family = ''image'', mt_subtype = ''png''\<rparr>, \<lparr>mt_family = ''image'', mt_subtype = ''jpeg''\<rparr>],
     fc_visibility = Some Signed, fc_signed_ttl = Some ''1h'', fc_auto_photo_policy = None\<rparr>)"
proof -
  let ?t = "Capability (File \<lparr>fc_max_size = \<lparr>fz_bytes = file_size_bytes (Mb 5), fz_literal = Mb 5\<rparr>,
     fc_accept = [\<lparr>mt_family = ''image'', mt_subtype = ''png''\<rparr>, \<lparr>mt_family = ''image'', mt_subtype = ''jpeg''\<rparr>],
     fc_visibility = Some Signed, fc_signed_ttl = Some ''1h'', fc_auto_photo_policy = None\<rparr>)"
  have "arg_word ''image''" "arg_word ''png''" "arg_word ''jpeg''" "arg_word ''1h''" by code_simp+
  then have "wf_type ?t" by (simp add: wf_mime_def)
  moreover have "show_type True ?t =
      ''@cap.File(max_size:5mb,accept:image/png|image/jpeg,visibility:signed,signed_ttl:1h)''"
  proof -
    have "nat_to_string 5 = ''5''" by code_simp
    then show ?thesis by (simp add: show_cap_def show_arg_def show_mime_def opt_arg_def)
  qed
  ultimately show ?thesis
    using type_ref_roundtrip[of ?t "''list ''" True "''@pii.contact''"] by simp
qed

text \<open>
  C32. File sizes are exact at their width: for an amount written in decimal and one of the three units,
  parsing fails exactly when the amount does not fit 32 bits, and otherwise the 64-bit byte count is the
  amount times the binary unit, with no wrap-around.
\<close>

theorem parse_file_size_exact:
  assumes "(unit, k) \<in> set [(''kb'', 1), (''mb'', 2), (''gb'', 3)]"
  shows "(parse_file_size (nat_to_string n @ unit) = None \<longleftrightarrow> 2 ^ 32 \<le> n) \<and>
    (\<forall>z. parse_file_size (nat_to_string n @ unit) = Some z \<longrightarrow>
      unat (fz_bytes z) = n * 1024 ^ k \<and> unat (fz_bytes z) < 2 ^ 62)"
proof (cases "n < 2 ^ 32")
  case True
  then have amount: "unat (word_of_nat n :: 32 word) = n" by (simp add: unat_of_nat take_bit_eq_mod)
  have "n * 1024 ^ k < 2 ^ 62"
  proof -
    have "n * 1024 ^ k < 2 ^ 32 * 1024 ^ k" using True by simp
    also have "\<dots> \<le> 2 ^ 32 * 2 ^ 30" using assms by auto
    finally show ?thesis by simp
  qed
  moreover obtain l where l: "nat_to_string n @ unit = show_size l" "unat (file_size_bytes l) = n * 1024 ^ k"
  proof -
    consider "unit = ''kb'' \<and> k = 1" | "unit = ''mb'' \<and> k = 2" | "unit = ''gb'' \<and> k = 3" using assms by auto
    then show ?thesis
      by cases (rule that[of "Kb (word_of_nat n)"] that[of "Mb (word_of_nat n)"] that[of "Gb (word_of_nat n)"];
        simp add: amount file_size_bytes_exact del: file_size_bytes.simps)+
  qed
  ultimately show ?thesis using True by (simp add: parse_size_show)
next
  case False
  then show ?thesis using assms by (auto simp: parse_file_size_def digits_number is_ascii_digit_def parse_u32_number)
qed

theorem parse_file_size_exact_witness:
  "parse_file_size (nat_to_string 4294967295 @ ''gb'') \<noteq> None \<and> parse_file_size (nat_to_string 4294967296 @ ''kb'') = None"
  using parse_file_size_exact[of "''gb''" 3 4294967295] parse_file_size_exact[of "''kb''" 1 4294967296] by simp

end
