(* ===== verification/Sql_Text.thy ===== *)
theory Sql_Text
  imports Source_Text
begin

text \<open>
  The lexical layer of the DDL emitter (\<^verbatim>\<open>migration_ddl/sql_builder.rs\<close>): identifier quoting, the
  reserved words, string literals, comment values and the snake-case slug of table and index names.

  Shown here: a rendered identifier is read back by an SQL reader whatever the name contains, so no name
  can leave its quotes; the same for string literals; slugs are canonical and slugging is idempotent.
\<close>

section \<open>Definitions\<close>

abbreviation squote_str :: string where "squote_str \<equiv> [CHR 0x27]"

text \<open>\<^verbatim>\<open>str::replace\<close> of a character by a text.\<close>

definition replace_char :: "char \<Rightarrow> string \<Rightarrow> string \<Rightarrow> string" where
  "replace_char a r s = concat (map (\<lambda>c. if c = a then r else [c]) s)"

definition is_plain_sql_ident :: "string \<Rightarrow> bool" where
  "is_plain_sql_ident raw = (case raw of [] \<Rightarrow> False
     | first # chars \<Rightarrow> (first = CHR ''_'' \<or> is_ascii_lowercase first) \<and>
         list_all (\<lambda>ch. ch = CHR ''_'' \<or> is_ascii_lowercase ch \<or> is_ascii_digit ch) chars)"

definition sql_reserved_words :: "string list" where
  "sql_reserved_words =
    [''all'', ''analyse'', ''analyze'', ''and'', ''any'', ''array'', ''as'', ''asc'', ''asymmetric'',
     ''authorization'', ''binary'', ''both'', ''case'', ''cast'', ''check'', ''collate'', ''collation'',
     ''column'', ''concurrently'', ''constraint'', ''create'', ''cross'', ''current_catalog'',
     ''current_date'', ''current_role'', ''current_schema'', ''current_time'', ''current_timestamp'',
     ''current_user'', ''default'', ''deferrable'', ''desc'', ''distinct'', ''do'', ''else'', ''end'',
     ''except'', ''false'', ''fetch'', ''for'', ''foreign'', ''freeze'', ''from'', ''full'', ''grant'',
     ''group'', ''having'', ''ilike'', ''in'', ''initially'', ''inner'', ''intersect'', ''into'', ''is'',
     ''isnull'', ''join'', ''lateral'', ''leading'', ''left'', ''like'', ''limit'', ''localtime'',
     ''localtimestamp'', ''natural'', ''not'', ''notnull'', ''null'', ''offset'', ''on'', ''only'', ''or'',
     ''order'', ''outer'', ''overlaps'', ''placing'', ''primary'', ''references'', ''returning'',
     ''right'', ''select'', ''session_user'', ''similar'', ''some'', ''symmetric'', ''system_user'',
     ''table'', ''tablesample'', ''then'', ''to'', ''trailing'', ''true'', ''union'', ''unique'', ''user'',
     ''using'', ''variadic'', ''verbose'', ''when'', ''where'', ''window'', ''with'']"

definition is_sql_reserved_word :: "string \<Rightarrow> bool" where
  "is_sql_reserved_word raw \<longleftrightarrow> raw \<in> set sql_reserved_words"

definition quote_ident :: "string \<Rightarrow> string" where
  "quote_ident raw = dquote # replace_char dquote [dquote, dquote] raw @ [dquote]"

definition sql_ident :: "string \<Rightarrow> string" where
  "sql_ident raw = (if is_plain_sql_ident raw \<and> \<not> is_sql_reserved_word raw then raw else quote_ident raw)"

definition quote_literal :: "string \<Rightarrow> string" where
  "quote_literal s = squote # replace_char squote [squote, squote] s @ [squote]"

definition comment_value :: "string \<Rightarrow> string" where
  "comment_value raw = map (\<lambda>c. if c = CHR 0x0A \<or> c = CHR 0x0D then CHR '' '' else c) raw"

definition is_snake_sep :: "char \<Rightarrow> bool" where
  "is_snake_sep ch \<longleftrightarrow> ch \<in> {CHR ''-'', CHR '' '', CHR ''.'', CHR ''/'', CHR 0x5C, CHR ''_''}"

fun snake_loop :: "string \<Rightarrow> bool \<Rightarrow> bool \<Rightarrow> string \<Rightarrow> string" where
  "snake_loop out prev_is_lower_or_digit prev_is_sep [] = out"
| "snake_loop out prev_is_lower_or_digit prev_is_sep (ch # s) =
     (if is_snake_sep ch then
        snake_loop (if out \<noteq> [] \<and> \<not> prev_is_sep then out @ ''_'' else out) False True s
      else if is_ascii_uppercase ch then
        snake_loop ((if prev_is_lower_or_digit \<and> \<not> prev_is_sep then out @ ''_'' else out) @ [to_ascii_lowercase_char ch])
          False False s
      else if is_ascii_alphanumeric ch then
        snake_loop (out @ [to_ascii_lowercase_char ch]) (is_ascii_lowercase ch \<or> is_ascii_digit ch) False s
      else snake_loop out prev_is_lower_or_digit prev_is_sep s)"

definition lower_snake :: "string \<Rightarrow> string" where
  "lower_snake raw = rev (dropWhile (\<lambda>c. c = CHR ''_'') (rev (snake_loop [] False False raw)))"

section \<open>Reading SQL text back\<close>

text \<open>The SQL rules for delimited text: a doubled delimiter stands for itself, a single one ends the text.\<close>

fun read_delimited :: "char \<Rightarrow> string \<Rightarrow> (string \<times> string) option" where
  "read_delimited d [] = None"
| "read_delimited d (c # s) =
     (if c \<noteq> d then map_option (\<lambda>(w, r). (c # w, r)) (read_delimited d s)
      else case s of
          [] \<Rightarrow> Some ([], [])
        | c' # s' \<Rightarrow> if c' = d then map_option (\<lambda>(w, r). (d # w, r)) (read_delimited d s') else Some ([], s))"

definition ident_body :: "char \<Rightarrow> bool" where
  "ident_body ch \<longleftrightarrow> ch = CHR ''_'' \<or> is_ascii_lowercase ch \<or> is_ascii_digit ch"

definition read_identifier :: "string \<Rightarrow> (string \<times> string) option" where
  "read_identifier s = (case s of [] \<Rightarrow> None
     | c # t \<Rightarrow>
         if c = dquote then read_delimited dquote t
         else let w = takeWhile ident_body s in
           if is_plain_sql_ident w \<and> \<not> is_sql_reserved_word w then Some (w, drop (length w) s) else None)"

definition read_literal :: "string \<Rightarrow> (string \<times> string) option" where
  "read_literal s = (case s of [] \<Rightarrow> None | c # t \<Rightarrow> if c = squote then read_delimited squote t else None)"

lemma read_delimited_replace:
  "rest = [] \<or> hd rest \<noteq> d \<Longrightarrow> read_delimited d (replace_char d [d, d] s @ d # rest) = Some (s, rest)"
proof (induction s)
  case Nil
  then show ?case by (cases rest) (auto simp: replace_char_def)
next
  case (Cons c s)
  then show ?case by (cases "c = d") (simp_all add: replace_char_def)
qed

lemma plain_ident_body: "is_plain_sql_ident w \<Longrightarrow> w \<noteq> [] \<and> list_all ident_body w \<and> hd w \<noteq> dquote"
proof -
  assume w: "is_plain_sql_ident w"
  then obtain c r where c: "w = c # r" by (cases w) (auto simp: is_plain_sql_ident_def)
  have "c = CHR ''_'' \<or> is_ascii_lowercase c" "list_all ident_body r"
    using w unfolding c is_plain_sql_ident_def by (simp_all add: ident_body_def[abs_def])
  moreover have "\<not> is_ascii_lowercase dquote" by (simp add: is_ascii_lowercase_def)
  ultimately show ?thesis unfolding c by (auto simp: ident_body_def)
qed

lemma read_quote_ident: "rest = [] \<or> hd rest \<noteq> dquote \<Longrightarrow> read_identifier (quote_ident name @ rest) = Some (name, rest)"
  using read_delimited_replace[of rest dquote name] by (simp add: read_identifier_def quote_ident_def)

lemma read_quote_literal: "rest = [] \<or> hd rest \<noteq> squote \<Longrightarrow> read_literal (quote_literal name @ rest) = Some (name, rest)"
  using read_delimited_replace[of rest squote name] by (simp add: read_literal_def quote_literal_def)

lemma read_sql_ident:
  assumes "rest = [] \<or> \<not> ident_body (hd rest) \<and> hd rest \<noteq> dquote"
  shows "read_identifier (sql_ident name @ rest) = Some (name, rest)"
proof (cases "is_plain_sql_ident name \<and> \<not> is_sql_reserved_word name")
  case True
  note name = plain_ident_body[of name]
  have "takeWhile ident_body (name @ rest) = name"
    using True name assms by (cases rest) (auto simp: list_all_iff takeWhile_append2)
  with True name show ?thesis
    by (cases name) (auto simp: sql_ident_def read_identifier_def)
next
  case False
  then have "sql_ident name = quote_ident name" by (auto simp: sql_ident_def)
  then show ?thesis using assms read_quote_ident[of rest name] by auto
qed

section \<open>Slugs\<close>

fun no_double :: "string \<Rightarrow> bool" where
  "no_double (a # b # s) \<longleftrightarrow> \<not> (a = CHR ''_'' \<and> b = CHR ''_'') \<and> no_double (b # s)"
| "no_double _ \<longleftrightarrow> True"

definition is_slug :: "string \<Rightarrow> bool" where
  "is_slug s \<longleftrightarrow> list_all ident_body s \<and> no_double s \<and> (s \<noteq> [] \<longrightarrow> hd s \<noteq> CHR ''_'' \<and> last s \<noteq> CHR ''_'')"

definition snake_inv :: "string \<Rightarrow> bool \<Rightarrow> bool \<Rightarrow> bool" where
  "snake_inv out pl ps \<longleftrightarrow> list_all ident_body out \<and> no_double out \<and> (out \<noteq> [] \<longrightarrow> hd out \<noteq> CHR ''_'') \<and>
     (out \<noteq> [] \<longrightarrow> (ps \<longleftrightarrow> last out = CHR ''_'')) \<and> (pl \<longrightarrow> out \<noteq> [])"

lemma no_double_snoc: "no_double (s @ [c]) \<longleftrightarrow> no_double s \<and> \<not> (s \<noteq> [] \<and> last s = CHR ''_'' \<and> c = CHR ''_'')"
  by (induction s rule: no_double.induct) auto

lemma lower_ident:
  assumes "is_ascii_alphanumeric c"
  shows "ident_body (to_ascii_lowercase_char c)" "to_ascii_lowercase_char c \<noteq> CHR ''_''"
proof -
  let ?l = "to_ascii_lowercase_char c"
  have "is_ascii_lowercase ?l \<or> is_ascii_digit ?l"
  proof (cases "is_ascii_uppercase c")
    case True
    then have "code ?l = (code c + 32) mod 256" by (simp add: to_ascii_lowercase_char_def)
    with True show ?thesis unfolding is_ascii_lowercase_def is_ascii_uppercase_def by simp
  next
    case False
    with assms show ?thesis by (simp add: to_ascii_lowercase_char_def is_ascii_alphanumeric_def is_ascii_alphabetic_def)
  qed
  then show "ident_body ?l" "?l \<noteq> CHR ''_''" by (auto simp: ident_body_def char_class_defs)
qed

lemma snake_inv_push:
  assumes "snake_inv out pl ps" "ident_body c" "c \<noteq> CHR ''_''"
  shows "snake_inv (out @ [c]) pl' False"
  using assms no_double_snoc[of out c] by (auto simp: snake_inv_def hd_append)

lemma snake_inv_sep:
  "snake_inv out pl ps \<Longrightarrow> snake_inv (if out \<noteq> [] \<and> \<not> ps then out @ ''_'' else out) False True"
  using no_double_snoc[of out "CHR ''_''"] by (auto simp: snake_inv_def ident_body_def hd_append)

lemma snake_loop_inv: "snake_inv out pl ps \<Longrightarrow> \<exists>pl' ps'. snake_inv (snake_loop out pl ps s) pl' ps'"
proof (induction out pl ps s rule: snake_loop.induct)
  case (1 out pl ps)
  then show ?case by auto
next
  case (2 out pl ps ch s)
  consider "is_snake_sep ch" | "\<not> is_snake_sep ch" "is_ascii_uppercase ch"
    | "\<not> is_snake_sep ch" "\<not> is_ascii_uppercase ch" "is_ascii_alphanumeric ch"
    | "\<not> is_snake_sep ch" "\<not> is_ascii_uppercase ch" "\<not> is_ascii_alphanumeric ch" by blast
  then show ?case
  proof cases
    case 1
    then show ?thesis using "2.IH"(1)[OF 1 snake_inv_sep[OF "2.prems"]] by simp
  next
    case 2
    then have alnum: "is_ascii_alphanumeric ch" by (simp add: is_ascii_alphanumeric_def is_ascii_alphabetic_def)
    have "\<exists>pl1 ps1. snake_inv (if pl \<and> \<not> ps then out @ ''_'' else out) pl1 ps1"
      using "2.prems" snake_inv_sep[OF "2.prems"] by (auto simp: snake_inv_def split: if_splits)
    then have "snake_inv ((if pl \<and> \<not> ps then out @ ''_'' else out) @ [to_ascii_lowercase_char ch]) False False"
      using lower_ident[OF alnum] snake_inv_push by blast
    then show ?thesis using "2.IH"(2)[OF 2] 2 by simp
  next
    case 3
    then show ?thesis using "2.IH"(3)[OF 3] snake_inv_push[OF "2.prems" lower_ident[OF 3(3)]] by simp
  next
    case 4
    then show ?thesis using "2.IH"(4)[OF 4 "2.prems"] by simp
  qed
qed

lemma lower_snake_slug: "is_slug (lower_snake s)"
proof -
  let ?o = "snake_loop [] False False s"
  have "snake_inv [] False False" by (simp add: snake_inv_def)
  then obtain pl ps where inv: "snake_inv ?o pl ps" using snake_loop_inv by blast
  let ?w = "lower_snake s"
  obtain t where split: "?o = ?w @ t" "set t \<subseteq> {CHR ''_''}"
  proof
    show "?o = ?w @ rev (takeWhile (\<lambda>c. c = CHR ''_'') (rev ?o))"
      unfolding lower_snake_def by (metis rev_append rev_rev_ident takeWhile_dropWhile_id)
    show "set (rev (takeWhile (\<lambda>c. c = CHR ''_'') (rev ?o))) \<subseteq> {CHR ''_''}" by (auto dest: set_takeWhileD)
  qed
  have "no_double (a @ b) \<Longrightarrow> no_double a" for a b
    by (induction a rule: no_double.induct) (auto elim: no_double.elims)
  with inv split have "no_double ?w" "list_all ident_body ?w" "?w \<noteq> [] \<longrightarrow> hd ?w \<noteq> CHR ''_''"
    by (auto simp: snake_inv_def)
  moreover have "?w \<noteq> [] \<longrightarrow> last ?w \<noteq> CHR ''_''"
    unfolding lower_snake_def using hd_dropWhile[of "\<lambda>c. c = CHR ''_''" "rev ?o"]
    by (metis last_rev rev.simps(1) rev_is_Nil_conv)
  ultimately show ?thesis by (simp add: is_slug_def)
qed

lemma slug_loop:
  assumes "list_all ident_body w" "no_double (out @ w)" "out @ w \<noteq> [] \<longrightarrow> hd (out @ w) \<noteq> CHR ''_''"
    "out \<noteq> [] \<longrightarrow> (ps \<longleftrightarrow> last out = CHR ''_'')" "out = [] \<longrightarrow> \<not> ps"
  shows "snake_loop out pl ps w = out @ w"
  using assms
proof (induction w arbitrary: out pl ps)
  case (Cons c w)
  have step: "no_double ((out @ [c]) @ w)" "(out @ [c]) @ w \<noteq> [] \<longrightarrow> hd ((out @ [c]) @ w) \<noteq> CHR ''_''" "list_all ident_body w"
    using Cons.prems by auto
  show ?case
  proof (cases "c = CHR ''_''")
    case True
    have out: "out \<noteq> []" "last out \<noteq> CHR ''_''"
    proof -
      show "out \<noteq> []" using Cons.prems(3) True by auto
      have "no_double (out @ [c])"
        using Cons.prems(2) by (induction out rule: no_double.induct) (auto elim: no_double.elims)
      with True \<open>out \<noteq> []\<close> show "last out \<noteq> CHR ''_''" by (simp add: no_double_snoc)
    qed
    then have "\<not> ps" using Cons.prems(4) by simp
    moreover have "is_snake_sep c" using True by (simp add: is_snake_sep_def)
    ultimately have "snake_loop out pl ps (c # w) = snake_loop (out @ [c]) False True w" using out(1) True by simp
    also have "\<dots> = (out @ [c]) @ w" by (rule Cons.IH[OF step(3,1,2)]) (simp_all add: True)
    finally show ?thesis by simp
  next
    case False
    with Cons.prems(1) have c: "is_ascii_lowercase c \<or> is_ascii_digit c" by (simp add: ident_body_def)
    have seps: "\<not> (is_ascii_lowercase x \<or> is_ascii_digit x)" if "is_snake_sep x" for x
      using that unfolding is_snake_sep_def by (elim insertE emptyE; hypsubst; code_simp)
    have upper: "\<not> is_ascii_uppercase c"
      using c unfolding is_ascii_uppercase_def is_ascii_lowercase_def is_ascii_digit_def by linarith
    then have "\<not> is_snake_sep c" "is_ascii_alphanumeric c" "to_ascii_lowercase_char c = c"
      using c seps by (auto simp: is_ascii_alphanumeric_def is_ascii_alphabetic_def to_ascii_lowercase_char_def)
    with upper have "snake_loop out pl ps (c # w) = snake_loop (out @ [c]) (is_ascii_lowercase c \<or> is_ascii_digit c) False w" by simp
    also have "\<dots> = (out @ [c]) @ w" by (rule Cons.IH[OF step(3,1,2)]) (simp_all add: False)
    finally show ?thesis by simp
  qed
qed simp

lemma lower_snake_id: "is_slug w \<Longrightarrow> lower_snake w = w"
proof -
  assume w: "is_slug w"
  then have "snake_loop [] False False w = w" using slug_loop[of w "[]" False False] by (simp add: is_slug_def)
  moreover have "dropWhile (\<lambda>c. c = CHR ''_'') (rev w) = rev w"
    using w by (cases w rule: rev_cases) (auto simp: is_slug_def)
  ultimately show ?thesis by (simp add: lower_snake_def)
qed

section \<open>Properties\<close>

text \<open>
  C33. No name can leave its quotes: whatever bytes an identifier or a string literal contains, reading
  the rendered SQL with the SQL rules gives back exactly that name or text and leaves what follows
  untouched; in particular two names are rendered alike only if they are equal.
\<close>

theorem sql_ident_reads_back:
  assumes "rest = [] \<or> \<not> ident_body (hd rest) \<and> hd rest \<notin> {dquote, squote}"
  shows "read_identifier (sql_ident name @ rest) = Some (name, rest) \<and>
    read_identifier (quote_ident name @ rest) = Some (name, rest) \<and>
    read_literal (quote_literal name @ rest) = Some (name, rest)"
  using assms read_quote_ident[of rest name] read_quote_literal[of rest name] read_sql_ident[of rest name] by auto

theorem sql_ident_reads_back_witness:
  "read_identifier (sql_ident ''user'' @ '' TEXT'') = Some (''user'', '' TEXT'') \<and>
   read_identifier (sql_ident [CHR ''a'', dquote, CHR '';''] @ '';'') = Some ([CHR ''a'', dquote, CHR '';''], '';'')"
  using sql_ident_reads_back[of "'' TEXT''" "''user''"] sql_ident_reads_back[of "'';''" "[CHR ''a'', dquote, CHR '';'']"]
  by (simp add: ident_body_def char_class_defs)

text \<open>
  Table and index slugs are canonical: the slug of any name has only lower-case letters, digits and
  single inner underscores, and slugging a slug changes nothing.
\<close>

lemma lower_snake_canonical:
  "is_slug (lower_snake name) \<and> lower_snake (lower_snake name) = lower_snake name \<and>
   (is_slug name \<longleftrightarrow> lower_snake name = name)"
  using lower_snake_slug[of name] lower_snake_id[of "lower_snake name"] lower_snake_id[of name] by metis

end
