(* ===== verification/Cross_Feature.thy ===== *)
theory Cross_Feature
  imports Ir_Core
begin

text \<open>
  The code generator's index from type names to owning features
  (\<^verbatim>\<open>lazuli_codegen_go/src/emitter/cross_feature.rs\<close>). The two ordered maps are only looked up, so they
  are maps here.

  Shown here: a name has an owner exactly when one feature, and only one, declares it, and is ambiguous
  exactly when several do; owner and ambiguity exclude each other.
\<close>

datatype DeclKind = KResource | KRecord | KEnum

record cross_feature_index =
  ci_map :: "string \<rightharpoonup> (string \<times> DeclKind)"
  ci_ambiguous :: "string \<rightharpoonup> string list"

definition register :: "string \<Rightarrow> string \<Rightarrow> DeclKind \<Rightarrow> cross_feature_index \<Rightarrow> cross_feature_index" where
  "register name feature kind ix =
     (case ci_ambiguous ix name of
        Some existing \<Rightarrow>
          if feature \<in> set existing then ix
          else ix\<lparr>ci_ambiguous := (ci_ambiguous ix)(name \<mapsto> existing @ [feature])\<rparr>
      | None \<Rightarrow> (case ci_map ix name of
          Some (prev_feature, prev_kind) \<Rightarrow>
            if prev_feature = feature then ix
            else ix\<lparr>ci_map := (ci_map ix)(name := None),
                    ci_ambiguous := (ci_ambiguous ix)(name \<mapsto> [prev_feature, feature])\<rparr>
        | None \<Rightarrow> ix\<lparr>ci_map := (ci_map ix)(name \<mapsto> (feature, kind))\<rparr>))"

definition feature_names :: "feature_ir \<Rightarrow> (string \<times> DeclKind) list" where
  "feature_names f = map (\<lambda>r. (rs_name r, KResource)) (fe_resources f) @
     map (\<lambda>r. (rd_name r, KRecord)) (fe_records f) @ map (\<lambda>e. (ed_name e, KEnum)) (fe_enums f)"

definition build :: "module_ir \<Rightarrow> cross_feature_index" where
  "build m = fold (\<lambda>f ix. fold (\<lambda>(name, kind). register name (fe_name f) kind) (feature_names f) ix) m
     \<lparr>ci_map = Map.empty, ci_ambiguous = Map.empty\<rparr>"

definition owner :: "cross_feature_index \<Rightarrow> string \<Rightarrow> string option" where
  "owner ix type_name = map_option fst (ci_map ix type_name)"

definition kind :: "cross_feature_index \<Rightarrow> string \<Rightarrow> DeclKind option" where
  "kind ix type_name = map_option snd (ci_map ix type_name)"

definition is_ambiguous :: "cross_feature_index \<Rightarrow> string \<Rightarrow> bool" where
  "is_ambiguous ix type_name \<longleftrightarrow> ci_ambiguous ix type_name \<noteq> None"

section \<open>The index as the set of declaring features\<close>

text \<open>The abstraction: for every name, the features registered for it so far.\<close>

definition registered :: "cross_feature_index \<Rightarrow> string \<Rightarrow> string set" where
  "registered ix name = (case ci_ambiguous ix name of Some fs \<Rightarrow> set fs
     | None \<Rightarrow> (case ci_map ix name of Some (f, _) \<Rightarrow> {f} | None \<Rightarrow> {}))"

definition index_inv :: "cross_feature_index \<Rightarrow> bool" where
  "index_inv ix \<longleftrightarrow> (\<forall>name fs. ci_ambiguous ix name = Some fs \<longrightarrow>
     ci_map ix name = None \<and> distinct fs \<and> 2 \<le> length fs)"

lemma register_inv:
  assumes "index_inv ix"
  shows "index_inv (register name feature k ix)"
proof -
  have inv: "ci_map ix n = None" "distinct fs" "2 \<le> length fs"
    if "ci_ambiguous ix n = Some fs" for n fs
    using assms that by (auto simp: index_inv_def)
  have one: "Suc 0 \<le> length fs" if "ci_ambiguous ix n = Some fs" for n fs
    using inv(3)[OF that] by simp
  show ?thesis
    unfolding index_inv_def register_def by (auto split: option.splits simp: inv one)
qed

lemma register_registered:
  "registered (register name feature k ix) n = registered ix n \<union> (if n = name then {feature} else {})"
  unfolding registered_def register_def by (auto split: option.splits)

definition declaring :: "module_ir \<Rightarrow> string \<Rightarrow> string set" where
  "declaring m name = {fe_name f | f. f \<in> set m \<and> name \<in> fst ` set (feature_names f)}"

lemma fold_register:
  assumes "index_inv ix"
  shows "index_inv (fold (\<lambda>(name, k). register name feature k) ds ix)"
    "registered (fold (\<lambda>(name, k). register name feature k) ds ix) n =
       registered ix n \<union> (if n \<in> fst ` set ds then {feature} else {})"
proof -
  show "index_inv (fold (\<lambda>(name, k). register name feature k) ds ix)"
    using assms by (induction ds arbitrary: ix) (auto intro: register_inv)
  show "registered (fold (\<lambda>(name, k). register name feature k) ds ix) n =
      registered ix n \<union> (if n \<in> fst ` set ds then {feature} else {})"
    by (induction ds arbitrary: ix) (auto simp: register_registered split: if_splits)
qed

lemma build_spec: "index_inv (build m)" "registered (build m) n = declaring m n"
proof -
  let ?g = "\<lambda>f. fold (\<lambda>(name, kind). register name (fe_name f) kind) (feature_names f)"
  have "index_inv (fold ?g m ix) \<and> registered (fold ?g m ix) n = registered ix n \<union> declaring m n"
    if "index_inv ix" for ix
    using that
  proof (induction m arbitrary: ix)
    case (Cons f m)
    have "declaring (f # m) n = (if n \<in> fst ` set (feature_names f) then {fe_name f} else {}) \<union> declaring m n"
      by (auto simp: declaring_def)
    with Cons.IH[OF fold_register(1)[OF Cons.prems]] fold_register(2)[OF Cons.prems, of "fe_name f" "feature_names f" n]
    show ?case by (auto split: if_splits)
  qed (simp add: declaring_def)
  from this[of "\<lparr>ci_map = Map.empty, ci_ambiguous = Map.empty\<rparr>"]
  show "index_inv (build m)" "registered (build m) n = declaring m n"
    by (simp_all add: build_def index_inv_def registered_def)
qed

section \<open>Properties\<close>

text \<open>
  The index resolves a type name to a feature exactly when that feature is the only one that
  declares the name, in any of its three catalogs; it calls a name ambiguous exactly when at least two
  features declare it; and no name is both.
\<close>

lemma cross_feature_owner_iff:
  "(owner (build m) name = Some feature \<longleftrightarrow> declaring m name = {feature}) \<and>
   (is_ambiguous (build m) name \<longleftrightarrow> (\<exists>f g. f \<noteq> g \<and> f \<in> declaring m name \<and> g \<in> declaring m name)) \<and>
   \<not> (is_ambiguous (build m) name \<and> owner (build m) name \<noteq> None)"
proof -
  have reg: "registered (build m) name = declaring m name" by (rule build_spec)
  show ?thesis
  proof (cases "ci_ambiguous (build m) name")
    case None
    then show ?thesis unfolding reg[symmetric]
      by (auto simp: registered_def owner_def is_ambiguous_def split: option.splits)
  next
    case (Some fs)
    then have fs: "ci_map (build m) name = None" "distinct fs" "2 \<le> length fs" "declaring m name = set fs"
      using build_spec(1)[of m] reg by (auto simp: index_inv_def registered_def)
    obtain a b r where "fs = a # b # r" using fs(3) by (cases fs; cases "tl fs") auto
    with fs Some show ?thesis by (auto simp: owner_def is_ambiguous_def)
  qed
qed

end
