(* ===== verification/Fk_Topo.thy ===== *)
theory Fk_Topo
  imports Cross_Feature "HOL-Library.Multiset"
begin

text \<open>
  The migration order (\<^verbatim>\<open>lazuli_codegen_go/src/emitter/migration_ddl/topo.rs\<close>): the foreign-key
  graph over \<^verbatim>\<open>(feature, resource)\<close> keys and Kahn's algorithm with the lexically smallest ready key
  first. Ordered sets and maps are sorted lists; the ready set is popped at its head; the map of
  dependents is only looked up and is a function. The loop is a total function: each round removes a
  ready key, and a key becomes ready only as its in-degree drops.

  Shown here: the order is a permutation of the resources, and when the foreign keys have no cycle
  every referenced table is created before the tables that refer to it.
\<close>

section \<open>Foreign keys\<close>

type_synonym key = "string \<times> string"
type_synonym item = "feature_ir \<times> resource_ir"

definition key :: "item \<Rightarrow> key" where
  "key = (\<lambda>(f, r). (fe_name f, rs_name r))"

definition feature_declares_resource :: "module_ir \<Rightarrow> string \<Rightarrow> string \<Rightarrow> bool" where
  "feature_declares_resource m feature_name resource_name =
     list_ex (\<lambda>f. fe_name f = feature_name \<and> list_ex (\<lambda>r. rs_name r = resource_name) (fe_resources f)) m"

definition foreign_key_owner :: "module_ir \<Rightarrow> qualified_name \<Rightarrow> cross_feature_index \<Rightarrow> string option" where
  "foreign_key_owner m q ix =
     (case (case qn_feature q of Some o' \<Rightarrow> Some o' | None \<Rightarrow> owner ix (qn_name q)) of
        None \<Rightarrow> None
      | Some o' \<Rightarrow> if feature_declares_resource m o' (qn_name q) then Some o' else None)"

text \<open>The edge a field adds: target first, dependent second.\<close>

definition field_edge :: "module_ir \<Rightarrow> cross_feature_index \<Rightarrow> key \<Rightarrow> TypeRef \<Rightarrow> (key \<times> key) option" where
  "field_edge m ix dependent_key type_ref = (case type_ref of
       UserDefined q \<Rightarrow>
         (case (case qn_feature q of Some o' \<Rightarrow> Some o' | None \<Rightarrow> owner ix (qn_name q)) of
            None \<Rightarrow> None
          | Some o' \<Rightarrow>
              if \<not> feature_declares_resource m o' (qn_name q) then None
              else let target_key = (o', qn_name q) in
                if target_key = dependent_key then None else Some (target_key, dependent_key))
     | _ \<Rightarrow> None)"

definition fk_edges :: "module_ir \<Rightarrow> cross_feature_index \<Rightarrow> item list \<Rightarrow> (key \<times> key) list" where
  "fk_edges m ix resources = concat (map (\<lambda>it.
     List.map_filter (\<lambda>f. field_edge m ix (key it) (fi_type_ref f)) (rs_fields (snd it))) resources)"

section \<open>The graph\<close>

definition adjust :: "'k::linorder \<Rightarrow> (nat \<Rightarrow> nat) \<Rightarrow> ('k \<times> nat) list \<Rightarrow> ('k \<times> nat) list" where
  "adjust k g deg = map (\<lambda>(k', n). (k', if k' = k then g n else n)) deg"

definition degree :: "('k::linorder \<times> nat) list \<Rightarrow> 'k \<Rightarrow> nat" where
  "degree deg k = (case map_of deg k of Some n \<Rightarrow> n | None \<Rightarrow> 0)"

fun add_edges ::
  "('k::linorder \<times> 'k) list \<Rightarrow> ('k \<Rightarrow> 'k list) \<times> ('k \<times> nat) list \<Rightarrow> ('k \<Rightarrow> 'k list) \<times> ('k \<times> nat) list" where
  "add_edges [] st = st"
| "add_edges ((target, dependent) # es) (dependents, in_degree) =
     (if dependent \<in> set (dependents target) then add_edges es (dependents, in_degree)
      else add_edges es (dependents(target := bset_insert dependent (dependents target)),
        if map_of in_degree dependent = None then bmap_insert dependent 1 in_degree
        else adjust dependent Suc in_degree))"

section \<open>Kahn's algorithm\<close>

fun relax :: "'k::linorder list \<Rightarrow> 'k list \<Rightarrow> ('k \<times> nat) list \<Rightarrow> 'k list \<times> ('k \<times> nat) list" where
  "relax [] ready deg = (ready, deg)"
| "relax (d # ds) ready deg =
     (if 0 < degree deg d then
        let deg' = adjust d (\<lambda>n. n - 1) deg in
        relax ds (if degree deg' d = 0 then bset_insert d ready else ready) deg'
      else relax ds ready deg)"

definition work :: "'k::linorder list \<Rightarrow> ('k \<times> nat) list \<Rightarrow> nat" where
  "work ready deg = length ready + sum_list (map snd deg)"

lemma length_bset_insert: "length (bset_insert x xs) \<le> Suc (length xs)"
  by (induction xs) auto

lemma sum_adjust_pred: "0 < degree deg d \<Longrightarrow> Suc (sum_list (map snd (adjust d (\<lambda>n. n - 1) deg))) \<le> sum_list (map snd deg)"
proof (induction deg)
  case (Cons e deg)
  have le: "sum_list (map snd (adjust d (\<lambda>n. n - 1) deg)) \<le> sum_list (map snd deg)"
    by (induction deg) (auto simp: adjust_def)
  with Cons show ?case
    by (cases e) (auto simp: adjust_def degree_def split: if_splits)
qed (simp add: degree_def)

lemma relax_work: "relax ds ready deg = (ready', deg') \<Longrightarrow> work ready' deg' \<le> work ready deg"
proof (induction ds arbitrary: ready deg)
  case (Cons d ds)
  show ?case
  proof (cases "0 < degree deg d")
    case True
    let ?deg = "adjust d (\<lambda>n. n - 1) deg" and ?ready = "if degree (adjust d (\<lambda>n. n - 1) deg) d = 0 then bset_insert d ready else ready"
    have "work ready' deg' \<le> work ?ready ?deg" using Cons True by (simp add: Let_def)
    also have "\<dots> \<le> work ready deg"
      using sum_adjust_pred[OF True] length_bset_insert[of d ready] by (auto simp: work_def)
    finally show ?thesis .
  qed (use Cons in simp)
qed simp

function kahn :: "('k::linorder \<Rightarrow> 'k list) \<Rightarrow> 'k list \<Rightarrow> ('k \<times> nat) list \<Rightarrow> 'k list" where
  "kahn dependents [] deg = []"
| "kahn dependents (next_key # ready) deg =
     (case relax (dependents next_key) ready deg of (ready', deg') \<Rightarrow> next_key # kahn dependents ready' deg')"
  by pat_completeness auto
termination
proof (relation "measure (\<lambda>(deps, ready, deg). work ready deg)", goal_cases)
  case (2 dependents next_key ready deg ready' deg')
  from relax_work[OF 2(1)[symmetric]] show ?case by (simp add: work_def)
qed simp

section \<open>The sort\<close>

definition by_key :: "item list \<Rightarrow> key \<rightharpoonup> item" where
  "by_key resources = map_of (rev (map (\<lambda>it. (key it, it)) resources))"

definition topo_sort_resources :: "module_ir \<Rightarrow> item list \<Rightarrow> cross_feature_index \<Rightarrow> item list" where
  "topo_sort_resources m resources ix =
     (let in_degree0 = bmap_of (map (\<lambda>it. (key it, 0)) resources) in
      case add_edges (fk_edges m ix resources) (\<lambda>_. [], in_degree0) of (dependents, in_degree) \<Rightarrow>
      let ready = map fst (filter (\<lambda>(k, deg). deg = 0) in_degree);
          popped = kahn dependents ready in_degree;
          emitted = filter (\<lambda>k. by_key resources k \<noteq> None) popped;
          ordered = List.map_filter (by_key resources) popped in
      if length ordered \<noteq> length resources then
        ordered @ List.map_filter (by_key resources) (filter (\<lambda>k. k \<notin> set emitted) (map fst in_degree))
      else ordered)"

definition module_resources :: "module_ir \<Rightarrow> item list" where
  "module_resources m = concat (map (\<lambda>f. map (\<lambda>r. (f, r)) (fe_resources f)) m)"


section \<open>Degrees\<close>

lemma map_of_adjust: "map_of (adjust k g deg) x = (if x = k then map_option g (map_of deg x) else map_of deg x)"
  by (induction deg) (auto simp: adjust_def)

lemma degree_adjust_pred: "degree (adjust d (\<lambda>n. n - Suc 0) deg) x = (if x = d then degree deg d - 1 else degree deg x)"
  by (auto simp: degree_def map_of_adjust split: option.splits)

lemma keys_adjust [simp]: "map fst (adjust k g deg) = map fst deg"
  by (induction deg) (auto simp: adjust_def)

lemma relax_spec:
  "relax ds ready deg = (ready', deg') \<Longrightarrow> distinct ds \<Longrightarrow> strictly_sorted ready \<Longrightarrow>
   (\<forall>x. degree deg' x = (if x \<in> set ds then degree deg x - 1 else degree deg x)) \<and>
   set ready' = set ready \<union> {d \<in> set ds. degree deg d = 1} \<and> strictly_sorted ready'"
proof (induction ds arbitrary: ready deg)
  case (Cons d ds)
  let ?deg = "if 0 < degree deg d then adjust d (\<lambda>n. n - 1) deg else deg"
  let ?ready = "if degree deg d = 1 then bset_insert d ready else ready"
  have "relax ds ?ready ?deg = (ready', deg')"
    using Cons.prems(1) by (auto simp: Let_def degree_adjust_pred split: if_splits)
  from Cons.IH[OF this] Cons.prems(2,3) have IH:
    "\<forall>x. degree deg' x = (if x \<in> set ds then degree ?deg x - 1 else degree ?deg x)"
    "set ready' = set ?ready \<union> {d \<in> set ds. degree ?deg d = 1}" "strictly_sorted ready'"
    by simp_all
  have deg: "degree ?deg x = (if x = d then degree deg d - 1 else degree deg x)" for x
    by (simp add: degree_adjust_pred)
  show ?case
  proof (intro conjI)
    show "\<forall>x. degree deg' x = (if x \<in> set (d # ds) then degree deg x - 1 else degree deg x)"
      using IH(1) Cons.prems(2) unfolding deg by auto
    show "set ready' = set ready \<union> {x \<in> set (d # ds). degree deg x = 1}"
      using IH(2) Cons.prems(2) unfolding deg by auto
    show "strictly_sorted ready'" by (rule IH)
  qed
qed simp

section \<open>The invariant of the loop\<close>

definition preds :: "('k::linorder \<times> 'k) set \<Rightarrow> 'k \<Rightarrow> 'k set" where
  "preds E k = {t. (t, k) \<in> E}"

definition kahn_inv :: "('k::linorder \<times> 'k) set \<Rightarrow> 'k set \<Rightarrow> 'k set \<Rightarrow> 'k list \<Rightarrow> ('k \<times> nat) list \<Rightarrow> bool" where
  "kahn_inv E K P ready deg \<longleftrightarrow> strictly_sorted ready \<and> (\<forall>k \<in> K. degree deg k = card (preds E k - P)) \<and>
     set ready = {k \<in> K - P. degree deg k = 0} \<and> (\<forall>k \<in> P. preds E k \<subseteq> P)"

definition graph_ok :: "('k::linorder \<times> 'k) set \<Rightarrow> 'k set \<Rightarrow> ('k \<Rightarrow> 'k list) \<Rightarrow> bool" where
  "graph_ok E K dependents \<longleftrightarrow> finite K \<and> E \<subseteq> K \<times> K \<and> (\<forall>k. distinct (dependents k) \<and> set (dependents k) = {d. (k, d) \<in> E})"

lemma finite_preds: "graph_ok E K deps \<Longrightarrow> finite (preds E k)"
  unfolding graph_ok_def preds_def by (rule finite_subset[of _ K]) auto

lemma kahn_inv_step:
  assumes g: "graph_ok E K deps" and inv: "kahn_inv E K P (k # ready) deg"
    and r: "relax (deps k) ready deg = (ready', deg')"
  shows "kahn_inv E K (insert k P) ready' deg'" "k \<in> K - P" "preds E k \<subseteq> P"
proof -
  have deps: "distinct (deps k)" "set (deps k) = {d. (k, d) \<in> E}" and EK: "E \<subseteq> K \<times> K"
    using g by (auto simp: graph_ok_def)
  have sorted: "strictly_sorted ready" "k \<notin> set ready"
    using inv strictly_sorted_distinct[of "k # ready"] by (auto simp: kahn_inv_def)
  have kset: "insert k (set ready) = {k \<in> K - P. degree deg k = 0}" using inv by (simp add: kahn_inv_def)
  have deg: "\<forall>k \<in> K. degree deg k = card (preds E k - P)" and closed: "\<forall>k \<in> P. preds E k \<subseteq> P"
    using inv by (auto simp: kahn_inv_def)
  show kK: "k \<in> K - P" using kset by auto
  have "degree deg k = 0" using kset by blast
  then have "card (preds E k - P) = 0" using deg kK by simp
  then show pk: "preds E k \<subseteq> P" using finite_preds[OF g, of k] by simp
  from relax_spec[OF r deps(1) sorted(1)] have r':
    "\<forall>x. degree deg' x = (if (k, x) \<in> E then degree deg x - 1 else degree deg x)"
    "set ready' = set ready \<union> {d. (k, d) \<in> E \<and> degree deg d = 1}" "strictly_sorted ready'"
    using deps(2) by auto
  have deg': "\<forall>x \<in> K. degree deg' x = card (preds E x - insert k P)"
  proof
    fix x assume "x \<in> K"
    have "preds E x - insert k P = (preds E x - P) - (if (k, x) \<in> E then {k} else {})"
      by (auto simp: preds_def)
    moreover have "card ((preds E x - P) - {k}) = card (preds E x - P) - 1" if "(k, x) \<in> E"
      using that kK by (intro card_Diff_singleton) (simp add: preds_def)
    ultimately show "degree deg' x = card (preds E x - insert k P)"
      using r'(1) deg \<open>x \<in> K\<close> by auto
  qed
  have "set ready' = {x \<in> K - insert k P. degree deg' x = 0}"
  proof (rule set_eqI)
    fix x
    have fresh: "x \<notin> P \<and> x \<noteq> k \<and> x \<in> K" if "(k, x) \<in> E"
      using that closed pk kK EK by (auto simp: preds_def)
    have "x \<in> set ready \<longleftrightarrow> x \<noteq> k \<and> x \<in> K - P \<and> degree deg x = 0" using kset sorted(2) by auto
    then show "x \<in> set ready' \<longleftrightarrow> x \<in> {x \<in> K - insert k P. degree deg' x = 0}"
      using fresh r'(1,2) by auto
  qed
  then show "kahn_inv E K (insert k P) ready' deg'"
    using r'(3) deg' closed pk by (auto simp: kahn_inv_def)
qed

lemma kahn_spec:
  assumes g: "graph_ok E K deps"
  shows "kahn_inv E K P ready deg \<Longrightarrow> L = kahn deps ready deg \<Longrightarrow>
    distinct L \<and> set L \<subseteq> K - P \<and>
    (\<forall>i < length L. preds E (L ! i) \<subseteq> P \<union> set (take i L)) \<and>
    (\<forall>k \<in> K - (P \<union> set L). \<exists>t \<in> preds E k. t \<in> K - (P \<union> set L))"
  using g
proof (induction deps ready deg arbitrary: P L rule: kahn.induct)
  case (1 dependents deg)
  have "\<exists>t \<in> preds E k. t \<in> K - P" if "k \<in> K - P" for k
  proof -
    have "degree deg k \<noteq> 0" "degree deg k = card (preds E k - P)" using 1 that by (auto simp: kahn_inv_def)
    then have "preds E k - P \<noteq> {}" by (metis card.empty)
    moreover have "preds E k \<subseteq> K" using "1.prems"(3) by (auto simp: graph_ok_def preds_def)
    ultimately show ?thesis by blast
  qed
  with 1 show ?case by simp
next
  case (2 dependents k ready deg)
  obtain ready' deg' where r: "relax (dependents k) ready deg = (ready', deg')" by force
  define L' where "L' = kahn dependents ready' deg'"
  note step = kahn_inv_step[OF "2.prems"(3,1) r]
  have L: "L = k # L'" using "2.prems"(2) r by (simp add: L'_def)
  from "2.IH"[OF r[symmetric] step(1) L'_def "2.prems"(3)] have IH:
    "distinct L'" "set L' \<subseteq> K - insert k P" "\<forall>i < length L'. preds E (L' ! i) \<subseteq> insert k P \<union> set (take i L')"
    "\<forall>x \<in> K - (insert k P \<union> set L'). \<exists>t \<in> preds E x. t \<in> K - (insert k P \<union> set L')"
    by simp_all
  have "preds E (L ! i) \<subseteq> P \<union> set (take i L)" if "i < length L" for i
    using that IH(3) step(3) by (cases i) (auto simp: L)
  moreover have "K - (P \<union> set L) = K - (insert k P \<union> set L')" by (auto simp: L)
  ultimately show ?case using IH(1,2,4) step(2) by (auto simp: L)
qed


section \<open>The graph the edges build\<close>

definition built :: "('k::linorder \<times> 'k) set \<Rightarrow> 'k list \<Rightarrow> ('k \<Rightarrow> 'k list) \<Rightarrow> ('k \<times> nat) list \<Rightarrow> bool" where
  "built E ks deps deg \<longleftrightarrow> finite E \<and> map fst deg = ks \<and>
     (\<forall>k. strictly_sorted (deps k) \<and> set (deps k) = {d. (k, d) \<in> E}) \<and>
     (\<forall>k \<in> set ks. degree deg k = card (preds E k))"

lemma add_edges_built:
  "built E ks deps deg \<Longrightarrow> \<forall>(t, d) \<in> set es. d \<in> set ks \<Longrightarrow> add_edges es (deps, deg) = (deps', deg') \<Longrightarrow>
   built (E \<union> set es) ks deps' deg'"
proof (induction es arbitrary: E deps deg)
  case (Cons e es)
  obtain t d where e: "e = (t, d)" by force
  show ?case
  proof (cases "(t, d) \<in> E")
    case True
    then have "d \<in> set (deps t)" using Cons.prems(1) by (simp add: built_def)
    with Cons.IH[OF Cons.prems(1)] Cons.prems e have "built (E \<union> set es) ks deps' deg'" by simp
    moreover have "E \<union> set (e # es) = E \<union> set es" using True e by auto
    ultimately show ?thesis by simp
  next
    case False
    have b: "finite E" "map fst deg = ks" "\<forall>k. strictly_sorted (deps k) \<and> set (deps k) = {d. (k, d) \<in> E}"
        "\<forall>k \<in> set ks. degree deg k = card (preds E k)" and d: "d \<in> set ks"
      using Cons.prems(1,2) e by (auto simp: built_def)
    obtain n where n: "map_of deg d = Some n" using d b(2) by (metis list.set_map map_of_eq_None_iff not_None_eq)
    have new: "preds (insert (t, d) E) k = (if k = d then insert t (preds E d) else preds E k)" for k
      by (auto simp: preds_def)
    have fin: "finite (preds E d)"
    proof -
      have "preds E d \<subseteq> fst ` E" by (force simp: preds_def)
      then show ?thesis by (rule finite_subset) (simp add: b(1))
    qed
    have card: "card (insert t (preds E d)) = Suc (card (preds E d))"
      using fin False by (simp add: preds_def)
    have "degree (adjust d Suc deg) k = (if k = d then Suc (degree deg d) else degree deg k)" for k
      using n by (auto simp: degree_def map_of_adjust)
    then have b1: "built (insert (t, d) E) ks (deps(t := bset_insert d (deps t))) (adjust d Suc deg)"
      using b card by (auto simp: built_def new)
    have "add_edges es (deps(t := bset_insert d (deps t)), adjust d Suc deg) = (deps', deg')"
      using Cons.prems(3) False b(3) n e by simp
    from Cons.IH[OF b1 _ this] have "built (insert (t, d) E \<union> set es) ks deps' deg'" using Cons.prems(2) by simp
    then show ?thesis by (simp add: e)
  qed
qed simp

lemma degree_zero: "degree (bmap_of (map (\<lambda>k. (k, 0)) ks)) k = 0"
  by (auto simp: degree_def lookup_bmap_of split: option.splits dest!: map_of_SomeD)

lemma keys_zero: "set (map fst (bmap_of (map (\<lambda>k. (k, 0 :: nat)) ks))) = set ks"
proof -
  have "fst ` set (bmap_of kvs) = fst ` set kvs" for kvs :: "('k::linorder \<times> nat) list"
    using lookup_bmap_of[of kvs] by (metis dom_map_of_conv_image_fst set_rev)
  then show ?thesis by (force simp: image_image)
qed

lemma acyclic_no_stuck:
  assumes "finite E" "acyclic E" "finite S" "\<forall>k \<in> S. \<exists>t \<in> preds E k. t \<in> S"
  shows "S = {}"
proof (rule ccontr)
  assume "S \<noteq> {}"
  from assms(1,2) have "wf E" by (rule finite_acyclic_wf)
  then obtain x where "x \<in> S" "\<forall>y. (y, x) \<in> E \<longrightarrow> y \<notin> S" using \<open>S \<noteq> {}\<close> by (metis wf_eq_minimal ex_in_conv)
  with assms(4) show False by (auto simp: preds_def)
qed

lemma kahn_start:
  assumes "built E ks deps deg" "E \<subseteq> set ks \<times> set ks" "strictly_sorted ks"
  shows "graph_ok E (set ks) deps" "kahn_inv E (set ks) {} (map fst (filter (\<lambda>(k, d). d = 0) deg)) deg"
proof -
  have b: "map fst deg = ks" "\<forall>k. strictly_sorted (deps k) \<and> set (deps k) = {d. (k, d) \<in> E}"
      "\<forall>k \<in> set ks. degree deg k = card (preds E k)" using assms(1) by (auto simp: built_def)
  show "graph_ok E (set ks) deps" using assms(2) b(2) by (auto simp: graph_ok_def strictly_sorted_distinct)
  have dist: "distinct (map fst deg)" using assms(3) b(1) strictly_sorted_distinct by simp
  have "map fst (filter (\<lambda>(k, d). d = 0) deg) = filter (\<lambda>k. degree deg k = 0) ks"
  proof -
    have "degree deg k = d" if "(k, d) \<in> set deg" for k d
      using that dist by (simp add: degree_def)
    then have "filter (\<lambda>(k, d). d = 0) deg = filter (\<lambda>e. degree deg (fst e) = 0) deg"
      by (intro filter_cong) auto
    then show ?thesis by (simp add: b(1)[symmetric] filter_map comp_def)
  qed
  then show "kahn_inv E (set ks) {} (map fst (filter (\<lambda>(k, d). d = 0) deg)) deg"
    using b(3) assms(3) by (auto simp: kahn_inv_def sorted_wrt_filter)
qed


section \<open>The order of the resources\<close>

definition emit_order :: "module_ir \<Rightarrow> item list" where
  "emit_order m = topo_sort_resources m (module_resources m) (build m)"

lemma fk_edges_keys:
  assumes "(t, d) \<in> set (fk_edges m ix (module_resources m))"
  shows "t \<in> key ` set (module_resources m)" "d \<in> key ` set (module_resources m)"
proof -
  obtain it fi where it: "it \<in> set (module_resources m)" "fi \<in> set (rs_fields (snd it))"
      "field_edge m ix (key it) (fi_type_ref fi) = Some (t, d)"
    using assms by (auto simp: fk_edges_def List.map_filter_def)
  then show "d \<in> key ` set (module_resources m)"
    by (auto simp: field_edge_def Let_def split: TypeRef.splits option.splits if_splits)
  from it(3) have "feature_declares_resource m (fst t) (snd t)"
    by (auto simp: field_edge_def Let_def split: TypeRef.splits option.splits if_splits)
  then obtain f r where "f \<in> set m" "r \<in> set (fe_resources f)" "fe_name f = fst t" "rs_name r = snd t"
    by (auto simp: feature_declares_resource_def list_ex_iff)
  then show "t \<in> key ` set (module_resources m)"
    by (intro image_eqI[of _ _ "(f, r)"]) (auto simp: key_def module_resources_def)
qed

lemma by_key_some:
  assumes "distinct (map key resources)" "it \<in> set resources"
  shows "by_key resources (key it) = Some it"
proof -
  have "distinct (map fst (rev (map (\<lambda>it. (key it, it)) resources)))"
    using assms(1) by (simp add: comp_def rev_map[symmetric])
  then show ?thesis unfolding by_key_def using assms(2) by (intro map_of_is_SomeI) auto
qed

lemma map_filter_by_key:
  assumes "distinct (map key resources)" "set ks \<subseteq> key ` set resources"
  shows "map key (List.map_filter (by_key resources) ks) = ks"
    "set (List.map_filter (by_key resources) ks) \<subseteq> set resources"
    "filter (\<lambda>k. by_key resources k \<noteq> None) ks = ks"
proof -
  show "map key (List.map_filter (by_key resources) ks) = ks"
    using assms(2) by (induction ks) (auto simp: List.map_filter_simps by_key_some[OF assms(1)])
  show "set (List.map_filter (by_key resources) ks) \<subseteq> set resources"
    using assms(2) by (auto simp: List.map_filter_def by_key_some[OF assms(1)])
  show "filter (\<lambda>k. by_key resources k \<noteq> None) ks = ks"
    using assms(2) by (induction ks) (auto simp: by_key_some[OF assms(1)])
qed

lemma topo_sort_keys:
  assumes d: "distinct (map key resources)"
    and E: "set (fk_edges m ix resources) \<subseteq> key ` set resources \<times> key ` set resources"
  obtains L where "distinct L" "set L \<subseteq> key ` set resources"
    "\<forall>i < length L. preds (set (fk_edges m ix resources)) (L ! i) \<subseteq> set (take i L)"
    "acyclic (set (fk_edges m ix resources)) \<longrightarrow> set L = key ` set resources"
    "mset (map key (topo_sort_resources m resources ix)) = mset (map key resources)"
    "prefix L (map key (topo_sort_resources m resources ix))"
    "set (topo_sort_resources m resources ix) \<subseteq> set resources"
proof -
  let ?E = "set (fk_edges m ix resources)" and ?deg0 = "bmap_of (map (\<lambda>it. (key it, 0 :: nat)) resources)"
  let ?ks = "map fst ?deg0" and ?K = "key ` set resources"
  obtain deps deg where st: "add_edges (fk_edges m ix resources) (\<lambda>_. [], ?deg0) = (deps, deg)" by force
  have zero: "?deg0 = bmap_of (map (\<lambda>k. (k, 0)) (map key resources))" by (simp add: comp_def)
  have ks: "set ?ks = ?K" "strictly_sorted ?ks" unfolding zero using keys_zero[of "map key resources"] by simp_all
  have "built {} ?ks (\<lambda>_. []) ?deg0" unfolding zero built_def by (simp add: preds_def degree_zero del: map_map)
  from add_edges_built[OF this _ st] have b: "built ?E ?ks deps deg" using E ks(1) by auto
  note start = kahn_start[OF b _ ks(2), unfolded ks(1), OF E]
  define L where "L = kahn deps (map fst (filter (\<lambda>(k, d). d = 0) deg)) deg"
  from kahn_spec[OF start L_def] have L: "distinct L" "set L \<subseteq> ?K" "\<forall>i < length L. preds ?E (L ! i) \<subseteq> set (take i L)"
      "\<forall>k \<in> ?K - set L. \<exists>t \<in> preds ?E k. t \<in> ?K - set L" by simp_all
  have all: "set L = ?K" if "acyclic ?E"
    using acyclic_no_stuck[OF _ that _ L(4)] L(2) by auto
  let ?rem = "filter (\<lambda>k. k \<notin> set L) (map fst deg)"
  have degks: "map fst deg = ?ks" using b by (simp add: built_def)
  have topo: "map key (topo_sort_resources m resources ix) = L @ ?rem \<and>
      set (topo_sort_resources m resources ix) \<subseteq> set resources"
  proof -
    have rem: "set ?rem \<subseteq> ?K" using degks ks(1) by auto
    have len: "length (List.map_filter (by_key resources) L) = length L"
      using map_filter_by_key(1)[OF d L(2)] by (metis length_map)
    have "?rem = []" if "length L = length resources"
    proof -
      have "card (set L) = card ?K" using that L(1) d by (metis distinct_card length_map list.set_map)
      then have "set L = ?K" using L(2) by (simp add: card_subset_eq)
      then show ?thesis using degks ks(1) by (auto simp: filter_empty_conv)
    qed
    then show ?thesis
      using map_filter_by_key[OF d L(2)] map_filter_by_key[OF d rem] st len
      by (auto simp: topo_sort_resources_def Let_def L_def[symmetric])
  qed
  have "distinct ?ks" using ks(2) by (rule strictly_sorted_distinct)
  then have "distinct (L @ ?rem)" "set (L @ ?rem) = ?K" using L(1,2) degks ks(1) by auto
  then have "mset (map key (topo_sort_resources m resources ix)) = mset (map key resources)"
    using topo d by (metis list.set_map set_eq_iff_mset_eq_distinct)
  then show ?thesis using that[of L] L all topo by auto
qed


section \<open>Properties\<close>

text \<open>
  C27. Every resource of a module gets exactly one migration: when no two resources share a
  \<^verbatim>\<open>(feature, resource)\<close> key, the emission order is a permutation of the module's resources, whatever
  their foreign keys (cycles included).
\<close>

theorem emit_order_permutes:
  assumes "distinct (map key (module_resources m))"
  shows "mset (emit_order m) = mset (module_resources m)"
proof -
  let ?R = "module_resources m"
  have "set (fk_edges m (build m) ?R) \<subseteq> key ` set ?R \<times> key ` set ?R" using fk_edges_keys by auto
  with assms obtain L where "mset (map key (emit_order m)) = mset (map key ?R)" and sub: "set (emit_order m) \<subseteq> set ?R"
    unfolding emit_order_def by (rule topo_sort_keys)
  then have eq: "mset (map key (emit_order m)) = mset (map key ?R)" by simp
  then have dist: "distinct (map key (emit_order m))" using assms by (metis mset_eq_imp_distinct_iff)
  have "card (set (emit_order m)) = card (set ?R)"
    using dist assms eq by (metis distinct_card distinct_map mset_eq_length length_map)
  then have "set (emit_order m) = set ?R" using sub by (simp add: card_subset_eq)
  with dist assms show ?thesis by (metis distinct_map set_eq_iff_mset_eq_distinct)
qed

text \<open>The example: a post refers to its author, declared in another feature, and to its parent post.\<close>

definition sample_field :: "string \<Rightarrow> TypeRef \<Rightarrow> field_ir" where
  "sample_field name t =
     \<lparr>fi_name = name, fi_type_ref = t, fi_required = True, fi_unique = False, fi_default = None,
      fi_derived_from = None, fi_constraints = default_constraints, fi_full_text = False, fi_owner_axis = None, fi_cross_feature_target = None\<rparr>"

definition sample_resource :: "string \<Rightarrow> field_ir list \<Rightarrow> resource_ir" where
  "sample_resource name fs = \<lparr>rs_name = name, rs_tenancy = None, rs_soft_delete = False, rs_soft_delete_actor = False,
     rs_timestamps = None, rs_fields = fs, rs_constraints = [], rs_retention = None, rs_composite_key = None, rs_polymorphic_refs = [],
     rs_lifecycle = None, rs_conventions = []\<rparr>"

definition sample_feature :: "string \<Rightarrow> resource_ir list \<Rightarrow> feature_ir" where
  "sample_feature name rs = \<lparr>fe_name = name, fe_uses = [], fe_defaults = \<lparr>df_tenancy = None, df_timestamps = False, df_rate_limit = None, df_audit = None\<rparr>,
     fe_sessions = None, fe_resources = rs, fe_records = [], fe_enums = [], fe_commands = [],
     fe_queries = [], fe_policy_categories = [], fe_events = [], fe_event_groups = [], fe_synth_origins = []\<rparr>"

definition sample_module :: module_ir where
  "sample_module =
     [sample_feature ''blog'' [sample_resource ''Post''
         [sample_field ''author'' (UserDefined \<lparr>qn_feature = None, qn_name = ''User''\<rparr>),
          sample_field ''parent'' (UserDefined \<lparr>qn_feature = None, qn_name = ''Post''\<rparr>),
          sample_field ''title'' (Builtin BtText)]],
      sample_feature ''users'' [sample_resource ''User'' []]]"

theorem emit_order_permutes_witness: "mset (emit_order sample_module) = mset (module_resources sample_module)"
  by (rule emit_order_permutes) (simp add: sample_module_def sample_feature_def sample_resource_def module_resources_def key_def)

text \<open>
  C28. Tables are created before they are referenced: when the foreign keys between distinct resources
  have no cycle, the target of every foreign key comes strictly before its dependent in the emission
  order.
\<close>

theorem emit_order_respects_foreign_keys:
  assumes "distinct (map key (module_resources m))" "acyclic (set (fk_edges m (build m) (module_resources m)))"
    "(target, dependent) \<in> set (fk_edges m (build m) (module_resources m))"
  shows "\<exists>i j. i < j \<and> j < length (emit_order m) \<and> key (emit_order m ! i) = target \<and> key (emit_order m ! j) = dependent"
proof -
  let ?R = "module_resources m" and ?E = "set (fk_edges m (build m) (module_resources m))"
  have "?E \<subseteq> key ` set ?R \<times> key ` set ?R" using fk_edges_keys by auto
  with assms(1) obtain L where L: "distinct L" "\<forall>i < length L. preds ?E (L ! i) \<subseteq> set (take i L)"
      "acyclic ?E \<longrightarrow> set L = key ` set ?R" "prefix L (map key (emit_order m))"
    unfolding emit_order_def by (rule topo_sort_keys)
  have "dependent \<in> set L" using L(3) assms(2,3) fk_edges_keys(2) by blast
  then obtain j where j: "j < length L" "L ! j = dependent" by (auto simp: in_set_conv_nth)
  then have "target \<in> set (take j L)" using L(2) assms(3) by (auto simp: preds_def)
  then obtain i where i: "i < j" "L ! i = target" using j(1) by (auto simp: in_set_conv_nth)
  obtain rest where out: "map key (emit_order m) = L @ rest" using L(4) by (auto simp: prefix_def)
  then have len: "length L \<le> length (emit_order m)" by (metis length_append length_map le_add1)
  have "key (emit_order m ! k) = L ! k" if "k < length L" for k
    using that out len by (metis nth_append nth_map order_less_le_trans)
  with i j len show ?thesis by (intro exI[of _ i] exI[of _ j]) auto
qed

theorem emit_order_respects_foreign_keys_witness:
  "\<exists>i j. i < j \<and> j < length (emit_order sample_module) \<and>
     key (emit_order sample_module ! i) = (''users'', ''User'') \<and>
     key (emit_order sample_module ! j) = (''blog'', ''Post'')"
proof -
  have edges: "fk_edges sample_module (build sample_module) (module_resources sample_module) =
      [((''users'', ''User''), (''blog'', ''Post''))]"
    by code_simp
  have "acyclic {((''users'' :: string, ''User'' :: string), (''blog'' :: string, ''Post'' :: string))}"
    unfolding acyclic_def by (auto elim: tranclE dest: tranclD)
  moreover have "distinct (map key (module_resources sample_module))"
    by (simp add: sample_module_def sample_feature_def sample_resource_def module_resources_def key_def)
  ultimately show ?thesis
    using emit_order_respects_foreign_keys[of sample_module] by (simp add: edges)
qed

end
