(* ===== verification/Schema_Diff.thy ===== *)
theory Schema_Diff
  imports Source_Text
begin

text \<open>
  Incremental migrations, first half (\<^verbatim>\<open>lazuli_codegen_go/src/emitter/schema_diff\<close>): recovering the
  columns of the last generated \<^verbatim>\<open>CREATE TABLE\<close> and comparing them with the current ones. Token
  positions are suffixes of the token list; the file read that precedes the parser is not modelled.

  Shown here: the parser inverts the printed table; the difference is exact and patching the baseline
  with it gives the current columns; it is empty exactly when names and types agree.
\<close>

section \<open>Columns and their difference\<close>

record column =
  co_name :: string
  co_sql_type :: string
  co_nullable :: bool
  co_default :: "string option"

definition column_new :: "string \<Rightarrow> string \<Rightarrow> bool \<Rightarrow> column" where
  "column_new name sql_type nullable =
     \<lparr>co_name = name, co_sql_type = sql_type, co_nullable = nullable, co_default = None\<rparr>"

definition with_default :: "column \<Rightarrow> string \<Rightarrow> column" where
  "with_default c d = c\<lparr>co_default := Some d\<rparr>"

record type_change =
  tc_column :: string
  tc_old_type :: string
  tc_new_type :: string

type_synonym resource_schema = "column list"

record schema_diff =
  sd_adds :: "column list"
  sd_drops :: "column list"
  sd_type_changes :: "type_change list"

definition schema_find :: "resource_schema \<Rightarrow> string \<Rightarrow> column option" where
  "schema_find columns name = find (\<lambda>c. co_name c = name) columns"

definition schema_diff_is_empty :: "schema_diff \<Rightarrow> bool" where
  "schema_diff_is_empty d \<longleftrightarrow> sd_adds d = [] \<and> sd_drops d = [] \<and> sd_type_changes d = []"

definition diff_adds :: "resource_schema \<Rightarrow> resource_schema \<Rightarrow> column list" where
  "diff_adds baseline current = filter (\<lambda>c. schema_find baseline (co_name c) = None) current"

definition diff_drops :: "resource_schema \<Rightarrow> resource_schema \<Rightarrow> column list" where
  "diff_drops baseline current = filter (\<lambda>b. schema_find current (co_name b) = None) baseline"

definition diff_type_changes :: "resource_schema \<Rightarrow> resource_schema \<Rightarrow> type_change list" where
  "diff_type_changes baseline current = List.map_filter (\<lambda>c.
     case schema_find baseline (co_name c) of
       None \<Rightarrow> None
     | Some b \<Rightarrow> if co_sql_type b \<noteq> co_sql_type c
         then Some \<lparr>tc_column = co_name c, tc_old_type = co_sql_type b, tc_new_type = co_sql_type c\<rparr> else None) current"

definition diff :: "resource_schema \<Rightarrow> resource_schema \<Rightarrow> schema_diff" where
  "diff baseline current = \<lparr>sd_adds = diff_adds baseline current, sd_drops = diff_drops baseline current,
     sd_type_changes = diff_type_changes baseline current\<rparr>"

section \<open>The baseline parser\<close>

datatype SchemaParseError = Io string | MissingCreateTable | UnterminatedCreateTable

definition line_starts_create_table :: "string \<Rightarrow> bool" where
  "line_starts_create_table line = starts_with (to_ascii_uppercase (trim_start line)) ''CREATE TABLE''"

definition is_table_level_constraint :: "string \<Rightarrow> bool" where
  "is_table_level_constraint body =
     (let upper = to_ascii_uppercase body in
      list_ex (\<lambda>p. starts_with upper p)
        [''PRIMARY KEY '', ''PRIMARY KEY('', ''UNIQUE '', ''UNIQUE('', ''FOREIGN KEY '', ''FOREIGN KEY('',
         ''CHECK '', ''CHECK('', ''CONSTRAINT ''])"

definition strip_ident_quotes :: "string \<Rightarrow> string" where
  "strip_ident_quotes raw =
     rev (dropWhile (\<lambda>c. c = dquote) (rev (dropWhile (\<lambda>c. c = dquote) raw)))"

definition suffix_keywords :: "string list" where
  "suffix_keywords = [''CHECK'', ''REFERENCES'', ''UNIQUE'', ''PRIMARY'', ''GENERATED'', ''COLLATE'']"

definition ends_default :: "string \<Rightarrow> bool" where
  "ends_default tok \<longleftrightarrow> to_ascii_uppercase tok \<in> set suffix_keywords"

function column_tokens ::
  "string list \<Rightarrow> string list \<Rightarrow> bool \<Rightarrow> string option \<Rightarrow> string list \<times> bool \<times> string option" where
  "column_tokens [] parts nullable dflt = (parts, nullable, dflt)"
| "column_tokens (tok # rest) parts nullable dflt =
     (let upper = to_ascii_uppercase tok in
      if upper = ''NOT'' then
        (if rest \<noteq> [] \<and> to_ascii_uppercase (hd rest) = ''NULL''
         then column_tokens (tl rest) parts False dflt
         else column_tokens rest parts nullable dflt)
      else if upper = ''NULL'' then column_tokens rest parts nullable dflt
      else if upper = ''DEFAULT'' then
        let expr = takeWhile (\<lambda>t. \<not> ends_default t) rest in
        column_tokens (dropWhile (\<lambda>t. \<not> ends_default t) rest) parts nullable
          (if expr \<noteq> [] then Some (join '' '' expr) else dflt)
      else if upper \<in> set suffix_keywords then (parts, nullable, dflt)
      else if dflt \<noteq> None then (parts, nullable, dflt)
      else column_tokens rest (parts @ [tok]) nullable dflt)"
  by pat_completeness auto
termination
  by (relation "measure (\<lambda>(ts, p, n, d). length ts)") (auto simp: less_Suc_eq_le length_dropWhile_le)

declare column_tokens.simps(2) [simp del]

definition parse_column_line :: "string \<Rightarrow> column option" where
  "parse_column_line body = (case split_whitespace body of
       [] \<Rightarrow> None
     | raw_name # rest \<Rightarrow>
         let name = strip_ident_quotes raw_name in
         if name = [] then None
         else case column_tokens rest [] True None of (parts, nullable, dflt) \<Rightarrow>
           if parts = [] then None
           else Some \<lparr>co_name = name, co_sql_type = join '' '' parts, co_nullable = nullable, co_default = dflt\<rparr>)"

definition column_body :: "string \<Rightarrow> string" where
  "column_body line =
     (let without_comment = (case find_str ''--'' line of Some idx \<Rightarrow> trim_end (take idx line) | None \<Rightarrow> line) in
      trim (case strip_suffix '','' without_comment of Some b \<Rightarrow> b | None \<Rightarrow> without_comment))"

fun body_columns :: "string list \<Rightarrow> column list \<Rightarrow> (SchemaParseError, resource_schema) result" where
  "body_columns [] columns = Err UnterminatedCreateTable"
| "body_columns (raw # raws) columns =
     (let line = trim raw in
      if line = [] then body_columns raws columns
      else if starts_with line '');'' \<or> line = '')'' then Ok columns
      else let body = column_body line in
      if body = [] then body_columns raws columns
      else if is_table_level_constraint body then body_columns raws columns
      else case parse_column_line body of
          Some column \<Rightarrow> body_columns raws (columns @ [column])
        | None \<Rightarrow> body_columns raws columns)"

definition parse_baseline_from_str :: "string \<Rightarrow> (SchemaParseError, resource_schema) result" where
  "parse_baseline_from_str sql =
     (let lines = str_lines sql in
      case dropWhile (\<lambda>l. \<not> line_starts_create_table l) lines of
        [] \<Rightarrow> Err MissingCreateTable
      | _ # body_lines \<Rightarrow> body_columns body_lines [])"

section \<open>The difference is exact\<close>

lemma schema_find_None_iff: "schema_find cs name = None \<longleftrightarrow> name \<notin> co_name ` set cs"
  by (auto simp: schema_find_def find_None_iff)

interpretation column_diff: keyed_diff co_name co_name diff_adds diff_drops
  by unfold_locales (auto simp: diff_adds_def diff_drops_def schema_find_None_iff)

lemma schema_find_distinct:
  "distinct (map co_name cs) \<Longrightarrow> c \<in> set cs \<Longrightarrow> schema_find cs (co_name c) = Some c"
  unfolding schema_find_def by (induction cs) (auto simp: image_iff)

definition patch_type :: "type_change list \<Rightarrow> column \<Rightarrow> column" where
  "patch_type tcs c = (case find (\<lambda>t. tc_column t = co_name c) tcs of
     Some t \<Rightarrow> c\<lparr>co_sql_type := tc_new_type t\<rparr> | None \<Rightarrow> c)"

text \<open>What running the plan does to a table: drop, retype, add.\<close>

definition apply_diff :: "schema_diff \<Rightarrow> resource_schema \<Rightarrow> resource_schema" where
  "apply_diff d baseline =
     map (patch_type (sd_type_changes d)) (filter (\<lambda>c. co_name c \<notin> co_name ` set (sd_drops d)) baseline) @ sd_adds d"

definition column_types :: "resource_schema \<Rightarrow> string \<rightharpoonup> string" where
  "column_types cs name = map_option co_sql_type (schema_find cs name)"

lemma patch_type_name [simp]: "co_name (patch_type tcs c) = co_name c"
  by (simp add: patch_type_def split: option.splits)

lemma find_append: "find P (xs @ ys) = (case find P xs of None \<Rightarrow> find P ys | Some x \<Rightarrow> Some x)"
  by (induction xs) auto

lemma find_unique:
  assumes "x \<in> set xs" "P x" "\<And>y. y \<in> set xs \<Longrightarrow> P y \<Longrightarrow> y = x"
  shows "find P xs = Some x"
proof (cases "find P xs")
  case None
  with assms(1,2) show ?thesis by (simp add: find_None_iff)
next
  case (Some y)
  with assms(3)[of y] find_SomeD[OF Some] show ?thesis by simp
qed

lemma schema_find_append:
  "schema_find (xs @ ys) name = (case schema_find xs name of None \<Rightarrow> schema_find ys name | Some x \<Rightarrow> Some x)"
  unfolding schema_find_def find_append ..

lemma type_change_found:
  assumes "distinct (map co_name current)" "c \<in> set current" "schema_find baseline (co_name c) = Some b"
  shows "find (\<lambda>t. tc_column t = co_name c) (diff_type_changes baseline current) =
    (if co_sql_type b = co_sql_type c then None
     else Some \<lparr>tc_column = co_name c, tc_old_type = co_sql_type b, tc_new_type = co_sql_type c\<rparr>)"
proof -
  have same: "c' = c" if "c' \<in> set current" "co_name c' = co_name c" for c'
    using assms(1,2) that by (auto simp: distinct_map dest: inj_onD)
  have mem: "t \<in> set (diff_type_changes baseline current) \<and> tc_column t = co_name c \<longleftrightarrow>
      co_sql_type b \<noteq> co_sql_type c \<and> t = \<lparr>tc_column = co_name c, tc_old_type = co_sql_type b, tc_new_type = co_sql_type c\<rparr>" for t
  proof
    assume "t \<in> set (diff_type_changes baseline current) \<and> tc_column t = co_name c"
    then obtain c' where "c' \<in> set current" "co_name c' = co_name c"
      "(case schema_find baseline (co_name c') of None \<Rightarrow> None | Some b \<Rightarrow> if co_sql_type b \<noteq> co_sql_type c'
         then Some \<lparr>tc_column = co_name c', tc_old_type = co_sql_type b, tc_new_type = co_sql_type c'\<rparr> else None) = Some t"
      by (auto simp: diff_type_changes_def List.map_filter_def split: option.splits if_splits)
    with same assms(3) show "co_sql_type b \<noteq> co_sql_type c \<and>
        t = \<lparr>tc_column = co_name c, tc_old_type = co_sql_type b, tc_new_type = co_sql_type c\<rparr>"
      by (auto split: if_splits)
  next
    assume "co_sql_type b \<noteq> co_sql_type c \<and> t = \<lparr>tc_column = co_name c, tc_old_type = co_sql_type b, tc_new_type = co_sql_type c\<rparr>"
    then show "t \<in> set (diff_type_changes baseline current) \<and> tc_column t = co_name c"
      using assms(2,3) by (auto simp: diff_type_changes_def List.map_filter_def image_iff intro!: bexI[of _ c])
  qed
  show ?thesis
  proof (cases "co_sql_type b = co_sql_type c")
    case True
    with mem show ?thesis by (auto simp: find_None_iff)
  next
    case False
    with mem show ?thesis by (auto intro: find_unique)
  qed
qed


lemma find_patched:
  "schema_find (map (patch_type tcs) (filter (\<lambda>c. co_name c \<notin> D) cs)) name =
     (if name \<in> D then None else map_option (patch_type tcs) (schema_find cs name))"
  unfolding schema_find_def by (induction cs) auto

lemma apply_diff_types:
  assumes "distinct (map co_name current)"
  shows "column_types (apply_diff (diff baseline current) baseline) name = column_types current name"
proof -
  let ?D = "co_name ` set (diff_drops baseline current)"
  have drops: "name \<in> ?D \<longleftrightarrow> name \<in> co_name ` set baseline \<and> name \<notin> co_name ` set current"
    unfolding column_diff.set_drops by auto
  have look: "schema_find (apply_diff (diff baseline current) baseline) name =
      (case (if name \<in> ?D then None else map_option (patch_type (diff_type_changes baseline current)) (schema_find baseline name)) of
         None \<Rightarrow> schema_find (diff_adds baseline current) name | Some c \<Rightarrow> Some c)"
    using find_patched[of "diff_type_changes baseline current" ?D baseline name]
    by (simp only: apply_diff_def diff_def schema_find_append schema_diff.simps)
  show ?thesis
  proof (cases "schema_find current name")
    case None
    then have no: "name \<notin> co_name ` set current" by (simp add: schema_find_None_iff)
    then have "schema_find (diff_adds baseline current) name = None"
      unfolding schema_find_None_iff column_diff.set_adds by auto
    moreover have "name \<in> ?D \<or> schema_find baseline name = None"
      using no drops by (auto simp: schema_find_None_iff)
    ultimately show ?thesis using None look by (auto simp: column_types_def)
  next
    case (Some c)
    then have c: "c \<in> set current" "co_name c = name" unfolding schema_find_def by (auto dest: find_SomeD)
    then have keep: "name \<notin> ?D" using drops by auto
    show ?thesis
    proof (cases "schema_find baseline name")
      case None
      then have "c \<in> set (diff_adds baseline current)"
        using c by (simp add: diff_adds_def)
      moreover have "distinct (map co_name (diff_adds baseline current))"
        using assms unfolding diff_adds_def by (rule distinct_map_filter)
      ultimately have "schema_find (diff_adds baseline current) name = Some c"
        using schema_find_distinct c(2) by blast
      with None Some keep look show ?thesis by (simp add: column_types_def)
    next
      case b: (Some b)
      then have "co_name b = name" unfolding schema_find_def by (auto dest: find_SomeD)
      with b type_change_found[OF assms c(1), of baseline b] c(2)
      have "co_sql_type (patch_type (diff_type_changes baseline current) b) = co_sql_type c"
        by (simp add: patch_type_def)
      with b Some keep look show ?thesis by (simp add: column_types_def)
    qed
  qed
qed

lemma diff_empty_iff:
  assumes "distinct (map co_name current)"
  shows "schema_diff_is_empty (diff baseline current) \<longleftrightarrow> column_types baseline = column_types current"
proof
  assume "schema_diff_is_empty (diff baseline current)"
  then have "apply_diff (diff baseline current) baseline = baseline"
    by (simp add: schema_diff_is_empty_def diff_def apply_diff_def patch_type_def[abs_def])
  then show "column_types baseline = column_types current"
    using apply_diff_types[OF assms, of baseline] by auto
next
  assume eq: "column_types baseline = column_types current"
  have dom: "name \<in> co_name ` set baseline \<longleftrightarrow> name \<in> co_name ` set current" for name
    using fun_cong[OF eq, of name] schema_find_None_iff[of baseline name] schema_find_None_iff[of current name]
    by (auto simp: column_types_def)
  have "co_sql_type b = co_sql_type c" if "c \<in> set current" "schema_find baseline (co_name c) = Some b" for b c
    using fun_cong[OF eq, of "co_name c"] schema_find_distinct[OF assms that(1)] that(2) by (simp add: column_types_def)
  then have "diff_type_changes baseline current = []"
    unfolding diff_type_changes_def List.map_filter_def
    by (auto simp: filter_empty_conv split: option.splits)
  moreover have "diff_adds baseline current = [] \<and> diff_drops baseline current = []"
    unfolding column_diff.no_diff_iff using dom by blast
  ultimately show "schema_diff_is_empty (diff baseline current)"
    by (simp add: schema_diff_is_empty_def diff_def)
qed


section \<open>The printed table\<close>

record column_words =
  cw_name :: string
  cw_type :: "string list"
  cw_nullable :: bool
  cw_default :: "string list option"

definition column_of :: "column_words \<Rightarrow> column" where
  "column_of w = \<lparr>co_name = cw_name w, co_sql_type = join '' '' (cw_type w), co_nullable = cw_nullable w,
     co_default = map_option (join '' '') (cw_default w)\<rparr>"

definition tail_words :: "column_words \<Rightarrow> string list" where
  "tail_words w = cw_type w @ (if cw_nullable w then [] else [''NOT'', ''NULL'']) @
     (case cw_default w of None \<Rightarrow> [] | Some ds \<Rightarrow> ''DEFAULT'' # ds)"

definition show_column :: "column_words \<Rightarrow> string" where
  "show_column w = join '' '' (cw_name w # tail_words w)"

fun column_lines :: "column_words list \<Rightarrow> string list" where
  "column_lines [] = []"
| "column_lines [w] = [''    '' @ show_column w]"
| "column_lines (w # ws) = (''    '' @ show_column w @ '','') # column_lines ws"

definition show_table :: "string \<Rightarrow> column_words list \<Rightarrow> string" where
  "show_table table ws = concat (map (\<lambda>l. l @ [CHR 0x0A])
     ([''CREATE TABLE IF NOT EXISTS '' @ table @ '' (''] @ column_lines ws @ ['');'']))"

definition plain_word :: "string \<Rightarrow> bool" where
  "plain_word w \<longleftrightarrow> w \<noteq> [] \<and> list_all graphic w \<and> CHR ''-'' \<notin> set w \<and> last w \<noteq> CHR '',''"

definition wf_column :: "column_words \<Rightarrow> bool" where
  "wf_column w \<longleftrightarrow>
     cw_name w \<noteq> [] \<and> list_all (\<lambda>c. is_ascii_lowercase c \<or> is_ascii_digit c \<or> c = CHR ''_'') (cw_name w) \<and>
     to_ascii_uppercase (cw_name w) \<notin> set [''PRIMARY'', ''UNIQUE'', ''FOREIGN'', ''CHECK'', ''CONSTRAINT''] \<and>
     cw_type w \<noteq> [] \<and>
     list_all (\<lambda>t. plain_word t \<and> to_ascii_uppercase t \<notin> set ([''NOT'', ''NULL'', ''DEFAULT''] @ suffix_keywords)) (cw_type w) \<and>
     (case cw_default w of None \<Rightarrow> True
      | Some ds \<Rightarrow> ds \<noteq> [] \<and> list_all (\<lambda>t. plain_word t \<and> \<not> ends_default t) ds)"

lemma column_tokens_types:
  assumes "list_all (\<lambda>t. to_ascii_uppercase t \<notin> set ([''NOT'', ''NULL'', ''DEFAULT''] @ suffix_keywords)) ts"
  shows "column_tokens (ts @ rest) parts n None = column_tokens rest (parts @ ts) n None"
  using assms by (induction ts arbitrary: parts) (simp_all add: column_tokens.simps(2) Let_def)

lemma column_tokens_tail:
  assumes "wf_column w"
  shows "column_tokens (tail_words w) [] True None = (cw_type w, cw_nullable w, map_option (join '' '') (cw_default w))"
proof -
  have up: "to_ascii_uppercase ''NOT'' = ''NOT''" "to_ascii_uppercase ''NULL'' = ''NULL''"
    "to_ascii_uppercase ''DEFAULT'' = ''DEFAULT''" by code_simp+
  have tw: "takeWhile (\<lambda>t. \<not> ends_default t) ds = ds" "dropWhile (\<lambda>t. \<not> ends_default t) ds = []"
    if "list_all (\<lambda>t. plain_word t \<and> \<not> ends_default t) ds" for ds
    using that by (induction ds) auto
  have types: "list_all (\<lambda>t. to_ascii_uppercase t \<notin> set ([''NOT'', ''NULL'', ''DEFAULT''] @ suffix_keywords)) (cw_type w)"
    using assms by (auto simp: wf_column_def list_all_iff)
  have rest: "column_tokens ((if cw_nullable w then [] else [''NOT'', ''NULL'']) @
      (case cw_default w of None \<Rightarrow> [] | Some ds \<Rightarrow> ''DEFAULT'' # ds)) (cw_type w) True None =
      (cw_type w, cw_nullable w, map_option (join '' '') (cw_default w))"
    using assms
    by (cases "cw_nullable w"; cases "cw_default w")
      (simp_all add: column_tokens.simps(2) Let_def up wf_column_def tw)
  show ?thesis
    using column_tokens_types[OF types, of _ "[]" True] rest by (simp add: tail_words_def)
qed

lemma split_whitespace_join:
  "ws \<noteq> [] \<Longrightarrow> \<forall>w \<in> set ws. w \<noteq> [] \<and> (\<forall>c \<in> set w. graphic c) \<Longrightarrow> split_whitespace (join '' '' ws) = ws"
proof (induction ws)
  case (Cons w ws)
  then show ?case
    using split_whitespace_word[of w "join '' '' ws"] split_whitespace_single[of w]
    by (cases ws) (simp_all add: join_Cons)
qed simp

lemma ident_graphic: "is_ascii_lowercase c \<or> is_ascii_digit c \<or> c = CHR ''_'' \<Longrightarrow> graphic c \<and> c \<noteq> CHR ''-'' \<and> c \<noteq> CHR '','' \<and> c \<noteq> CHR '')''"
  by (auto simp: char_class_defs)

lemma plain_name: "wf_column w \<Longrightarrow> plain_word (cw_name w)"
  using ident_graphic last_in_set[of "cw_name w"] by (auto simp: wf_column_def plain_word_def list_all_iff)

lemma plain_words: "wf_column w \<Longrightarrow> \<forall>t \<in> set (cw_name w # tail_words w). plain_word t"
proof -
  assume w: "wf_column w"
  have "plain_word ''NOT''" "plain_word ''NULL''" "plain_word ''DEFAULT''" by code_simp+
  with w plain_name[OF w] show ?thesis
    by (auto simp: tail_words_def wf_column_def list_all_iff split: option.splits)
qed

lemma plain_word_tight: "plain_word w \<Longrightarrow> tight w"
  by (auto simp: plain_word_def tight_def list_all_iff)

lemma show_column_facts:
  assumes "wf_column w"
  shows "tight (show_column w)" "CHR ''-'' \<notin> set (show_column w)" "last (show_column w) \<noteq> CHR '',''"
    "split_whitespace (show_column w) = cw_name w # tail_words w" "CHR 0x0A \<notin> set (show_column w) \<and> CHR 0x0D \<notin> set (show_column w)"
    "\<exists>t. show_column w = cw_name w @ CHR '' '' # t"
proof -
  let ?ws = "cw_name w # tail_words w"
  note plain = plain_words[OF assms]
  have ne: "tail_words w \<noteq> []" using assms by (simp add: tail_words_def wf_column_def)
  show "tight (show_column w)"
    unfolding show_column_def using plain plain_word_tight by (intro tight_join) (auto simp: list_all_iff)
  have sub: "set (join sep xs) \<subseteq> set sep \<union> (\<Union>x \<in> set xs. set x)" for sep and xs :: "string list"
    by (induction sep xs rule: join.induct) auto
  show "CHR ''-'' \<notin> set (show_column w)" "CHR 0x0A \<notin> set (show_column w) \<and> CHR 0x0D \<notin> set (show_column w)"
  proof -
    have chars: "c = CHR '' '' \<or> graphic c \<and> c \<noteq> CHR ''-''" if "c \<in> set (show_column w)" for c
    proof -
      have "c \<in> set '' '' \<union> (\<Union>x \<in> set ?ws. set x)" using sub[of "'' ''" ?ws] that unfolding show_column_def by blast
      then show ?thesis using plain by (auto simp: plain_word_def list_all_iff)
    qed
    have "\<not> graphic CHR 0x0A" "\<not> graphic CHR 0x0D" by (simp_all add: char_class_defs)
    with chars show "CHR ''-'' \<notin> set (show_column w)" "CHR 0x0A \<notin> set (show_column w) \<and> CHR 0x0D \<notin> set (show_column w)"
      by fastforce+
  qed
  have "join sep (xs @ [x]) \<noteq> [] \<and> last (join sep (xs @ [x])) = last x" if "x \<noteq> []" for sep x and xs :: "string list"
    using that by (induction xs) (auto simp: join_Cons)
  from this[of "last ?ws" "'' ''" "butlast ?ws"] plain last_in_set[of ?ws]
  show "last (show_column w) \<noteq> CHR '',''"
    unfolding show_column_def by (metis append_butlast_last_id list.discI plain_word_def)
  show "split_whitespace (show_column w) = ?ws"
    unfolding show_column_def using plain by (intro split_whitespace_join) (auto simp: plain_word_def list_all_iff)
  show "\<exists>t. show_column w = cw_name w @ CHR '' '' # t"
    using ne by (simp add: show_column_def join_Cons)
qed


section \<open>Reading the printed table back\<close>

lemma find_str_absent: "c \<notin> set s \<Longrightarrow> find_str (c # p) s = None"
  by (induction s) (auto simp: starts_with_iff find_str.simps)

lemma column_body_show:
  assumes "wf_column w"
  shows "column_body (show_column w) = show_column w" "column_body (show_column w @ '','') = show_column w"
proof -
  note f = show_column_facts[OF assms]
  have plain: "find_str ''--'' (show_column w) = None" "find_str ''--'' (show_column w @ '','') = None"
    using f(2) by (simp_all add: find_str_absent)
  have no: "strip_suffix '','' (show_column w) = None"
  proof (cases "strip_suffix '','' (show_column w)")
    case (Some b)
    then have "show_column w = b @ '',''" by (simp add: strip_suffix_Some_iff)
    with f(3) show ?thesis by simp
  qed simp
  have yes: "strip_suffix '','' (show_column w @ '','') = Some (show_column w)" by (simp add: strip_suffix_Some_iff)
  show "column_body (show_column w) = show_column w" "column_body (show_column w @ '','') = show_column w"
    using f(1) tight_trim by (simp_all add: column_body_def plain no yes)
qed

lemma upper_ident:
  "is_ascii_lowercase c \<or> is_ascii_digit c \<or> c = CHR ''_'' \<Longrightarrow>
   to_ascii_uppercase_char c \<noteq> CHR '' '' \<and> to_ascii_uppercase_char c \<noteq> CHR ''(''"
proof -
  assume c: "is_ascii_lowercase c \<or> is_ascii_digit c \<or> c = CHR ''_''"
  have "code (to_ascii_uppercase_char c) \<noteq> 32 \<and> code (to_ascii_uppercase_char c) \<noteq> 40"
  proof (cases "is_ascii_lowercase c")
    case True
    then have "code (to_ascii_uppercase_char c) = (code c - 32) mod 256"
      by (simp add: to_ascii_uppercase_char_def)
    moreover have "65 \<le> code c - 32" "code c - 32 < 256" using True unfolding is_ascii_lowercase_def by linarith+
    ultimately show ?thesis by simp
  next
    case False
    with c show ?thesis by (auto simp: to_ascii_uppercase_char_def is_ascii_digit_def is_ascii_lowercase_def)
  qed
  then show ?thesis by auto
qed

lemma not_constraint_word:
  assumes "list_all (\<lambda>c. is_ascii_lowercase c \<or> is_ascii_digit c \<or> c = CHR ''_'') name"
    "to_ascii_uppercase name \<notin> set [''PRIMARY'', ''UNIQUE'', ''FOREIGN'', ''CHECK'', ''CONSTRAINT'']"
  shows "\<not> is_table_level_constraint (name @ CHR '' '' # t)"
proof -
  let ?stop = "\<lambda>c. c \<noteq> CHR '' '' \<and> c \<noteq> CHR ''(''"
  have "\<forall>c \<in> set (to_ascii_uppercase name). ?stop c"
    using assms(1) upper_ident by (auto simp: to_ascii_uppercase_def list_all_iff)
  moreover have "to_ascii_uppercase_char CHR '' '' = CHR '' ''" by code_simp
  ultimately have "takeWhile ?stop (to_ascii_uppercase (name @ CHR '' '' # t)) = to_ascii_uppercase name"
    unfolding to_ascii_uppercase_def map_append by (subst takeWhile_append2) auto
  then have "takeWhile ?stop (p @ r) = to_ascii_uppercase name" if "to_ascii_uppercase (name @ CHR '' '' # t) = p @ r" for p r
    using that by simp
  with assms(2) show ?thesis
    unfolding is_table_level_constraint_def Let_def list_ex_iff starts_with_iff by fastforce
qed

lemma not_constraint: "wf_column w \<Longrightarrow> \<not> is_table_level_constraint (show_column w)"
  using show_column_facts(6)[of w] not_constraint_word[of "cw_name w"] by (auto simp: wf_column_def)

lemma strip_quotes_ident: "dquote \<notin> set s \<Longrightarrow> strip_ident_quotes s = s"
proof -
  assume "dquote \<notin> set s"
  have "dropWhile (\<lambda>c. c = dquote) x = x" if "dquote \<notin> set x" for x
    using that by (cases x) auto
  with \<open>dquote \<notin> set s\<close> show ?thesis by (simp add: strip_ident_quotes_def)
qed

lemma parse_column_show:
  assumes "wf_column w"
  shows "parse_column_line (show_column w) = Some (column_of w)"
proof -
  have "dquote \<notin> set (cw_name w)" "cw_name w \<noteq> []" "cw_type w \<noteq> []"
    using assms by (auto simp: wf_column_def list_all_iff char_class_defs)
  then show ?thesis
    using show_column_facts(4)[OF assms] column_tokens_tail[OF assms]
    by (simp add: parse_column_line_def strip_quotes_ident column_of_def)
qed

lemma trim_indented: "tight s \<Longrightarrow> trim (''    '' @ s) = s"
  using tight_trim[of s] by (simp add: trim_def char_class_defs)

lemma body_columns_step:
  assumes "wf_column w" "sep = [] \<or> sep = '',''"
  shows "body_columns ((''    '' @ show_column w @ sep) # raws) cols = body_columns raws (cols @ [column_of w])"
proof -
  note f = show_column_facts[OF assms(1)]
  have tight: "tight (show_column w @ sep)" using f(1) assms(2) by (auto simp: tight_def char_class_defs)
  obtain c r where c: "show_column w = c # r" "c \<noteq> CHR '')''"
  proof -
    obtain t where "show_column w = cw_name w @ CHR '' '' # t" using f(6) by blast
    moreover obtain c r where "cw_name w = c # r" "c \<noteq> CHR '')''"
      using assms(1) ident_graphic by (cases "cw_name w") (auto simp: wf_column_def)
    ultimately show ?thesis using that by simp
  qed
  have line: "trim (''    '' @ show_column w @ sep) = show_column w @ sep" using tight by (rule trim_indented)
  have "column_body (show_column w @ sep) = show_column w" using assms(2) column_body_show[OF assms(1)] by auto
  moreover have "show_column w @ sep \<noteq> []" "\<not> starts_with (show_column w @ sep) '');''" "show_column w @ sep \<noteq> '')''"
    "show_column w \<noteq> []" using c by (auto simp: starts_with_iff)
  ultimately show ?thesis
    using not_constraint[OF assms(1)] parse_column_show[OF assms(1)]
    by (simp only: body_columns.simps(2) line Let_def if_False simp_thms option.case)
qed

lemma body_columns_show:
  "list_all wf_column ws \<Longrightarrow> body_columns (column_lines ws @ ['');'']) cols = Ok (cols @ map column_of ws)"
proof (induction ws arbitrary: cols rule: column_lines.induct)
  case 1
  have "trim '');'' = '');''" by (rule tight_trim) (simp add: tight_def char_class_defs)
  then show ?case by (simp add: starts_with_iff)
next
  case (2 w)
  have "trim '');'' = '');''" by (rule tight_trim) (simp add: tight_def char_class_defs)
  with 2 body_columns_step[of w "[]"] show ?case by (simp add: starts_with_iff)
next
  case (3 w v ws)
  with body_columns_step[of w "'',''"] show ?case by simp
qed

section \<open>Where the parser gives up\<close>

definition closes_table :: "string \<Rightarrow> bool" where
  "closes_table raw \<longleftrightarrow> starts_with (trim raw) '');'' \<or> trim raw = '')''"

lemma body_columns_errors:
  "body_columns raws cols = Err e \<longleftrightarrow> e = UnterminatedCreateTable \<and> \<not> list_ex closes_table raws"
proof (induction raws arbitrary: cols)
  case (Cons raw raws)
  show ?case
  proof (cases "closes_table raw")
    case True
    then have "trim raw \<noteq> []" by (auto simp: closes_table_def starts_with_iff)
    with True show ?thesis by (simp add: closes_table_def)
  next
    case False
    then have "\<not> starts_with (trim raw) '');''" "trim raw \<noteq> '')''" by (auto simp: closes_table_def)
    then have "\<exists>cols'. body_columns (raw # raws) cols = body_columns raws cols'"
      by (simp add: Let_def split: option.split) blast
    then obtain cols' where "body_columns (raw # raws) cols = body_columns raws cols'" by blast
    then show ?thesis using Cons.IH[of cols'] False by (simp del: body_columns.simps)
  qed
qed auto

section \<open>Properties\<close>

text \<open>
  C29. The schema difference is a correct plan: for columns with distinct names, dropping, retyping and
  adding what the difference lists turns the baseline into a table with exactly the current column
  names and types; and the difference is empty exactly when names and types already agree.
\<close>

theorem schema_diff_plan:
  assumes "distinct (map co_name current)"
  shows "column_types (apply_diff (diff baseline current) baseline) = column_types current \<and>
    (schema_diff_is_empty (diff baseline current) \<longleftrightarrow> column_types baseline = column_types current)"
  using apply_diff_types[OF assms] diff_empty_iff[OF assms] by blast

theorem schema_diff_plan_witness:
  "column_types (apply_diff (diff [column_new ''a'' ''TEXT'' True] [column_new ''a'' ''JSONB'' True, column_new ''b'' ''BIGINT'' False])
     [column_new ''a'' ''TEXT'' True]) =
   column_types [column_new ''a'' ''JSONB'' True, column_new ''b'' ''BIGINT'' False]"
proof -
  have "distinct (map co_name [column_new ''a'' ''JSONB'' True, column_new ''b'' ''BIGINT'' False])"
    by (simp add: column_new_def)
  from schema_diff_plan[OF this] show ?thesis by blast
qed

text \<open>
  The baseline parser inverts the emitter's table format: printing any list of well-formed columns
  as a \<^verbatim>\<open>CREATE TABLE\<close> block and parsing the text gives the columns back, in order, with their type,
  nullability and default.
\<close>

lemma baseline_roundtrip:
  assumes "list_all wf_column ws" "list_all graphic table"
  shows "parse_baseline_from_str (show_table table ws) = Ok (map column_of ws)"
proof -
  let ?lines = "[''CREATE TABLE IF NOT EXISTS '' @ table @ '' (''] @ column_lines ws @ ['');'']"
  have tab: "CHR 0x0A \<notin> set table" "CHR 0x0D \<notin> set table"
    using assms(2) by (auto simp: list_all_iff char_class_defs)
  have "\<forall>l \<in> set (column_lines ws). CHR 0x0A \<notin> set l \<and> CHR 0x0D \<notin> set l"
    using assms(1)
  proof (induction ws rule: column_lines.induct)
    case (2 w)
    then show ?case using show_column_facts(5)[of w] by simp
  next
    case (3 w v ws)
    then show ?case using show_column_facts(5)[of w] by simp
  qed simp
  then have "str_lines (show_table table ws) = ?lines"
    unfolding show_table_def by (intro source_lines_from_crlf(2)) (use tab in auto)
  moreover have "line_starts_create_table (''CREATE TABLE IF NOT EXISTS '' @ table @ '' ('')"
  proof -
    have "to_ascii_uppercase ''CREATE TABLE'' = ''CREATE TABLE''" by code_simp
    then show ?thesis
      by (auto simp: line_starts_create_table_def starts_with_iff to_ascii_uppercase_def char_class_defs)
  qed
  ultimately show ?thesis
    using body_columns_show[OF assms(1), of "[]"] by (simp add: parse_baseline_from_str_def)
qed

lemma baseline_roundtrip_example:
  "parse_baseline_from_str (show_table ''host''
     [\<lparr>cw_name = ''id'', cw_type = [''BIGINT''], cw_nullable = False, cw_default = None\<rparr>,
      \<lparr>cw_name = ''created_at'', cw_type = [''TIMESTAMPTZ''], cw_nullable = False, cw_default = Some [''NOW()'']\<rparr>]) =
   Ok [\<lparr>co_name = ''id'', co_sql_type = ''BIGINT'', co_nullable = False, co_default = None\<rparr>,
       \<lparr>co_name = ''created_at'', co_sql_type = ''TIMESTAMPTZ'', co_nullable = False, co_default = Some ''NOW()''\<rparr>]"
proof -
  let ?ws = "[\<lparr>cw_name = ''id'', cw_type = [''BIGINT''], cw_nullable = False, cw_default = None\<rparr>,
      \<lparr>cw_name = ''created_at'', cw_type = [''TIMESTAMPTZ''], cw_nullable = False, cw_default = Some [''NOW()'']\<rparr>]"
  have "list_all wf_column ?ws" "list_all graphic ''host''" by code_simp+
  from baseline_roundtrip[OF this] show ?thesis by (simp add: column_of_def)
qed

text \<open>
  C40. The parser fails exactly where it should and always says why: the missing-table error is returned
  exactly when no line starts a \<^verbatim>\<open>CREATE TABLE\<close>, the unterminated-table error exactly when one does and
  no later line closes it; no other error comes from the text, and every other text gives columns.
\<close>

theorem baseline_errors_exact:
  "parse_baseline_from_str sql = Err e \<longleftrightarrow>
     e = MissingCreateTable \<and> \<not> list_ex line_starts_create_table (str_lines sql) \<or>
     e = UnterminatedCreateTable \<and> list_ex line_starts_create_table (str_lines sql) \<and>
       \<not> list_ex closes_table (tl (dropWhile (\<lambda>l. \<not> line_starts_create_table l) (str_lines sql)))"
proof (cases "dropWhile (\<lambda>l. \<not> line_starts_create_table l) (str_lines sql)")
  case Nil
  then have "\<not> list_ex line_starts_create_table (str_lines sql)" by (auto simp: list_ex_iff dropWhile_eq_Nil_conv)
  moreover have "parse_baseline_from_str sql = Err MissingCreateTable"
    unfolding parse_baseline_from_str_def Let_def Nil by simp
  ultimately show ?thesis by auto
next
  case (Cons l ls)
  then have "list_ex line_starts_create_table (str_lines sql)"
    using dropWhile_eq_Nil_conv[of "\<lambda>l. \<not> line_starts_create_table l" "str_lines sql"] by (auto simp: list_ex_iff)
  with Cons show ?thesis by (auto simp: parse_baseline_from_str_def body_columns_errors)
qed

end
