(* ===== verification/Sql_Column.thy ===== *)
theory Sql_Column
  imports Sql_Text Fk_Topo Schema_Diff
begin

text \<open>
  Column types (\<^verbatim>\<open>migration_ddl/sql_column.rs\<close>), the storage class of enums
  (\<^verbatim>\<open>emitter/enums/mod.rs\<close>) and the projection of a resource to the columns the schema difference
  compares (\<^verbatim>\<open>schema_diff/ir.rs\<close>). Derived columns and trailing comments are slots of the column.

  Shown here: the two independent type mappings agree on every type, and the field-aware one agrees
  with them on every field that names no declaration of the module.
\<close>

section \<open>Postgres types\<close>

record pg_type =
  pg_sql :: string
  pg_uses_postgis :: bool

fun pg_type_for_builtin :: "BuiltinType \<Rightarrow> pg_type" where
  "pg_type_for_builtin BtId = \<lparr>pg_sql = ''BIGINT'', pg_uses_postgis = False\<rparr>"
| "pg_type_for_builtin BtText = \<lparr>pg_sql = ''TEXT'', pg_uses_postgis = False\<rparr>"
| "pg_type_for_builtin BtBoolean = \<lparr>pg_sql = ''BOOLEAN'', pg_uses_postgis = False\<rparr>"
| "pg_type_for_builtin BtInteger = \<lparr>pg_sql = ''BIGINT'', pg_uses_postgis = False\<rparr>"
| "pg_type_for_builtin BtDecimal = \<lparr>pg_sql = ''NUMERIC(20, 6)'', pg_uses_postgis = False\<rparr>"
| "pg_type_for_builtin BtDate = \<lparr>pg_sql = ''DATE'', pg_uses_postgis = False\<rparr>"
| "pg_type_for_builtin BtDateTime = \<lparr>pg_sql = ''TIMESTAMPTZ'', pg_uses_postgis = False\<rparr>"
| "pg_type_for_builtin BtJson = \<lparr>pg_sql = ''JSONB'', pg_uses_postgis = False\<rparr>"
| "pg_type_for_builtin SemanticEmail = \<lparr>pg_sql = ''TEXT'', pg_uses_postgis = False\<rparr>"
| "pg_type_for_builtin SemanticPhone = \<lparr>pg_sql = ''TEXT'', pg_uses_postgis = False\<rparr>"
| "pg_type_for_builtin SemanticUrl = \<lparr>pg_sql = ''TEXT'', pg_uses_postgis = False\<rparr>"
| "pg_type_for_builtin SemanticUuid = \<lparr>pg_sql = ''TEXT'', pg_uses_postgis = False\<rparr>"
| "pg_type_for_builtin SemanticCurrency = \<lparr>pg_sql = ''TEXT'', pg_uses_postgis = False\<rparr>"
| "pg_type_for_builtin SemanticHexColor = \<lparr>pg_sql = ''TEXT'', pg_uses_postgis = False\<rparr>"
| "pg_type_for_builtin SemanticPercentage = \<lparr>pg_sql = ''NUMERIC(20, 6)'', pg_uses_postgis = False\<rparr>"
| "pg_type_for_builtin SemanticPositiveDecimal = \<lparr>pg_sql = ''NUMERIC(20, 6)'', pg_uses_postgis = False\<rparr>"
| "pg_type_for_builtin SemanticNonNegativeInt = \<lparr>pg_sql = ''BIGINT'', pg_uses_postgis = False\<rparr>"
| "pg_type_for_builtin (SemanticMoney _) = \<lparr>pg_sql = ''NUMERIC(20,4)'', pg_uses_postgis = False\<rparr>"
| "pg_type_for_builtin SemanticGeoPoint = \<lparr>pg_sql = ''geography(point, 4326)'', pg_uses_postgis = True\<rparr>"
| "pg_type_for_builtin (SemanticPluginType _ carrier) = pg_type_for_builtin carrier"
| "pg_type_for_builtin CapSecret = \<lparr>pg_sql = ''TEXT'', pg_uses_postgis = False\<rparr>"
| "pg_type_for_builtin CapFile = \<lparr>pg_sql = ''JSONB'', pg_uses_postgis = False\<rparr>"

fun pg_type_for_capability :: "CapabilityRef \<Rightarrow> pg_type" where
  "pg_type_for_capability (Encrypted _) = \<lparr>pg_sql = ''BYTEA'', pg_uses_postgis = False\<rparr>"
| "pg_type_for_capability (E2ee _) = \<lparr>pg_sql = ''BYTEA'', pg_uses_postgis = False\<rparr>"
| "pg_type_for_capability (File _) = \<lparr>pg_sql = ''JSONB'', pg_uses_postgis = False\<rparr>"
| "pg_type_for_capability _ = \<lparr>pg_sql = ''TEXT'', pg_uses_postgis = False\<rparr>"

fun pg_type_for :: "TypeRef \<Rightarrow> pg_type" where
  "pg_type_for (Builtin b) = pg_type_for_builtin b"
| "pg_type_for (Many t) = \<lparr>pg_sql = pg_sql (pg_type_for t) @ ''[]'', pg_uses_postgis = pg_uses_postgis (pg_type_for t)\<rparr>"
| "pg_type_for (Capability c) = pg_type_for_capability c"
| "pg_type_for (UserDefined _) = \<lparr>pg_sql = ''TEXT'', pg_uses_postgis = False\<rparr>"
| "pg_type_for (EnumRef _) = \<lparr>pg_sql = ''TEXT'', pg_uses_postgis = False\<rparr>"
| "pg_type_for (Unresolved _) = \<lparr>pg_sql = ''TEXT'', pg_uses_postgis = False\<rparr>"

definition resource_uses_postgis :: "resource_ir \<Rightarrow> bool" where
  "resource_uses_postgis r = list_ex (\<lambda>f. pg_uses_postgis (pg_type_for (fi_type_ref f))) (rs_fields r)"

definition is_direct_geo_point :: "TypeRef \<Rightarrow> bool" where
  "is_direct_geo_point t \<longleftrightarrow> t = Builtin SemanticGeoPoint"

section \<open>Field-aware types\<close>

datatype StorageKind = IntStorage | StringStorage

definition classify_storage :: "enum_decl \<Rightarrow> StorageKind" where
  "classify_storage decl =
     (if list_ex (\<lambda>v. case ev_storage_value v of Some (StInteger _) \<Rightarrow> True | _ \<Rightarrow> False) (ed_variants decl)
      then IntStorage else StringStorage)"

definition find_enum_decl :: "module_ir \<Rightarrow> string \<Rightarrow> enum_decl option" where
  "find_enum_decl m name = find (\<lambda>e. ed_name e = name) (concat (map fe_enums m))"

definition name_is_record :: "module_ir \<Rightarrow> string \<Rightarrow> bool" where
  "name_is_record m name = list_ex (\<lambda>r. rd_name r = name) (concat (map fe_records m))"

definition enum_pg_type :: "module_ir \<Rightarrow> string \<Rightarrow> pg_type option" where
  "enum_pg_type m name = map_option (\<lambda>decl.
     \<lparr>pg_sql = (case classify_storage decl of IntStorage \<Rightarrow> ''BIGINT'' | StringStorage \<Rightarrow> ''TEXT''), pg_uses_postgis = False\<rparr>)
     (find_enum_decl m name)"

definition pg_type_for_field :: "module_ir \<Rightarrow> field_ir \<Rightarrow> cross_feature_index \<Rightarrow> pg_type" where
  "pg_type_for_field m field ix = (case fi_type_ref field of
       UserDefined q \<Rightarrow>
         if foreign_key_owner m q ix \<noteq> None then \<lparr>pg_sql = ''BIGINT'', pg_uses_postgis = False\<rparr>
         else if name_is_record m (qn_name q) then \<lparr>pg_sql = ''JSONB'', pg_uses_postgis = False\<rparr>
         else (case enum_pg_type m (qn_name q) of Some t \<Rightarrow> t | None \<Rightarrow> pg_type_for (fi_type_ref field))
     | EnumRef q \<Rightarrow> (case enum_pg_type m (qn_name q) of Some t \<Rightarrow> t | None \<Rightarrow> pg_type_for (fi_type_ref field))
     | Many (UserDefined q) \<Rightarrow>
         if name_is_record m (qn_name q) then \<lparr>pg_sql = ''JSONB'', pg_uses_postgis = False\<rparr>
         else pg_type_for (fi_type_ref field)
     | _ \<Rightarrow> pg_type_for (fi_type_ref field))"

definition encryption_marker_for :: "field_ir \<Rightarrow> string option" where
  "encryption_marker_for field = (case fi_type_ref field of
       Capability (Encrypted k) \<Rightarrow> Some (''lazuli:encrypted '' @ k @ '' algorithm=aes_256_gcm'')
     | Capability (E2ee k) \<Rightarrow> Some (''lazuli:e2ee '' @ k @ '' algorithm=aes_256_gcm'')
     | _ \<Rightarrow> None)"

section \<open>Columns\<close>

datatype SqlColumn =
    Raw string
  | Typed (sc_name: string) (sc_pg_type: string) (sc_required: bool) (sc_generated_as: "string option")
      (sc_trailing_comment: "string option")

definition sql_typed :: "string \<Rightarrow> string \<Rightarrow> bool \<Rightarrow> SqlColumn" where
  "sql_typed name t required = Typed name t required None None"

definition sql_typed_generated :: "string \<Rightarrow> string \<Rightarrow> bool \<Rightarrow> string option \<Rightarrow> SqlColumn" where
  "sql_typed_generated name t required gen = Typed name t required gen None"

fun with_trailing_comment :: "SqlColumn \<Rightarrow> string \<Rightarrow> SqlColumn" where
  "with_trailing_comment (Typed n t r g _) comment = Typed n t r g (Some comment)"
| "with_trailing_comment (Raw s) comment = Raw s"

fun render_body :: "SqlColumn \<Rightarrow> string" where
  "render_body (Raw sql) = sql"
| "render_body (Typed n t required gen _) =
     sql_ident n @ '' '' @ t @ (if required then '' NOT NULL'' else []) @
     (case gen of None \<Rightarrow> [] | Some expr \<Rightarrow> '' GENERATED ALWAYS AS ('' @ expr @ '') STORED'')"

fun trailing_comment :: "SqlColumn \<Rightarrow> string option" where
  "trailing_comment (Typed _ _ _ _ c) = c"
| "trailing_comment (Raw _) = None"

section \<open>The columns of a resource, for the schema difference\<close>

fun ir_pg_type_for_builtin :: "BuiltinType \<Rightarrow> string" where
  "ir_pg_type_for_builtin BtId = ''BIGINT''"
| "ir_pg_type_for_builtin BtText = ''TEXT''"
| "ir_pg_type_for_builtin BtBoolean = ''BOOLEAN''"
| "ir_pg_type_for_builtin BtInteger = ''BIGINT''"
| "ir_pg_type_for_builtin BtDecimal = ''NUMERIC(20, 6)''"
| "ir_pg_type_for_builtin BtDate = ''DATE''"
| "ir_pg_type_for_builtin BtDateTime = ''TIMESTAMPTZ''"
| "ir_pg_type_for_builtin BtJson = ''JSONB''"
| "ir_pg_type_for_builtin SemanticEmail = ''TEXT''"
| "ir_pg_type_for_builtin SemanticPhone = ''TEXT''"
| "ir_pg_type_for_builtin SemanticUrl = ''TEXT''"
| "ir_pg_type_for_builtin SemanticUuid = ''TEXT''"
| "ir_pg_type_for_builtin SemanticCurrency = ''TEXT''"
| "ir_pg_type_for_builtin SemanticHexColor = ''TEXT''"
| "ir_pg_type_for_builtin SemanticPercentage = ''NUMERIC(20, 6)''"
| "ir_pg_type_for_builtin SemanticPositiveDecimal = ''NUMERIC(20, 6)''"
| "ir_pg_type_for_builtin SemanticNonNegativeInt = ''BIGINT''"
| "ir_pg_type_for_builtin (SemanticMoney _) = ''NUMERIC(20,4)''"
| "ir_pg_type_for_builtin SemanticGeoPoint = ''geography(point, 4326)''"
| "ir_pg_type_for_builtin (SemanticPluginType _ carrier) = ir_pg_type_for_builtin carrier"
| "ir_pg_type_for_builtin CapSecret = ''TEXT''"
| "ir_pg_type_for_builtin CapFile = ''JSONB''"

fun ir_pg_type_for_capability :: "CapabilityRef \<Rightarrow> string" where
  "ir_pg_type_for_capability (Encrypted _) = ''BYTEA''"
| "ir_pg_type_for_capability (E2ee _) = ''BYTEA''"
| "ir_pg_type_for_capability (File _) = ''JSONB''"
| "ir_pg_type_for_capability _ = ''TEXT''"

fun ir_pg_type :: "TypeRef \<Rightarrow> string" where
  "ir_pg_type (Builtin b) = ir_pg_type_for_builtin b"
| "ir_pg_type (Many t) = ir_pg_type t @ ''[]''"
| "ir_pg_type (Capability c) = ir_pg_type_for_capability c"
| "ir_pg_type (UserDefined _) = ''TEXT''"
| "ir_pg_type (EnumRef _) = ''TEXT''"
| "ir_pg_type (Unresolved _) = ''TEXT''"

fun render_default :: "DefaultValue \<Rightarrow> string" where
  "render_default (DString s) = quote_literal s"
| "render_default (DInteger i) = int_to_string i"
| "render_default (DBoolean b) = (if b then ''true'' else ''false'')"
| "render_default (DEnumLiteral lit) = squote # el_variant lit @ [squote]"
| "render_default DNil = ''NULL''"

definition field_to_column :: "field_ir \<Rightarrow> column" where
  "field_to_column f = \<lparr>co_name = fi_name f, co_sql_type = ir_pg_type (fi_type_ref f),
     co_nullable = (\<not> fi_required f), co_default = map_option render_default (fi_default f)\<rparr>"

definition current_schema_from_ir :: "resource_ir \<Rightarrow> resource_schema" where
  "current_schema_from_ir r =
     column_new ''id'' ''BIGSERIAL'' False #
     map field_to_column (filter (\<lambda>f. fi_derived_from f = None) (rs_fields r)) @
     (if (case rs_timestamps r of Some b \<Rightarrow> b | None \<Rightarrow> True)
      then map (\<lambda>n. with_default (column_new n ''TIMESTAMPTZ'' False) ''NOW()'') [''created_at'', ''updated_at''] else []) @
     map (\<lambda>n. column_new n (if n = ''deleted_by'' then ''BIGINT'' else ''TIMESTAMPTZ'') True) (synthesized_soft_delete_columns r) @
     concat (map (\<lambda>p. [column_new (pr_type_field p) ''TEXT'' False, column_new (pr_id_field p) ''BIGINT'' False])
       (rs_polymorphic_refs r))"

section \<open>The mappings agree\<close>

lemma ir_pg_type_builtin: "ir_pg_type_for_builtin b = pg_sql (pg_type_for_builtin b)"
  by (induction b) simp_all

lemma ir_pg_type_capability: "ir_pg_type_for_capability c = pg_sql (pg_type_for_capability c)"
  by (cases c) simp_all

lemma ir_pg_type_pg: "ir_pg_type t = pg_sql (pg_type_for t)"
  by (induction t) (simp_all add: ir_pg_type_builtin ir_pg_type_capability)

text \<open>The names of module declarations a type mentions where the field-aware mapping looks.\<close>

fun mentioned_name :: "TypeRef \<Rightarrow> string option" where
  "mentioned_name (UserDefined q) = Some (qn_name q)"
| "mentioned_name (EnumRef q) = Some (qn_name q)"
| "mentioned_name (Many (UserDefined q)) = Some (qn_name q)"
| "mentioned_name _ = None"

definition declared_name :: "module_ir \<Rightarrow> string \<Rightarrow> bool" where
  "declared_name m name \<longleftrightarrow> (\<exists>f \<in> set m. name \<in> fst ` set (feature_names f))"

lemma undeclared_lookups:
  assumes "\<not> declared_name m (qn_name q)"
  shows "foreign_key_owner m q ix = None" "\<not> name_is_record m (qn_name q)" "enum_pg_type m (qn_name q) = None"
proof -
  have r: "\<not> feature_declares_resource m o' (qn_name q)" for o'
    using assms by (force simp: declared_name_def feature_declares_resource_def feature_names_def list_ex_iff)
  then show "foreign_key_owner m q ix = None" by (simp add: foreign_key_owner_def split: option.split)
  show "\<not> name_is_record m (qn_name q)"
    using assms by (force simp: declared_name_def name_is_record_def feature_names_def list_ex_iff)
  have "find_enum_decl m (qn_name q) = None"
    using assms by (force simp: declared_name_def find_enum_decl_def feature_names_def find_None_iff)
  then show "enum_pg_type m (qn_name q) = None" by (simp add: enum_pg_type_def)
qed

text \<open>
  The two type mappings agree: the type the schema difference computes for a field is the type the
  migration emitter computes without looking at the module, for every type; and for every field that
  mentions no declaration of the module it is the type the emitter writes into the table.
\<close>

lemma pg_type_mappings_agree:
  assumes "\<forall>name. mentioned_name (fi_type_ref field) = Some name \<longrightarrow> \<not> declared_name m name"
  shows "ir_pg_type t = pg_sql (pg_type_for t) \<and>
    co_sql_type (field_to_column field) = pg_sql (pg_type_for_field m field ix)"
proof -
  have "pg_type_for_field m field ix = pg_type_for (fi_type_ref field)"
  proof (cases "fi_type_ref field")
    case (Many t')
    then show ?thesis using assms undeclared_lookups[of m] by (cases t') (simp_all add: pg_type_for_field_def)
  qed (use assms undeclared_lookups[of m] in \<open>simp_all add: pg_type_for_field_def\<close>)
  then show ?thesis by (simp add: ir_pg_type_pg field_to_column_def)
qed

lemma pg_type_mappings_agree_example:
  "co_sql_type (field_to_column (sample_field ''price'' (Many (Builtin (SemanticMoney EUR))))) =
   pg_sql (pg_type_for_field sample_module (sample_field ''price'' (Many (Builtin (SemanticMoney EUR)))) (build sample_module))"
  using pg_type_mappings_agree[of "sample_field ''price'' (Many (Builtin (SemanticMoney EUR)))" sample_module _ "build sample_module"]
  by (simp add: sample_field_def)

end
