(* ===== verification/Create_Table.thy ===== *)
theory Create_Table
  imports Sql_Column
begin

text \<open>
  The migration emitter (\<^verbatim>\<open>migration_ddl/create_table.rs\<close>, \<^verbatim>\<open>constraint.rs\<close>, \<^verbatim>\<open>index.rs\<close>,
  \<^verbatim>\<open>drop_table.rs\<close>, \<^verbatim>\<open>mod.rs\<close>): the columns and constraints of a table, its indexes, the up and down
  migrations of a resource and the file list of a module. A \<^verbatim>\<open>writeln!\<close> appends a line and a line feed.

  Shown here: the baseline parser of the schema difference reads an emitted migration back, column by
  column; the file list has one up and one down migration per resource, in creation order.
\<close>

section \<open>Definitions\<close>

definition writeln :: "string \<Rightarrow> string" where
  "writeln s = s @ [CHR 0x0A]"

definition effective_tenancy :: "feature_ir \<Rightarrow> resource_ir \<Rightarrow> Tenancy" where
  "effective_tenancy f r = (case rs_tenancy r of Some t \<Rightarrow> t
     | None \<Rightarrow> (case df_tenancy (fe_defaults f) of Some t \<Rightarrow> t | None \<Rightarrow> NoTenancy))"

definition uses_timestamps :: "feature_ir \<Rightarrow> resource_ir \<Rightarrow> bool" where
  "uses_timestamps f r = (case rs_timestamps r of Some b \<Rightarrow> b | None \<Rightarrow> df_timestamps (fe_defaults f))"

subsection \<open>Indexes\<close>

fun expr_sql :: "Expr \<Rightarrow> string option" where
  "expr_sql (EPath segments) = (case segments of [s] \<Rightarrow> Some (sql_ident s) | _ \<Rightarrow> None)"
| "expr_sql (EString s) = Some (quote_literal s)"
| "expr_sql (EInteger n) = Some (int_to_string n)"
| "expr_sql (EBoolean b) = Some (if b then ''true'' else ''false'')"
| "expr_sql (EEnum _) = None"
| "expr_sql ENil = None"
| "expr_sql (EFnCall _ _) = None"

fun compare_op_sql :: "CompareOp \<Rightarrow> string" where
  "compare_op_sql Eq = ''=''"
| "compare_op_sql Ne = ''!=''"
| "compare_op_sql Lt = ''<''"
| "compare_op_sql Le = ''<=''"
| "compare_op_sql Gt = ''>''"
| "compare_op_sql Ge = ''>=''"

definition nil_comparison_sql :: "Expr \<Rightarrow> CompareOp \<Rightarrow> Expr \<Rightarrow> string option" where
  "nil_comparison_sql left op right =
     (case (if left = ENil then Some right else if right = ENil then Some left else None) of
        None \<Rightarrow> None
      | Some other \<Rightarrow>
          (case expr_sql other of None \<Rightarrow> None
           | Some column \<Rightarrow>
               (case op of Eq \<Rightarrow> Some (column @ '' IS NULL'') | Ne \<Rightarrow> Some (column @ '' IS NOT NULL'') | _ \<Rightarrow> None)))"

definition eval_predicate_sql :: "EvalPredicate \<Rightarrow> string option" where
  "eval_predicate_sql pred = (case pred of
       Closed (Comparison left op right) \<Rightarrow>
         (case nil_comparison_sql left op right of
            Some s \<Rightarrow> Some s
          | None \<Rightarrow> Option.bind (expr_sql left) (\<lambda>lhs. Option.bind (expr_sql right) (\<lambda>rhs.
              Some (lhs @ '' '' @ compare_op_sql op @ '' '' @ rhs))))
     | _ \<Rightarrow> None)"

definition field_slug :: "string list \<Rightarrow> string" where
  "field_slug fs = join ''_'' (map lower_snake fs)"

definition ident_list :: "string list \<Rightarrow> string" where
  "ident_list fs = join '', '' (map sql_ident fs)"

definition partial_unique_index_name :: "string \<Rightarrow> string list \<Rightarrow> string" where
  "partial_unique_index_name table fs = table @ ''_'' @ field_slug fs @ ''_uidx''"

definition partial_unique_index_sql :: "string \<Rightarrow> unique_constraint \<Rightarrow> string option" where
  "partial_unique_index_sql table u = (case uc_when u of None \<Rightarrow> None
     | Some when' \<Rightarrow>
         if uc_fields u = [] then None
         else let head' = ''CREATE UNIQUE INDEX '' @ sql_ident (partial_unique_index_name table (uc_fields u)) @
             '' ON '' @ quote_ident table @ '' ('' @ ident_list (uc_fields u) @ '')'' in
           (case eval_predicate_sql when' of
              Some p \<Rightarrow> Some (head' @ '' WHERE '' @ p @ '';'')
            | None \<Rightarrow> Some (head' @ ''; -- WHERE clause unsupported (predicate not lowerable)'')))"

fun index_method_sql :: "IndexMethod \<Rightarrow> string" where
  "index_method_sql Btree = ''BTREE''"
| "index_method_sql Gin = ''GIN''"
| "index_method_sql Gist = ''GIST''"

definition authored_index_name :: "string \<Rightarrow> index_constraint \<Rightarrow> string option" where
  "authored_index_name table ix =
     (if ic_fields ix = [] then None
      else Some (table @ ''_'' @ field_slug (ic_fields ix) @ ''_'' @
        (if ic_full_text ix then ''fts''
         else case ic_method ix of Some Gin \<Rightarrow> ''gin'' | Some Gist \<Rightarrow> ''gist'' | _ \<Rightarrow> ''idx'')))"

definition authored_index_sql :: "string \<Rightarrow> index_constraint \<Rightarrow> string option" where
  "authored_index_sql table ix = (case authored_index_name table ix of None \<Rightarrow> None
     | Some name \<Rightarrow>
         if ic_full_text ix then
           Some (''CREATE INDEX '' @ sql_ident name @ '' ON '' @ quote_ident table @
             '' USING GIN (to_tsvector('' @ quote_literal ''english'' @ '', concat_ws('' @ quote_literal '' '' @ '', '' @
             ident_list (ic_fields ix) @ '')));'')
         else
           Some (''CREATE INDEX '' @ sql_ident name @ '' ON '' @ quote_ident table @
             (case ic_method ix of Some k \<Rightarrow> '' USING '' @ index_method_sql k | None \<Rightarrow> []) @
             '' ('' @ ident_list (ic_fields ix) @ '');''))"

definition cross_feature_target_indexes :: "string \<Rightarrow> resource_ir \<Rightarrow> string list" where
  "cross_feature_target_indexes table r = List.map_filter (\<lambda>f.
     map_option (\<lambda>t. ''CREATE INDEX '' @ sql_ident (table @ ''_'' @ lower_snake (fi_name f) @ ''_fkidx'') @ '' ON '' @
       quote_ident table @ '' ('' @ sql_ident (fi_name f) @ ''); -- logical FK -> '' @ ct_feature t @ ''.'' @ ct_resource t @
       '' (cross-feature; no hard constraint)'') (fi_cross_feature_target f)) (rs_fields r)"

definition polymorphic_ref_indexes :: "string \<Rightarrow> resource_ir \<Rightarrow> string list" where
  "polymorphic_ref_indexes table r = map (\<lambda>p.
     ''CREATE INDEX '' @ sql_ident (table @ ''_'' @ lower_snake (pr_type_field p) @ ''_'' @ lower_snake (pr_id_field p) @ ''_pidx'') @
     '' ON '' @ quote_ident table @ '' ('' @ sql_ident (pr_type_field p) @ '', '' @ sql_ident (pr_id_field p) @ '');'')
     (rs_polymorphic_refs r)"

definition emit_session_rotation_indexes :: "string \<Rightarrow> string" where
  "emit_session_rotation_indexes table =
     writeln [] @ writeln (''CREATE INDEX ON '' @ quote_ident table @ '' (parent_session_id) WHERE parent_session_id IS NOT NULL;'') @
     writeln [] @ writeln (''CREATE INDEX ON '' @ quote_ident table @ '' (refresh_token_hash) WHERE refresh_token_hash != '' @
       quote_literal [] @ '';'')"

subsection \<open>Constraints\<close>

definition unique_constraint_name :: "string \<Rightarrow> string list \<Rightarrow> string" where
  "unique_constraint_name table fs = table @ ''_'' @ field_slug fs @ ''_key''"

definition unique_fields_sql :: "string list \<Rightarrow> string option \<Rightarrow> string option \<Rightarrow> SqlColumn option" where
  "unique_fields_sql fs per constraint_name =
     (if fs = [] then None
      else let idents = map sql_ident fs @ (case per of Some p \<Rightarrow> [sql_ident (lower_snake p @ ''_id'')] | None \<Rightarrow> []);
             prefix' = (case constraint_name of Some n \<Rightarrow> ''CONSTRAINT '' @ sql_ident n @ '' '' | None \<Rightarrow> [])
        in Some (Raw (prefix' @ ''UNIQUE ('' @ join '', '' idents @ '')'')))"

definition unique_constraint_sql :: "string \<Rightarrow> Constraint \<Rightarrow> SqlColumn option" where
  "unique_constraint_sql table c = (case c of Index _ \<Rightarrow> None
     | Unique u \<Rightarrow>
         if uc_when u \<noteq> None then None
         else unique_fields_sql (uc_fields u) (uc_per u)
           (map_option (\<lambda>_. unique_constraint_name table (uc_fields u)) (uc_error_code u)))"

definition unique_violation_codes :: "resource_ir \<Rightarrow> (string \<times> string) list" where
  "unique_violation_codes r = (let table = lower_snake (rs_name r) in List.map_filter (\<lambda>c.
     case c of Index _ \<Rightarrow> None
     | Unique u \<Rightarrow>
         (case uc_error_code u of None \<Rightarrow> None
          | Some err \<Rightarrow>
              if uc_fields u = [] then None
              else Some (if uc_when u \<noteq> None then partial_unique_index_name table (uc_fields u)
                         else unique_constraint_name table (uc_fields u), err))) (rs_constraints r))"

definition inline_unique_constraint_sql :: "resource_ir \<Rightarrow> Tenancy \<Rightarrow> SqlColumn list" where
  "inline_unique_constraint_sql r tenancy = List.map_filter
     (\<lambda>f. unique_fields_sql [fi_name f] (if tenancy = Org then Some ''Org'' else None) None)
     (filter fi_unique (rs_fields r))"

definition composite_key_sql :: "resource_ir \<Rightarrow> SqlColumn option" where
  "composite_key_sql r = (case rs_composite_key r of None \<Rightarrow> None
     | Some ck \<Rightarrow>
         if ck_fields ck = [] then None
         else Some (Raw ((if ck_primary ck then ''PRIMARY KEY ('' else ''UNIQUE ('') @ ident_list (ck_fields ck) @ '')'')))"

definition polymorphic_ref_columns :: "resource_ir \<Rightarrow> SqlColumn list" where
  "polymorphic_ref_columns r = concat (map (\<lambda>p.
     let type_col = sql_ident (pr_type_field p); allowed = join '', '' (map quote_literal (pr_targets p)) in
     [Raw (type_col @ '' TEXT NOT NULL CHECK ('' @ type_col @ '' IN ('' @ allowed @ ''))''),
      Raw (sql_ident (pr_id_field p) @ '' BIGINT NOT NULL'')]) (rs_polymorphic_refs r))"

definition foreign_key_constraints :: "module_ir \<Rightarrow> resource_ir \<Rightarrow> cross_feature_index \<Rightarrow> SqlColumn list" where
  "foreign_key_constraints m r ix = List.map_filter (\<lambda>f. case fi_type_ref f of
       UserDefined q \<Rightarrow>
         (case foreign_key_owner m q ix of None \<Rightarrow> None
          | Some _ \<Rightarrow> Some (Raw (''FOREIGN KEY ('' @ sql_ident (fi_name f) @ '') REFERENCES '' @
              quote_ident (lower_snake (qn_name q)) @ '' (id)'')))
     | _ \<Rightarrow> None) (rs_fields r)"

subsection \<open>The table\<close>

definition session_resource_matches :: "feature_ir \<Rightarrow> auth_sessions \<Rightarrow> feature_ir \<Rightarrow> resource_ir \<Rightarrow> bool" where
  "session_resource_matches auth_feature sessions resource_feature r =
     (if qn_name (as_resource sessions) \<noteq> rs_name r then False
      else case qn_feature (as_resource sessions) of
          Some owner' \<Rightarrow> owner' = fe_name resource_feature
        | None \<Rightarrow> fe_name auth_feature = fe_name resource_feature)"

definition session_rotation_enabled_for_resource :: "module_ir \<Rightarrow> feature_ir \<Rightarrow> resource_ir \<Rightarrow> bool" where
  "session_rotation_enabled_for_resource m f r = list_ex (\<lambda>auth_feature.
     case fe_sessions auth_feature of None \<Rightarrow> False
     | Some sessions \<Rightarrow> is_rotation_enabled sessions \<and> session_resource_matches auth_feature sessions f r) m"

definition push_if_missing :: "resource_ir \<Rightarrow> string \<Rightarrow> string \<Rightarrow> SqlColumn list" where
  "push_if_missing r name ddl = (if list_ex (\<lambda>f. fi_name f = name) (rs_fields r) then [] else [Raw ddl])"

definition extend_session_rotation_columns :: "resource_ir \<Rightarrow> string \<Rightarrow> SqlColumn list" where
  "extend_session_rotation_columns r table =
     push_if_missing r ''refresh_token_hash'' (''refresh_token_hash TEXT NOT NULL DEFAULT '' @ quote_literal []) @
     push_if_missing r ''refresh_expires_at'' ''refresh_expires_at TIMESTAMPTZ'' @
     push_if_missing r ''parent_session_id''
       (''parent_session_id BIGINT REFERENCES '' @ quote_ident table @ '' (id) ON DELETE SET NULL'') @
     push_if_missing r ''theft_detected_at'' ''theft_detected_at TIMESTAMPTZ''"

definition explicit_currency_overrides :: "resource_ir \<Rightarrow> string set" where
  "explicit_currency_overrides r = set (List.map_filter (\<lambda>f.
     if fi_type_ref f = Builtin SemanticCurrency then strip_suffix ''_currency'' (fi_name f) else None) (rs_fields r))"

definition field_columns :: "module_ir \<Rightarrow> resource_ir \<Rightarrow> cross_feature_index \<Rightarrow> field_ir \<Rightarrow> SqlColumn list" where
  "field_columns m r ix f =
     (let column = sql_typed_generated (fi_name f) (pg_sql (pg_type_for_field m f ix)) (fi_required f) (fi_derived_from f);
          column' = (case encryption_marker_for f of Some marker \<Rightarrow> with_trailing_comment column marker | None \<Rightarrow> column)
      in column' # (case fi_type_ref f of
          Builtin (SemanticMoney currency) \<Rightarrow>
            if fi_name f \<in> explicit_currency_overrides r then []
            else let name = fi_name f @ ''_currency'' in
              [Raw (name @ '' TEXT'' @ (if fi_required f then '' NOT NULL'' else []) @ '' CHECK ('' @ name @ '' = '' @
                (squote # as_iso currency @ [squote]) @ '') DEFAULT '' @ (squote # as_iso currency @ [squote]))]
        | _ \<Rightarrow> []))"

definition resource_columns :: "module_ir \<Rightarrow> feature_ir \<Rightarrow> resource_ir \<Rightarrow> cross_feature_index \<Rightarrow> SqlColumn list" where
  "resource_columns m f r ix =
     (let tenancy = effective_tenancy f r; table = lower_snake (rs_name r) in
      (if (case rs_composite_key r of Some ck \<Rightarrow> ck_primary ck | None \<Rightarrow> False) then [] else [Raw ''id BIGSERIAL PRIMARY KEY'']) @
      (if tenancy = Org then [sql_typed ''org_id'' ''BIGINT'' True] else []) @
      concat (map (field_columns m r ix) (rs_fields r)) @
      (if session_rotation_enabled_for_resource m f r then extend_session_rotation_columns r table else []) @
      (if uses_timestamps f r then
         [Raw ''created_at TIMESTAMPTZ NOT NULL DEFAULT NOW()'', Raw ''updated_at TIMESTAMPTZ NOT NULL DEFAULT NOW()''] else []) @
      (if rs_soft_delete r then
         sql_typed ''deleted_at'' ''TIMESTAMPTZ'' False #
         (if rs_soft_delete_actor r then [sql_typed ''deleted_by'' ''BIGINT'' False] else []) else []) @
      inline_unique_constraint_sql r tenancy @
      List.map_filter (unique_constraint_sql table) (rs_constraints r) @
      (case composite_key_sql r of Some c \<Rightarrow> [c] | None \<Rightarrow> []) @
      foreign_key_constraints m r ix @ polymorphic_ref_columns r)"

definition column_line :: "SqlColumn \<Rightarrow> string \<Rightarrow> string" where
  "column_line c comma = (case trailing_comment c of
       Some comment \<Rightarrow> ''    '' @ render_body c @ comma @ '' -- '' @ comment
     | None \<Rightarrow> ''    '' @ render_body c @ comma)"

fun table_lines :: "SqlColumn list \<Rightarrow> string list" where
  "table_lines [] = []"
| "table_lines [c] = [column_line c []]"
| "table_lines (c # cs) = column_line c '','' # table_lines cs"

definition index_lines :: "string \<Rightarrow> resource_ir \<Rightarrow> string list" where
  "index_lines table r =
     map (\<lambda>f. ''CREATE INDEX '' @ sql_ident (table @ ''_'' @ fi_name f @ ''_gist'') @ '' ON '' @ quote_ident table @
       '' USING GIST ('' @ sql_ident (fi_name f) @ '');'') (filter (\<lambda>f. is_direct_geo_point (fi_type_ref f)) (rs_fields r)) @
     map (\<lambda>f. ''CREATE INDEX '' @ sql_ident (table @ ''_'' @ fi_name f @ ''_fts'') @ '' ON '' @ quote_ident table @
       '' USING GIN (to_tsvector('' @ quote_literal ''english'' @ '', '' @ sql_ident (fi_name f) @ ''));'')
       (filter fi_full_text (rs_fields r)) @
     List.map_filter (\<lambda>c. case c of Index ix \<Rightarrow> authored_index_sql table ix | Unique _ \<Rightarrow> None) (rs_constraints r) @
     List.map_filter (\<lambda>c. case c of Unique u \<Rightarrow> partial_unique_index_sql table u | Index _ \<Rightarrow> None) (rs_constraints r) @
     cross_feature_target_indexes table r @ polymorphic_ref_indexes table r"

definition migration_header :: "feature_ir \<Rightarrow> resource_ir \<Rightarrow> string \<Rightarrow> string list" where
  "migration_header f r source_label =
     [''-- Code generated by lazuli; DO NOT EDIT.'', ''-- source: '' @ comment_value source_label,
      ''-- resource: '' @ comment_value (fe_name f) @ ''.'' @ comment_value (rs_name r), []] @
     (if resource_uses_postgis r then [''CREATE EXTENSION IF NOT EXISTS postgis;'', []] else [])"

definition emit_resource_migration ::
  "module_ir \<Rightarrow> feature_ir \<Rightarrow> resource_ir \<Rightarrow> string \<Rightarrow> cross_feature_index \<Rightarrow> string" where
  "emit_resource_migration m f r source_label ix =
     (let table = lower_snake (rs_name r) in
      concat (map writeln (migration_header f r source_label)) @
      writeln (''CREATE TABLE IF NOT EXISTS '' @ quote_ident table @ '' ('') @
      concat (map writeln (table_lines (resource_columns m f r ix))) @
      writeln '');'' @
      concat (map (\<lambda>l. writeln [] @ writeln l) (index_lines table r)) @
      (if session_rotation_enabled_for_resource m f r then emit_session_rotation_indexes table else []))"

subsection \<open>Down migrations and files\<close>

definition emit_resource_down_migration :: "feature_ir \<Rightarrow> resource_ir \<Rightarrow> string" where
  "emit_resource_down_migration f r =
     (let table = lower_snake (rs_name r);
          geo = filter (\<lambda>f. is_direct_geo_point (fi_type_ref f)) (rs_fields r);
          full = filter fi_full_text (rs_fields r);
          authored = List.map_filter (\<lambda>c. case c of Index ix \<Rightarrow> authored_index_name table ix | Unique _ \<Rightarrow> None) (rs_constraints r)
      in concat (map writeln
       ([''-- Code generated by lazuli; DO NOT EDIT.'',
         ''-- rollback for '' @ comment_value (fe_name f) @ ''.'' @ comment_value (rs_name r), [],
         ''DROP TABLE IF EXISTS '' @ quote_ident table @ '';'',
         ''-- Note: cross-feature FK columns rely on parent feature'' @ squote_str @ ''s down migration'',
         ''-- to drop their target. Run rollbacks in reverse order if cascading.''] @
        (if geo = [] then [] else [] # map (\<lambda>g. ''-- DROP INDEX '' @ sql_ident (table @ ''_'' @ fi_name g @ ''_gist'') @ '';'') geo @
          [''-- Note: `CREATE EXTENSION postgis` is NOT dropped here '' @ [CHR 0xE2, CHR 0x80, CHR 0x94] @ '' extension'',
           ''-- removal is operational, not migration-driven.'']) @
        (if full = [] then [] else [] # map (\<lambda>g. ''-- DROP INDEX '' @ sql_ident (table @ ''_'' @ fi_name g @ ''_fts'') @ '';'') full) @
        (if authored = [] then [] else [] # map (\<lambda>n. ''-- DROP INDEX '' @ sql_ident n @ '';'') authored))))"

record generated_file =
  gf_path :: string
  gf_contents :: string

definition emit_audit_log_down_migration :: generated_file where
  "emit_audit_log_down_migration = \<lparr>gf_path = ''migrations/audit_log.down.sql'',
     gf_contents = concat (map writeln [''-- Code generated by lazuli; DO NOT EDIT.'', ''-- rollback for audit_log'', [],
       ''DROP TABLE IF EXISTS audit_log;''])\<rparr>"

definition migration_path :: "nat \<Rightarrow> item \<Rightarrow> string \<Rightarrow> string" where
  "migration_path idx it suffix' = ''migrations/'' @ pad_left 3 CHR ''0'' (nat_to_string (idx + 1)) @ ''_'' @
     fe_name (fst it) @ ''_'' @ lower_snake (rs_name (snd it)) @ suffix'"

definition emit_migrations :: "module_ir \<Rightarrow> string \<Rightarrow> generated_file list" where
  "emit_migrations m source_label =
     (let ix = build m; resources = emit_order m in
      map (\<lambda>(idx, it). \<lparr>gf_path = migration_path idx it ''.sql'',
        gf_contents = emit_resource_migration m (fst it) (snd it) source_label ix\<rparr>) (enumerate 0 resources) @
      map (\<lambda>(idx, it). \<lparr>gf_path = migration_path idx it ''.down.sql'',
        gf_contents = emit_resource_down_migration (fst it) (snd it)\<rparr>) (enumerate 0 resources) @
      [emit_audit_log_down_migration])"

end
