(* ===== verification/Baseline_Rows.thy ===== *)
theory Baseline_Rows
  imports Create_Table
begin

text \<open>
  The text the migration emitter writes, as the baseline parser of \<^verbatim>\<open>schema_diff/parse.rs\<close> sees it: how an
  emitted migration splits into lines, what one line of the table body contributes, and which rows are
  columns and which are constraints. A row is read as a column when its name needs no escapes and its
  type is built from words that are no column keywords, as every type of the emitter is.
\<close>

section \<open>Lines\<close>

definition clean :: "string \<Rightarrow> bool" where
  "clean s \<longleftrightarrow> CHR 0x0A \<notin> set s \<and> CHR 0x0D \<notin> set s"

lemma clean_append [simp]: "clean (a @ b) \<longleftrightarrow> clean a \<and> clean b"
  by (auto simp: clean_def)

lemma clean_Cons [simp]: "clean (c # s) \<longleftrightarrow> c \<noteq> CHR 0x0A \<and> c \<noteq> CHR 0x0D \<and> clean s"
  by (auto simp: clean_def)

lemma clean_Nil [simp]: "clean []"
  by (simp add: clean_def)

lemma clean_join: "clean sep \<Longrightarrow> \<forall>x \<in> set xs. clean x \<Longrightarrow> clean (join sep xs)"
  by (induction sep xs rule: join.induct) auto

lemma clean_concat: "\<forall>x \<in> set xs. clean x \<Longrightarrow> clean (concat xs)"
  by (auto simp: clean_def)

lemma clean_comment_value [simp]: "clean (comment_value s)"
  by (auto simp: comment_value_def clean_def)

lemma set_replace_char: "set (replace_char a r s) \<subseteq> set s \<union> set r"
  by (auto simp: replace_char_def)

lemma clean_quoted [simp]: "clean s \<Longrightarrow> clean (quote_ident s)" "clean s \<Longrightarrow> clean (sql_ident s)" "clean s \<Longrightarrow> clean (quote_literal s)"
  using set_replace_char[of dquote "[dquote, dquote]" s] set_replace_char[of squote "[squote, squote]" s]
  by (auto simp: clean_def quote_ident_def sql_ident_def quote_literal_def)

lemma clean_ident_body: "list_all ident_body s \<Longrightarrow> clean s"
proof -
  have "\<not> ident_body CHR 0x0A" "\<not> ident_body CHR 0x0D" by code_simp+
  then show "list_all ident_body s \<Longrightarrow> clean s" by (auto simp: clean_def list_all_iff)
qed

lemma str_lines_writeln:
  "\<forall>l \<in> set ls. clean l \<Longrightarrow> str_lines (concat (map writeln ls) @ rest) = ls @ str_lines rest"
proof (induction ls)
  case (Cons l ls)
  then show ?case
    using lines_acc_break[of l "[]" "concat (map writeln ls) @ rest"] strip_cr_absent[of l]
    by (simp add: str_lines_def writeln_def[of l] clean_def)
qed simp

text \<open>What one line of the table body contributes to the parsed columns.\<close>

definition line_column :: "string \<Rightarrow> column option" where
  "line_column raw = (let line = trim raw; body = column_body line in
     if line = [] \<or> body = [] \<or> is_table_level_constraint body then None else parse_column_line body)"

lemma closing_line: "trim '');'' = '');''"
  by (rule tight_trim) (simp add: tight_def char_class_defs)

lemma body_columns_lines:
  "list_all (\<lambda>raw. \<not> closes_table raw) raws \<Longrightarrow>
   body_columns (raws @ '');'' # rest) cols = Ok (cols @ List.map_filter line_column raws)"
proof (induction raws arbitrary: cols)
  case Nil
  then show ?case by (simp add: closing_line starts_with_iff List.map_filter_def)
next
  case (Cons raw raws)
  then have open': "\<not> (starts_with (trim raw) '');'' \<or> trim raw = '')'')" "list_all (\<lambda>raw. \<not> closes_table raw) raws"
    by (auto simp: closes_table_def)
  have step: "body_columns (raw # raws @ '');'' # rest) cols =
      body_columns (raws @ '');'' # rest) (cols @ (case line_column raw of Some c \<Rightarrow> [c] | None \<Rightarrow> []))"
    using open'(1) by (auto simp: line_column_def Let_def split: option.split)
  show ?case
    using Cons.IH[OF open'(2)] by (simp only: append_Cons step) (simp add: List.map_filter_def split: option.split)
qed

section \<open>Table rows\<close>

text \<open>A row without line breaks, dashes or stray punctuation, and what the parser makes of it.\<close>

definition solid :: "string \<Rightarrow> bool" where
  "solid b \<longleftrightarrow> tight b \<and> clean b \<and> CHR ''-'' \<notin> set b \<and> last b \<noteq> CHR '','' \<and> hd b \<noteq> CHR '')''"

definition row_column :: "string \<Rightarrow> column option" where
  "row_column b = (if is_table_level_constraint b then None else parse_column_line b)"

definition printable :: "SqlColumn \<Rightarrow> bool" where
  "printable c \<longleftrightarrow> solid (render_body c) \<and>
     (case trailing_comment c of None \<Rightarrow> True | Some t \<Rightarrow> clean t \<and> t \<noteq> [] \<and> graphic (last t))"

lemma tight_snoc: "tight b \<Longrightarrow> graphic c \<Longrightarrow> tight (b @ [c])"
  by (auto simp: tight_def)

lemma tight_extend: "tight b \<Longrightarrow> t \<noteq> [] \<Longrightarrow> graphic (last t) \<Longrightarrow> tight (b @ t)"
  by (auto simp: tight_def)

lemma find_comment: "CHR ''-'' \<notin> set b \<Longrightarrow> find_str ''--'' (b @ ''--'' @ t) = Some (length b)"
  by (induction b) (auto simp: find_str.simps starts_with_iff)

lemma strip_suffix_last: "last b \<noteq> c \<Longrightarrow> strip_suffix [c] b = None"
proof (cases "strip_suffix [c] b")
  case (Some x)
  assume "last b \<noteq> c"
  moreover from Some have "b = x @ [c]" by (simp add: strip_suffix_Some_iff)
  ultimately show ?thesis by simp
qed simp

lemma column_line_read:
  assumes "printable c" "comma = [] \<or> comma = '',''"
  shows "line_column (column_line c comma) = row_column (render_body c) \<and> \<not> closes_table (column_line c comma) \<and>
    clean (column_line c comma)"
proof -
  let ?b = "render_body c"
  have b: "tight ?b" "clean ?b" "CHR ''-'' \<notin> set ?b" "last ?b \<noteq> CHR '',''" "hd ?b \<noteq> CHR '')''" "?b \<noteq> []"
    using assms(1) by (auto simp: printable_def solid_def tight_def)
  have comma: "tight (?b @ comma)" "CHR ''-'' \<notin> set (?b @ comma)" "clean comma"
    using assms(2) b tight_snoc[of ?b "CHR '',''"] by (auto simp: char_class_defs)
  have sub: "(case strip_suffix '','' (?b @ comma) of Some x \<Rightarrow> x | None \<Rightarrow> ?b @ comma) = ?b"
    using assms(2)
  proof
    assume "comma = []"
    moreover have "strip_suffix '','' ?b = None" using b(4) by (rule strip_suffix_last)
    ultimately show ?thesis by simp
  next
    assume "comma = '',''"
    moreover have "strip_suffix '','' (?b @ '','') = Some ?b" by (simp add: strip_suffix_Some_iff)
    ultimately show ?thesis by simp
  qed
  have te: "trim_end (?b @ comma @ '' '') = ?b @ comma"
  proof -
    have "graphic (last (?b @ comma))" "?b @ comma \<noteq> []" using comma(1) by (auto simp: tight_def)
    moreover have "ws1 CHR '' ''" by code_simp
    ultimately show ?thesis
      using trim_end_graphic_last[of "?b @ comma"] trim_end_space[of "CHR '' ''" "?b @ comma"] by simp
  qed
  obtain tail where line: "column_line c comma = ''    '' @ ?b @ comma @ tail" "trim (column_line c comma) = ?b @ comma @ tail"
    "column_body (?b @ comma @ tail) = ?b" "clean tail"
  proof (cases "trailing_comment c")
    case None
    have "column_body (?b @ comma) = ?b"
      using find_str_absent[of "CHR ''-''" "?b @ comma" "''-''"] comma(2) sub tight_trim[OF b(1)] by (simp add: column_body_def)
    then show ?thesis using that[of "[]"] None trim_indented[OF comma(1)] by (simp add: column_line_def)
  next
    case (Some t)
    then have t: "clean t" "t \<noteq> []" "graphic (last t)" using assms(1) by (auto simp: printable_def)
    have "tight ((?b @ comma) @ '' -- '' @ t)" using tight_extend[OF comma(1), of "'' -- '' @ t"] t by simp
    moreover have "find_str ''--'' ((?b @ comma @ '' '') @ ''--'' @ '' '' @ t) = Some (length (?b @ comma @ '' ''))"
      using comma(2) by (intro find_comment) auto
    ultimately show ?thesis
      using that[of "'' -- '' @ t"] Some t trim_indented[of "(?b @ comma) @ '' -- '' @ t"] te sub tight_trim[OF b(1)]
      by (simp add: column_line_def column_body_def)
  qed
  have "\<not> starts_with (?b @ comma @ tail) '');''" "?b @ comma @ tail \<noteq> '')''"
    using b(5,6) by (cases ?b; auto simp: starts_with_iff)+
  with line b comma show ?thesis
    by (simp add: line_column_def row_column_def closes_table_def)
qed

lemma table_lines_read:
  "list_all printable cs \<Longrightarrow>
   List.map_filter line_column (table_lines cs) = List.map_filter (\<lambda>c. row_column (render_body c)) cs \<and>
   list_all (\<lambda>l. \<not> closes_table l \<and> clean l) (table_lines cs)"
proof (induction cs rule: table_lines.induct)
  case (2 c)
  then show ?case using column_line_read[of c "[]"] by (simp add: List.map_filter_def)
next
  case (3 c d cs)
  then show ?case using column_line_read[of c "'',''"] by (simp add: List.map_filter_def)
qed (simp add: List.map_filter_def)

lemma header_lines:
  "l \<in> set (migration_header f r label) \<Longrightarrow> clean l \<and> \<not> line_starts_create_table l"
proof -
  have tok: "\<not> starts_with (to_ascii_uppercase (trim_start (''--'' @ x))) ''CREATE TABLE''" for x
    by (simp add: starts_with_iff to_ascii_uppercase_def to_ascii_uppercase_char_def char_class_defs)
  have ext: "\<not> line_starts_create_table ''CREATE EXTENSION IF NOT EXISTS postgis;''" "\<not> line_starts_create_table []"
    by code_simp+
  assume "l \<in> set (migration_header f r label)"
  then show ?thesis
    using ext tok by (auto simp: migration_header_def line_starts_create_table_def split: if_splits)
qed

text \<open>Reading an emitted migration is reading its column rows one by one.\<close>

lemma parse_emitted:
  assumes "list_all printable (resource_columns m f r ix)"
  shows "parse_baseline_from_str (emit_resource_migration m f r label ix) =
    Ok (List.map_filter (\<lambda>c. row_column (render_body c)) (resource_columns m f r ix))"
proof -
  let ?table = "lower_snake (rs_name r)"
  let ?head = "migration_header f r label" and ?rows = "table_lines (resource_columns m f r ix)"
  let ?create = "''CREATE TABLE IF NOT EXISTS '' @ quote_ident ?table @ '' (''"
  obtain tail where emitted: "emit_resource_migration m f r label ix =
      concat (map writeln (?head @ [?create] @ ?rows @ ['');''])) @ tail"
    by (simp add: emit_resource_migration_def Let_def)
  have slug: "list_all ident_body ?table" using lower_snake_slug[of "rs_name r"] by (simp add: is_slug_def)
  then have "clean ?create" using clean_ident_body[of ?table] by simp
  moreover note rows = table_lines_read[OF assms]
  ultimately have lines: "str_lines (emit_resource_migration m f r label ix) = (?head @ [?create] @ ?rows @ ['');'']) @ str_lines tail"
    unfolding emitted using header_lines by (intro str_lines_writeln) (auto simp: list_all_iff)
  have "line_starts_create_table ?create"
    by (simp add: line_starts_create_table_def starts_with_iff to_ascii_uppercase_def to_ascii_uppercase_char_def char_class_defs)
  moreover have "dropWhile (\<lambda>l. \<not> line_starts_create_table l) (?head @ x) = dropWhile (\<lambda>l. \<not> line_starts_create_table l) x" for x
    using header_lines by (intro dropWhile_append2) auto
  ultimately have "parse_baseline_from_str (emit_resource_migration m f r label ix) =
      body_columns (?rows @ '');'' # str_lines tail) []"
    by (simp add: parse_baseline_from_str_def lines)
  then show ?thesis
    using rows body_columns_lines[of ?rows "str_lines tail" "[]"] by (simp add: list_all_iff)
qed

section \<open>Rows that are columns, rows that are constraints\<close>

definition calm :: "string \<Rightarrow> bool" where
  "calm s \<longleftrightarrow> clean s \<and> CHR ''-'' \<notin> set s"

lemma calm_simps [simp]:
  "calm []" "calm (c # s) \<longleftrightarrow> c \<notin> {CHR 0x0A, CHR 0x0D, CHR ''-''} \<and> calm s" "calm (a @ b) \<longleftrightarrow> calm a \<and> calm b"
  by (auto simp: calm_def)

lemma calm_quoted [simp]: "calm s \<Longrightarrow> calm (quote_ident s)" "calm s \<Longrightarrow> calm (sql_ident s)" "calm s \<Longrightarrow> calm (quote_literal s)"
  using set_replace_char[of dquote "[dquote, dquote]" s] set_replace_char[of squote "[squote, squote]" s]
  by (auto simp: calm_def clean_def quote_ident_def sql_ident_def quote_literal_def)

lemma calm_ident_body: "list_all ident_body s \<Longrightarrow> calm s"
proof -
  have "\<not> ident_body CHR ''-''" by code_simp
  then show "list_all ident_body s \<Longrightarrow> calm s" using clean_ident_body[of s] by (auto simp: calm_def list_all_iff)
qed

lemma calm_join: "calm sep \<Longrightarrow> \<forall>x \<in> set xs. calm x \<Longrightarrow> calm (join sep xs)"
  by (induction sep xs rule: join.induct) auto

lemma calm_slug [simp]: "calm (lower_snake s)"
  using lower_snake_slug[of s] by (intro calm_ident_body) (simp add: is_slug_def)

lemma calm_field_slug [simp]: "calm (field_slug fs)"
  unfolding field_slug_def by (rule calm_join) auto

lemma solidI:
  "calm b \<Longrightarrow> b \<noteq> [] \<Longrightarrow> graphic (hd b) \<Longrightarrow> hd b \<noteq> CHR '')'' \<Longrightarrow> graphic (last b) \<Longrightarrow> last b \<noteq> CHR '','' \<Longrightarrow> solid b"
  by (simp add: solid_def calm_def tight_def)

definition rows_read :: "SqlColumn list \<Rightarrow> column list \<Rightarrow> bool" where
  "rows_read cs xs \<longleftrightarrow> list_all printable cs \<and> List.map_filter (\<lambda>c. row_column (render_body c)) cs = xs"

lemma rows_read_Nil [simp]: "rows_read [] []"
  by (simp add: rows_read_def List.map_filter_def)

lemma rows_read_append: "rows_read cs xs \<Longrightarrow> rows_read ds ys \<Longrightarrow> rows_read (cs @ ds) (xs @ ys)"
  by (auto simp: rows_read_def List.map_filter_def)

lemma rows_read_concat:
  "\<forall>a \<in> set as. rows_read (g a) (h a) \<Longrightarrow> rows_read (concat (map g as)) (concat (map h as))"
  by (induction as) (auto intro: rows_read_append)

lemma rows_read_none: "\<forall>c \<in> set cs. rows_read [c] [] \<Longrightarrow> rows_read cs []"
proof (induction cs)
  case (Cons c cs)
  then show ?case using rows_read_append[of "[c]" "[]" cs "[]"] by simp
qed simp

lemma rows_read_single:
  "rows_read [c] (case row_column (render_body c) of None \<Rightarrow> [] | Some x \<Rightarrow> [x]) \<longleftrightarrow> printable c"
  by (simp add: rows_read_def List.map_filter_def split: option.splits)

lemma rows_constraint:
  assumes "p \<in> set [''UNIQUE '', ''PRIMARY KEY '', ''FOREIGN KEY '', ''CONSTRAINT '']"
    "calm x" "x \<noteq> []" "graphic (last x)" "last x \<noteq> CHR '',''"
  shows "rows_read [Raw (p @ x)] []"
proof -
  have "list_all (\<lambda>p. to_ascii_uppercase p = p \<and> p \<noteq> [] \<and> graphic (hd p) \<and> hd p \<noteq> CHR '')'' \<and> calm p)
      [''UNIQUE '', ''PRIMARY KEY '', ''FOREIGN KEY '', ''CONSTRAINT '']" by code_simp
  then have up: "to_ascii_uppercase p = p" "p \<noteq> []" "graphic (hd p)" "hd p \<noteq> CHR '')''" "calm p"
    using assms(1) unfolding list_all_iff by blast+
  have "is_table_level_constraint (p @ x)"
    unfolding is_table_level_constraint_def Let_def list_ex_iff
    using up(1) assms(1) by (intro bexI[of _ p]) (auto simp: to_ascii_uppercase_def starts_with_iff)
  moreover have "solid (p @ x)" using assms up by (intro solidI) (auto simp: hd_append)
  ultimately show ?thesis by (simp add: rows_read_def row_column_def printable_def List.map_filter_def)
qed

text \<open>Names that need no escapes.\<close>

lemma upper_lower_ident: "list_all ident_body n \<Longrightarrow> to_ascii_lowercase (to_ascii_uppercase n) = n"
proof -
  have "to_ascii_lowercase_char (to_ascii_uppercase_char c) = c" if "ident_body c" for c
  proof (cases "is_ascii_lowercase c")
    case True
    then have r: "97 \<le> code c" "code c \<le> 122" by (auto simp: is_ascii_lowercase_def)
    then have u: "code (to_ascii_uppercase_char c) = code c - 32" using True by (simp add: to_ascii_uppercase_char_def)
    then have "is_ascii_uppercase (to_ascii_uppercase_char c)" using r unfolding is_ascii_uppercase_def by linarith
    then have "to_ascii_lowercase_char (to_ascii_uppercase_char c) = char_of (code c - 32 + 32)"
      using u by (simp add: to_ascii_lowercase_char_def)
    then show ?thesis using r by simp
  next
    case False
    then have "\<not> is_ascii_uppercase c" using that by (auto simp: ident_body_def char_class_defs)
    with False show ?thesis by (simp add: to_ascii_uppercase_char_def to_ascii_lowercase_char_def)
  qed
  then show "list_all ident_body n \<Longrightarrow> to_ascii_lowercase (to_ascii_uppercase n) = n"
    by (induction n) (auto simp: to_ascii_lowercase_def to_ascii_uppercase_def)
qed

lemma plain_not_keyword:
  assumes "is_plain_sql_ident n" "\<not> is_sql_reserved_word n"
  shows "to_ascii_uppercase n \<notin> set [''PRIMARY'', ''UNIQUE'', ''FOREIGN'', ''CHECK'', ''CONSTRAINT'']"
proof
  assume "to_ascii_uppercase n \<in> set [''PRIMARY'', ''UNIQUE'', ''FOREIGN'', ''CHECK'', ''CONSTRAINT'']"
  then have "to_ascii_lowercase (to_ascii_uppercase n) \<in>
      to_ascii_lowercase ` set [''PRIMARY'', ''UNIQUE'', ''FOREIGN'', ''CHECK'', ''CONSTRAINT'']" by (rule imageI)
  moreover have "to_ascii_lowercase (to_ascii_uppercase n) = n"
    using plain_ident_body[OF assms(1)] upper_lower_ident by blast
  moreover have "list_all is_sql_reserved_word (map to_ascii_lowercase [''PRIMARY'', ''UNIQUE'', ''FOREIGN'', ''CHECK'', ''CONSTRAINT''])"
    by code_simp
  ultimately show False using assms(2) by (auto simp: list_all_iff)
qed

lemma plain_ident_facts:
  assumes "is_plain_sql_ident n"
  shows "sql_ident n \<noteq> []" "list_all graphic (sql_ident n)" "calm (sql_ident n)" "hd (sql_ident n) \<noteq> CHR '')''"
    "strip_ident_quotes (sql_ident n) = n" "\<not> is_table_level_constraint (sql_ident n @ CHR '' '' # t)" "n \<noteq> []"
proof -
  have "\<not> ident_body dquote" by code_simp
  then have n: "n \<noteq> []" "list_all ident_body n" "dquote \<notin> set n"
    using plain_ident_body[OF assms] by (auto simp: list_all_iff)
  have gr: "graphic c \<and> c \<noteq> CHR '')''" if "ident_body c" for c
    using that ident_graphic[of c] by (auto simp: ident_body_def)
  have quoted: "quote_ident n = dquote # n @ [dquote]"
  proof -
    have "replace_char dquote [dquote, dquote] x = x" if "dquote \<notin> set x" for x
      using that by (induction x) (auto simp: replace_char_def)
    with n(3) show ?thesis by (simp add: quote_ident_def)
  qed
  have two: "sql_ident n = n \<and> \<not> is_sql_reserved_word n \<or> sql_ident n = dquote # n @ [dquote]"
    using assms quoted by (auto simp: sql_ident_def)
  have dq: "graphic dquote" "dquote \<noteq> CHR '')''" by code_simp+
  show "sql_ident n \<noteq> []" "list_all graphic (sql_ident n)" "hd (sql_ident n) \<noteq> CHR '')''"
    using two n gr dq by (cases n; auto simp: list_all_iff)+
  show "calm (sql_ident n)" using calm_ident_body[OF n(2)] by simp
  have strip: "strip_ident_quotes n = n" using n(3) by (rule strip_quotes_ident)
  have keep: "dropWhile (\<lambda>c. c = dquote) x = x" if "dquote \<notin> set x" for x using that by (cases x) auto
  have "strip_ident_quotes (dquote # n @ [dquote]) = n"
    using keep[of n] keep[of "rev n"] n(1,3) by (cases n) (auto simp: strip_ident_quotes_def dropWhile_append3)
  with strip two show "strip_ident_quotes (sql_ident n) = n" by auto
  show "n \<noteq> []" by (rule n(1))
  show "\<not> is_table_level_constraint (sql_ident n @ CHR '' '' # t)"
  proof (cases "sql_ident n = n \<and> \<not> is_sql_reserved_word n")
    case True
    then show ?thesis
      using not_constraint_word[of n t] n(2) plain_not_keyword[OF assms] by (auto simp: list_all_iff ident_body_def)
  next
    case False
    with two have q: "sql_ident n = dquote # n @ [dquote]" by blast
    have "to_ascii_uppercase_char dquote = dquote" by code_simp
    with q show ?thesis
      by (simp add: is_table_level_constraint_def Let_def starts_with_iff to_ascii_uppercase_def)
  qed
qed

text \<open>The SQL types the emitter writes: words that no column keyword can be mistaken for.\<close>

definition type_word :: "string \<Rightarrow> bool" where
  "type_word w \<longleftrightarrow> w \<noteq> [] \<and> list_all graphic w \<and> CHR ''-'' \<notin> set w \<and>
     to_ascii_uppercase w \<notin> set ([''NOT'', ''NULL'', ''DEFAULT''] @ suffix_keywords)"

definition type_text :: "string \<Rightarrow> bool" where
  "type_text t = (let ws = split_whitespace t in
     ws \<noteq> [] \<and> join '' '' ws = t \<and> list_all type_word ws \<and> last t \<noteq> CHR '','')"

lemma type_text_facts:
  assumes "type_text t"
  shows "t \<noteq> []" "calm t" "graphic (last t)" "last t \<noteq> CHR '',''"
proof -
  let ?ws = "split_whitespace t"
  have ws: "?ws \<noteq> []" "join '' '' ?ws = t" "list_all type_word ?ws" "last t \<noteq> CHR '',''"
    using assms by (auto simp: type_text_def Let_def)
  have "list_all tight ?ws" using ws(3) by (auto simp: list_all_iff type_word_def tight_def)
  then have "tight (join '' '' ?ws)" using ws(1) tight_join by blast
  then show "t \<noteq> []" "graphic (last t)" using ws(2) by (auto simp: tight_def)
  have "\<not> graphic CHR 0x0A" "\<not> graphic CHR 0x0D" by code_simp+
  then have "\<forall>w \<in> set ?ws. calm w" using ws(3) by (auto simp: list_all_iff type_word_def calm_def clean_def)
  then have "calm (join '' '' ?ws)" by (intro calm_join) auto
  then show "calm t" using ws(2) by simp
  show "last t \<noteq> CHR '',''" by (rule ws(4))
qed

lemma type_text_many:
  assumes "type_text t"
  shows "type_text (t @ ''[]'')"
proof -
  let ?ws = "split_whitespace t"
  let ?vs = "butlast ?ws @ [last ?ws @ ''[]'']"
  have ws: "?ws \<noteq> []" "join '' '' ?ws = t" "list_all type_word ?ws"
    using assms by (auto simp: type_text_def Let_def)
  have glue: "join '' '' (xs @ [x @ y]) = join '' '' (xs @ [x]) @ y" for xs x y
    by (induction xs) (auto simp: join_Cons)
  have text': "join '' '' ?vs = t @ ''[]''"
    using glue[of "butlast ?ws" "last ?ws" "''[]''"] append_butlast_last_id[OF ws(1)] ws(2) by simp
  have last': "type_word (last ?ws @ ''[]'')"
  proof -
    have "type_word (last ?ws)" using ws(1,3) by (simp add: list_all_iff)
    moreover have "to_ascii_uppercase (x @ ''[]'') \<notin> set ([''NOT'', ''NULL'', ''DEFAULT''] @ suffix_keywords)" for x
    proof -
      have "last (to_ascii_uppercase (x @ ''[]'')) = CHR '']''"
        by (simp add: to_ascii_uppercase_def to_ascii_uppercase_char_def char_class_defs)
      moreover have "list_all (\<lambda>w. last w \<noteq> CHR '']'') ([''NOT'', ''NULL'', ''DEFAULT''] @ suffix_keywords)" by code_simp
      ultimately show ?thesis unfolding list_all_iff by metis
    qed
    ultimately show ?thesis by (auto simp: type_word_def char_class_defs)
  qed
  have all: "list_all type_word ?vs"
    using ws(3) last' by (auto simp: list_all_iff dest: in_set_butlastD)
  then have "split_whitespace (join '' '' ?vs) = ?vs"
    by (intro split_whitespace_join) (auto simp: list_all_iff type_word_def)
  then have "split_whitespace (t @ ''[]'') = ?vs" unfolding text' .
  with all text' show ?thesis by (simp add: type_text_def)
qed

lemma type_text_builtin: "type_text (pg_sql (pg_type_for_builtin b))"
proof (induction b)
  case (SemanticPluginType p c)
  then show ?case by simp
qed (simp only: pg_type_for_builtin.simps pg_type.simps, code_simp)+

lemma type_text_pg: "type_text (pg_sql (pg_type_for t))"
proof (induction t)
  case (Capability c)
  have "type_text ''BYTEA''" "type_text ''JSONB''" "type_text ''TEXT''" by code_simp+
  then show ?case by (cases c) simp_all
next
  case (Many t)
  then show ?case using type_text_many by simp
qed (simp_all add: type_text_builtin, code_simp+)

lemma type_text_field: "type_text (pg_sql (pg_type_for_field m fl ix))"
proof -
  have w: "type_text ''BIGINT''" "type_text ''JSONB''" "type_text ''TEXT''" by code_simp+
  have e: "type_text (pg_sql t)" if "enum_pg_type m x = Some t" for x t
  proof -
    from that obtain decl where "t = \<lparr>pg_sql = (case classify_storage decl of IntStorage \<Rightarrow> ''BIGINT'' | StringStorage \<Rightarrow> ''TEXT''),
        pg_uses_postgis = False\<rparr>" by (auto simp: enum_pg_type_def)
    with w show ?thesis by (cases "classify_storage decl") simp_all
  qed
  show ?thesis
    using w e type_text_pg[of "fi_type_ref fl"]
    by (auto simp: pg_type_for_field_def split: TypeRef.splits option.splits)
qed

section \<open>The columns of a table\<close>

abbreviation read_column :: "string \<Rightarrow> string \<Rightarrow> bool \<Rightarrow> string option \<Rightarrow> column" where
  "read_column n t nullable dflt \<equiv> \<lparr>co_name = n, co_sql_type = t, co_nullable = nullable, co_default = dflt\<rparr>"

lemma column_row:
  assumes "is_plain_sql_ident n" "type_text t" "tail = [] \<or> tail = CHR '' '' # tail'" "calm tail"
    "tail \<noteq> [] \<Longrightarrow> graphic (last tail) \<and> last tail \<noteq> CHR '',''"
    "column_tokens (split_whitespace tail) (split_whitespace t) True None = (split_whitespace t, nullable, dflt)"
  shows "solid (sql_ident n @ '' '' @ t @ tail)"
    "row_column (sql_ident n @ '' '' @ t @ tail) = Some (read_column n t nullable dflt)"
proof -
  let ?b = "sql_ident n @ '' '' @ t @ tail"
  note n = plain_ident_facts[OF assms(1)] and t = type_text_facts[OF assms(2)]
  show "solid ?b"
  proof (rule solidI)
    show "graphic (hd ?b)" using n(1,2) by (cases "sql_ident n") auto
    show "hd ?b \<noteq> CHR '')''" using n(1,4) by (cases "sql_ident n") auto
    show "graphic (last ?b)" "last ?b \<noteq> CHR '',''" using t assms(5) by (cases "tail = []"; simp)+
    show "calm ?b" using n(3) t(2) assms(4) by simp
  qed simp
  have name: "split_whitespace (sql_ident n) = [sql_ident n]"
    using n(1,2) by (intro split_whitespace_single) (auto simp: list_all_iff)
  have "split_whitespace (t @ tail) = split_whitespace t @ split_whitespace tail"
    using assms(3) by auto
  then have split: "split_whitespace ?b = sql_ident n # split_whitespace t @ split_whitespace tail"
    using name by simp
  have ty: "split_whitespace t \<noteq> []" "join '' '' (split_whitespace t) = t"
    "list_all (\<lambda>t. to_ascii_uppercase t \<notin> set ([''NOT'', ''NULL'', ''DEFAULT''] @ suffix_keywords)) (split_whitespace t)"
    using assms(2) by (auto simp: type_text_def Let_def list_all_iff type_word_def)
  have "parse_column_line ?b = Some (read_column n t nullable dflt)"
    using split column_tokens_types[OF ty(3), of "split_whitespace tail" "[]" True] assms(6) n(5,7) ty(1,2)
    by (simp add: parse_column_line_def)
  then show "row_column ?b = Some (read_column n t nullable dflt)"
    using n(6)[of "t @ tail"] by (simp add: row_column_def)
qed

lemma split_keyword:
  "split_whitespace ('' NOT NULL'' @ CHR '' '' # s) = ''NOT'' # ''NULL'' # split_whitespace s"
  "split_whitespace ('' CHECK'' @ CHR '' '' # s) = ''CHECK'' # split_whitespace s"
  "split_whitespace ('' GENERATED'' @ CHR '' '' # s) = ''GENERATED'' # split_whitespace s"
  "split_whitespace ('' REFERENCES'' @ CHR '' '' # s) = ''REFERENCES'' # split_whitespace s"
  "split_whitespace '' NOT NULL'' = [''NOT'', ''NULL'']"
proof -
  have w: "split_whitespace '' NOT NULL'' = [''NOT'', ''NULL'']" "split_whitespace '' CHECK'' = [''CHECK'']"
    "split_whitespace '' GENERATED'' = [''GENERATED'']" "split_whitespace '' REFERENCES'' = [''REFERENCES'']" by code_simp+
  show "split_whitespace '' NOT NULL'' = [''NOT'', ''NULL'']" by (rule w(1))
  show "split_whitespace ('' NOT NULL'' @ CHR '' '' # s) = ''NOT'' # ''NULL'' # split_whitespace s"
    unfolding split_whitespace_append_space w by simp
  show "split_whitespace ('' CHECK'' @ CHR '' '' # s) = ''CHECK'' # split_whitespace s"
    unfolding split_whitespace_append_space w by simp
  show "split_whitespace ('' GENERATED'' @ CHR '' '' # s) = ''GENERATED'' # split_whitespace s"
    unfolding split_whitespace_append_space w by simp
  show "split_whitespace ('' REFERENCES'' @ CHR '' '' # s) = ''REFERENCES'' # split_whitespace s"
    unfolding split_whitespace_append_space w by simp
qed

text \<open>The endings a column row can have.\<close>

definition row_tail :: "bool \<Rightarrow> string \<Rightarrow> string" where
  "row_tail required extra = (if required then '' NOT NULL'' else []) @ extra"

definition stops :: "string \<Rightarrow> bool" where
  "stops extra \<longleftrightarrow> extra = [] \<or>
     (\<exists>kw s. kw \<in> set [''CHECK'', ''GENERATED'', ''REFERENCES''] \<and> extra = CHR '' '' # kw @ CHR '' '' # s)"

lemma column_tokens_row_tail:
  assumes "stops extra"
  shows "column_tokens (split_whitespace (row_tail required extra)) parts True None = (parts, \<not> required, None)"
proof -
  have up: "to_ascii_uppercase ''NOT'' = ''NOT''" "to_ascii_uppercase ''NULL'' = ''NULL''"
    "to_ascii_uppercase ''CHECK'' = ''CHECK''" "to_ascii_uppercase ''GENERATED'' = ''GENERATED''"
    "to_ascii_uppercase ''REFERENCES'' = ''REFERENCES''" by code_simp+
  have stop: "column_tokens (split_whitespace extra) parts n None = (parts, n, None)" for n
    using assms split_keyword(2-4)
    by (auto simp: stops_def column_tokens.simps(2) Let_def up suffix_keywords_def)
  show ?thesis
  proof (cases "required")
    case True
    have "split_whitespace ('' NOT NULL'' @ extra) = ''NOT'' # ''NULL'' # split_whitespace extra"
      using assms split_keyword(1,5) by (auto simp: stops_def)
    with True stop show ?thesis by (simp add: row_tail_def column_tokens.simps(2) Let_def up)
  next
    case False
    with stop show ?thesis by (simp add: row_tail_def)
  qed
qed

lemma rows_typed:
  assumes "is_plain_sql_ident n" "type_text t" "stops extra" "calm extra"
    "extra \<noteq> [] \<Longrightarrow> graphic (last extra) \<and> last extra \<noteq> CHR '',''"
    "render_body c = sql_ident n @ '' '' @ t @ row_tail required extra"
    "case trailing_comment c of None \<Rightarrow> True | Some t \<Rightarrow> clean t \<and> t \<noteq> [] \<and> graphic (last t)"
  shows "rows_read [c] [read_column n t (\<not> required) None]"
proof -
  let ?tail = "row_tail required extra"
  have head: "?tail = [] \<or> (\<exists>t'. ?tail = CHR '' '' # t')" using assms(3) by (auto simp: row_tail_def stops_def)
  have "calm ?tail" using assms(4) by (simp add: row_tail_def)
  moreover have "graphic (last ?tail) \<and> last ?tail \<noteq> CHR '',''" if "?tail \<noteq> []"
    using that assms(5) by (auto simp: row_tail_def char_class_defs split: if_splits)
  moreover note column_tokens_row_tail[OF assms(3), of required "split_whitespace t"]
  ultimately have "solid (render_body c)" "row_column (render_body c) = Some (read_column n t (\<not> required) None)"
    using head column_row[OF assms(1,2), of ?tail _ "\<not> required" None] unfolding assms(6) by blast+
  then show ?thesis using assms(7) by (simp add: rows_read_def printable_def List.map_filter_def)
qed

end
