(* ===== verification/Migration_Baseline.thy ===== *)
theory Migration_Baseline
  imports Baseline_Rows
begin

text \<open>
  The emitter of \<^verbatim>\<open>migration_ddl\<close> composed with the reader and the projection of \<^verbatim>\<open>schema_diff\<close>: what
  the baseline parser recovers from an emitted migration, and what the difference to the projected
  resource is when nothing changed.

  Shown here: the parser reads every emitted table back; the plan for an unchanged resource, exactly; the
  resources for which it is empty. A composite primary key is not among the documented exceptions: the
  projection always has an \<^verbatim>\<open>id\<close> column, so the plan adds one to a table emitted without it.
\<close>

section \<open>What an emitted table reads as\<close>

text \<open>
  The columns of an emitted table, each with a mark that says whether the projection of the resource
  alone has it too.
\<close>

definition field_tags :: "module_ir \<Rightarrow> resource_ir \<Rightarrow> cross_feature_index \<Rightarrow> field_ir \<Rightarrow> (bool \<times> column) list" where
  "field_tags m r ix fl =
     (fi_derived_from fl = None, read_column (fi_name fl) (pg_sql (pg_type_for_field m fl ix)) (\<not> fi_required fl) None) #
     (case fi_type_ref fl of
        Builtin (SemanticMoney _) \<Rightarrow> if fi_name fl \<in> explicit_currency_overrides r then []
          else [(False, read_column (fi_name fl @ ''_currency'') ''TEXT'' (\<not> fi_required fl) None)]
      | _ \<Rightarrow> [])"

definition session_columns :: "resource_ir \<Rightarrow> column list" where
  "session_columns r = filter (\<lambda>c. \<not> list_ex (\<lambda>f. fi_name f = co_name c) (rs_fields r))
     [read_column ''refresh_token_hash'' ''TEXT'' False (Some [squote, squote]),
      read_column ''refresh_expires_at'' ''TIMESTAMPTZ'' True None,
      read_column ''parent_session_id'' ''BIGINT'' True None,
      read_column ''theft_detected_at'' ''TIMESTAMPTZ'' True None]"

definition timestamp_columns :: "column list" where
  "timestamp_columns = map (\<lambda>n. read_column n ''TIMESTAMPTZ'' False (Some ''NOW()'')) [''created_at'', ''updated_at'']"

definition soft_delete_columns :: "resource_ir \<Rightarrow> column list" where
  "soft_delete_columns r =
     map (\<lambda>n. read_column n (if n = ''deleted_by'' then ''BIGINT'' else ''TIMESTAMPTZ'') True None) (synthesized_soft_delete_columns r)"

definition polymorphic_columns :: "resource_ir \<Rightarrow> column list" where
  "polymorphic_columns r = concat (map (\<lambda>p. [read_column (pr_type_field p) ''TEXT'' False None,
     read_column (pr_id_field p) ''BIGINT'' False None]) (rs_polymorphic_refs r))"

definition composite_primary :: "resource_ir \<Rightarrow> bool" where
  "composite_primary r = (case rs_composite_key r of Some ck \<Rightarrow> ck_primary ck | None \<Rightarrow> False)"

definition emitted_tags :: "module_ir \<Rightarrow> feature_ir \<Rightarrow> resource_ir \<Rightarrow> cross_feature_index \<Rightarrow> (bool \<times> column) list" where
  "emitted_tags m f r ix =
     (if composite_primary r then [] else [(True, read_column ''id'' ''BIGSERIAL'' True None)]) @
     (if effective_tenancy f r = Org then [(False, read_column ''org_id'' ''BIGINT'' False None)] else []) @
     concat (map (field_tags m r ix) (rs_fields r)) @
     (if session_rotation_enabled_for_resource m f r then map (Pair False) (session_columns r) else []) @
     (if uses_timestamps f r then map (Pair True) timestamp_columns else []) @
     map (Pair True) (soft_delete_columns r) @ map (Pair True) (polymorphic_columns r)"

definition emitted_schema :: "module_ir \<Rightarrow> feature_ir \<Rightarrow> resource_ir \<Rightarrow> cross_feature_index \<Rightarrow> resource_schema" where
  "emitted_schema m f r ix = map snd (emitted_tags m f r ix)"

text \<open>Resources whose names and texts need no escapes.\<close>

definition field_ok :: "field_ir \<Rightarrow> bool" where
  "field_ok fl \<longleftrightarrow> is_plain_sql_ident (fi_name fl) \<and>
     (case fi_derived_from fl of None \<Rightarrow> True | Some e \<Rightarrow> calm e) \<and>
     (case fi_type_ref fl of Capability (Encrypted k) \<Rightarrow> clean k | Capability (E2ee k) \<Rightarrow> clean k | _ \<Rightarrow> True)"

definition emittable :: "resource_ir \<Rightarrow> bool" where
  "emittable r \<longleftrightarrow> list_all field_ok (rs_fields r) \<and>
     list_all (\<lambda>c. case c of Unique u \<Rightarrow> list_all calm (uc_fields u) | Index _ \<Rightarrow> True) (rs_constraints r) \<and>
     (case rs_composite_key r of None \<Rightarrow> True | Some ck \<Rightarrow> list_all calm (ck_fields ck)) \<and>
     list_all (\<lambda>p. is_plain_sql_ident (pr_type_field p) \<and> is_plain_sql_ident (pr_id_field p) \<and> list_all calm (pr_targets p))
       (rs_polymorphic_refs r)"

lemma sql_types: "type_text ''BIGINT''" "type_text ''TEXT''" "type_text ''TIMESTAMPTZ''"
  by code_simp+

lemma currency_name:
  assumes "is_plain_sql_ident n"
  shows "is_plain_sql_ident (n @ ''_currency'')" "sql_ident (n @ ''_currency'') = n @ ''_currency''"
proof -
  have tail: "list_all (\<lambda>ch. ch = CHR ''_'' \<or> is_ascii_lowercase ch \<or> is_ascii_digit ch) ''_currency''" by code_simp
  then show plain: "is_plain_sql_ident (n @ ''_currency'')"
    using assms by (cases n) (auto simp: is_plain_sql_ident_def)
  have "list_all (\<lambda>w. \<not> ends_with w ''_currency'') sql_reserved_words" by code_simp
  then have "\<not> is_sql_reserved_word (n @ ''_currency'')"
    by (auto simp: is_sql_reserved_word_def list_all_iff ends_with_iff)
  with plain show "sql_ident (n @ ''_currency'') = n @ ''_currency''" by (simp add: sql_ident_def)
qed

lemma calm_as_iso [simp]: "calm (as_iso c)"
  by (cases c) simp_all

definition currency_row :: "string \<Rightarrow> bool \<Rightarrow> CurrencyCode \<Rightarrow> SqlColumn" where
  "currency_row n required cur = Raw ((n @ ''_currency'') @ '' TEXT'' @ (if required then '' NOT NULL'' else []) @ '' CHECK ('' @
     (n @ ''_currency'') @ '' = '' @ (squote # as_iso cur @ [squote]) @ '') DEFAULT '' @ (squote # as_iso cur @ [squote]))"

lemma rows_currency:
  assumes "is_plain_sql_ident n"
  shows "rows_read [currency_row n required cur] [read_column (n @ ''_currency'') ''TEXT'' (\<not> required) None]"
proof -
  let ?x = "(n @ ''_currency'') @ '' = '' @ (squote # as_iso cur @ [squote]) @ '') DEFAULT '' @ (squote # as_iso cur @ [squote])"
  have calm: "calm n" using plain_ident_body[OF assms] calm_ident_body by blast
  show ?thesis
  proof (rule rows_typed[OF currency_name(1)[OF assms] sql_types(2), of "'' CHECK ('' @ ?x"])
    show "stops ('' CHECK ('' @ ?x)" by (auto simp: stops_def)
    show "calm ('' CHECK ('' @ ?x)" using calm by simp
    show "render_body (currency_row n required cur) =
        sql_ident (n @ ''_currency'') @ '' '' @ ''TEXT'' @ row_tail required ('' CHECK ('' @ ?x)"
      using currency_name(2)[OF assms] by (simp add: currency_row_def row_tail_def)
  qed (simp_all add: currency_row_def char_class_defs)
qed

lemma rows_field:
  assumes "field_ok fl"
  shows "rows_read (field_columns m r ix fl) (map snd (field_tags m r ix fl))"
proof -
  let ?t = "pg_sql (pg_type_for_field m fl ix)"
  let ?col = "sql_typed_generated (fi_name fl) ?t (fi_required fl) (fi_derived_from fl)"
  let ?c = "case encryption_marker_for fl of Some marker \<Rightarrow> with_trailing_comment ?col marker | None \<Rightarrow> ?col"
  let ?gen = "case fi_derived_from fl of None \<Rightarrow> [] | Some e \<Rightarrow> '' GENERATED ALWAYS AS ('' @ e @ '') STORED''"
  have plain: "is_plain_sql_ident (fi_name fl)" using assms by (simp add: field_ok_def)
  have body: "render_body ?c = sql_ident (fi_name fl) @ '' '' @ ?t @ row_tail (fi_required fl) ?gen"
    by (auto simp: sql_typed_generated_def row_tail_def split: option.split)
  have comment: "case trailing_comment ?c of None \<Rightarrow> True | Some t \<Rightarrow> clean t \<and> t \<noteq> [] \<and> graphic (last t)"
    using assms
    by (auto simp: sql_typed_generated_def encryption_marker_for_def field_ok_def char_class_defs
        split: option.split TypeRef.splits CapabilityRef.splits)
  have first: "rows_read [?c] [read_column (fi_name fl) ?t (\<not> fi_required fl) None]"
    by (rule rows_typed[OF plain type_text_field _ _ _ body comment])
      (use assms in \<open>auto simp: field_ok_def stops_def char_class_defs split: option.splits\<close>)
  show ?thesis
  proof (cases "\<exists>cur. fi_type_ref fl = Builtin (SemanticMoney cur) \<and> fi_name fl \<notin> explicit_currency_overrides r")
    case True
    then obtain cur where cur: "fi_type_ref fl = Builtin (SemanticMoney cur)" "fi_name fl \<notin> explicit_currency_overrides r" by blast
    have "field_columns m r ix fl = [?c] @ [currency_row (fi_name fl) (fi_required fl) cur]"
      using cur by (simp add: field_columns_def currency_row_def Let_def)
    moreover have "map snd (field_tags m r ix fl) = [read_column (fi_name fl) ?t (\<not> fi_required fl) None] @
        [read_column (fi_name fl @ ''_currency'') ''TEXT'' (\<not> fi_required fl) None]"
      using cur by (simp add: field_tags_def)
    ultimately show ?thesis using rows_read_append[OF first rows_currency[OF plain]] by simp
  next
    case False
    then have "field_columns m r ix fl = [?c]" "map snd (field_tags m r ix fl) = [read_column (fi_name fl) ?t (\<not> fi_required fl) None]"
      by (auto simp: field_columns_def field_tags_def Let_def split: TypeRef.splits BuiltinType.splits)
    with first show ?thesis by simp
  qed
qed

lemma rows_read_Cons: "rows_read [c] [x] \<Longrightarrow> rows_read cs xs \<Longrightarrow> rows_read (c # cs) (x # xs)"
  using rows_read_append[of "[c]" "[x]" cs xs] by simp

lemma rows_fixed:
  assumes "is_plain_sql_ident n" "\<not> is_sql_reserved_word n" "type_text t" "split_whitespace t = [t]"
    "tail = [] \<or> tail = CHR '' '' # tl tail" "calm tail" "tail = [] \<or> graphic (last tail) \<and> last tail \<noteq> CHR '',''"
    "column_tokens (split_whitespace tail) [t] True None = ([t], nullable, dflt)"
    "s = n @ '' '' @ t @ tail"
  shows "rows_read [Raw s] [read_column n t nullable dflt]"
proof -
  have name: "sql_ident n = n" using assms(1,2) by (simp add: sql_ident_def)
  have "solid s" "row_column s = Some (read_column n t nullable dflt)"
    using column_row[OF assms(1,3,5,6), of nullable dflt] assms(4,7-9) name by auto
  then show ?thesis by (simp add: rows_read_def printable_def List.map_filter_def)
qed

lemma fixed_names:
  "is_plain_sql_ident ''id'' \<and> \<not> is_sql_reserved_word ''id''"
  "is_plain_sql_ident ''created_at'' \<and> \<not> is_sql_reserved_word ''created_at''"
  "is_plain_sql_ident ''updated_at'' \<and> \<not> is_sql_reserved_word ''updated_at''"
  "is_plain_sql_ident ''refresh_token_hash'' \<and> \<not> is_sql_reserved_word ''refresh_token_hash''"
  "is_plain_sql_ident ''refresh_expires_at'' \<and> \<not> is_sql_reserved_word ''refresh_expires_at''"
  "is_plain_sql_ident ''theft_detected_at'' \<and> \<not> is_sql_reserved_word ''theft_detected_at''"
  "is_plain_sql_ident ''parent_session_id'' \<and> \<not> is_sql_reserved_word ''parent_session_id''"
  by code_simp+

lemma fixed_types:
  "type_text ''BIGSERIAL''" "split_whitespace ''BIGSERIAL'' = [''BIGSERIAL'']"
  "split_whitespace ''TIMESTAMPTZ'' = [''TIMESTAMPTZ'']" "split_whitespace ''TEXT'' = [''TEXT'']"
  by code_simp+

lemma fixed_tokens:
  "column_tokens (split_whitespace '' PRIMARY KEY'') [''BIGSERIAL''] True None = ([''BIGSERIAL''], True, None)"
  "column_tokens (split_whitespace '' NOT NULL DEFAULT NOW()'') [''TIMESTAMPTZ''] True None = ([''TIMESTAMPTZ''], False, Some ''NOW()'')"
  "column_tokens (split_whitespace ('' NOT NULL DEFAULT '' @ [squote, squote])) [''TEXT''] True None =
     ([''TEXT''], False, Some [squote, squote])"
  by code_simp+

lemma fixed_rows:
  "rows_read [Raw ''id BIGSERIAL PRIMARY KEY''] [read_column ''id'' ''BIGSERIAL'' True None]"
  "rows_read [Raw ''created_at TIMESTAMPTZ NOT NULL DEFAULT NOW()''] [read_column ''created_at'' ''TIMESTAMPTZ'' False (Some ''NOW()'')]"
  "rows_read [Raw ''updated_at TIMESTAMPTZ NOT NULL DEFAULT NOW()''] [read_column ''updated_at'' ''TIMESTAMPTZ'' False (Some ''NOW()'')]"
  "rows_read [Raw (''refresh_token_hash TEXT NOT NULL DEFAULT '' @ quote_literal [])]
     [read_column ''refresh_token_hash'' ''TEXT'' False (Some [squote, squote])]"
  "rows_read [Raw ''refresh_expires_at TIMESTAMPTZ''] [read_column ''refresh_expires_at'' ''TIMESTAMPTZ'' True None]"
  "rows_read [Raw ''theft_detected_at TIMESTAMPTZ''] [read_column ''theft_detected_at'' ''TIMESTAMPTZ'' True None]"
proof -
  have fin: "graphic CHR ''Y''" "graphic CHR '')''" "graphic squote" by code_simp+
  show "rows_read [Raw ''id BIGSERIAL PRIMARY KEY''] [read_column ''id'' ''BIGSERIAL'' True None]"
    by (rule rows_fixed[where tail = "'' PRIMARY KEY''"]) (use fixed_names fixed_types fixed_tokens(1) fin in simp_all)
  show "rows_read [Raw ''created_at TIMESTAMPTZ NOT NULL DEFAULT NOW()''] [read_column ''created_at'' ''TIMESTAMPTZ'' False (Some ''NOW()'')]"
    "rows_read [Raw ''updated_at TIMESTAMPTZ NOT NULL DEFAULT NOW()''] [read_column ''updated_at'' ''TIMESTAMPTZ'' False (Some ''NOW()'')]"
    by (rule rows_fixed[where tail = "'' NOT NULL DEFAULT NOW()''"];
        use fixed_names fixed_types fixed_tokens(2) sql_types fin in simp)+
  show "rows_read [Raw (''refresh_token_hash TEXT NOT NULL DEFAULT '' @ quote_literal [])]
     [read_column ''refresh_token_hash'' ''TEXT'' False (Some [squote, squote])]"
    by (rule rows_fixed[where tail = "'' NOT NULL DEFAULT '' @ [squote, squote]"])
      (use fixed_names fixed_types fixed_tokens(3) sql_types fin in \<open>simp_all add: quote_literal_def replace_char_def\<close>)
  show "rows_read [Raw ''refresh_expires_at TIMESTAMPTZ''] [read_column ''refresh_expires_at'' ''TIMESTAMPTZ'' True None]"
    "rows_read [Raw ''theft_detected_at TIMESTAMPTZ''] [read_column ''theft_detected_at'' ''TIMESTAMPTZ'' True None]"
    by (rule rows_fixed[where tail = "[]"]; use fixed_names fixed_types sql_types in simp)+
qed

lemma rows_plain_typed:
  assumes "is_plain_sql_ident n" "type_text t"
  shows "rows_read [sql_typed n t required] [read_column n t (\<not> required) None]"
  by (rule rows_typed[OF assms, of "[]"]) (simp_all add: stops_def sql_typed_def row_tail_def)

lemma rows_push:
  "rows_read [Raw ddl] [c] \<Longrightarrow> co_name c = n \<Longrightarrow>
   rows_read (push_if_missing r n ddl) (filter (\<lambda>c. \<not> list_ex (\<lambda>f. fi_name f = co_name c) (rs_fields r)) [c])"
  by (simp add: push_if_missing_def)

lemma rows_session: "rows_read (extend_session_rotation_columns r (lower_snake s)) (session_columns r)"
proof -
  let ?ref = "''parent_session_id BIGINT REFERENCES '' @ quote_ident (lower_snake s) @ '' (id) ON DELETE SET NULL''"
  have plain: "is_plain_sql_ident ''parent_session_id''" "sql_ident ''parent_session_id'' = ''parent_session_id''"
    using fixed_names(7) by (simp_all add: sql_ident_def)
  have "rows_read [Raw ?ref] [read_column ''parent_session_id'' ''BIGINT'' (\<not> False) None]"
  proof (rule rows_typed[OF plain(1) sql_types(1), of "'' REFERENCES '' @ quote_ident (lower_snake s) @ '' (id) ON DELETE SET NULL''"])
    show "stops ('' REFERENCES '' @ quote_ident (lower_snake s) @ '' (id) ON DELETE SET NULL'')" by (auto simp: stops_def)
    show "render_body (Raw ?ref) = sql_ident ''parent_session_id'' @ '' '' @ ''BIGINT'' @
        row_tail False ('' REFERENCES '' @ quote_ident (lower_snake s) @ '' (id) ON DELETE SET NULL'')"
      using plain(2) by (simp add: row_tail_def)
  qed (simp_all add: char_class_defs)
  then have parent: "rows_read [Raw ?ref] [read_column ''parent_session_id'' ''BIGINT'' True None]" by simp
  have sum: "session_columns r = filter (\<lambda>c. \<not> list_ex (\<lambda>f. fi_name f = co_name c) (rs_fields r)) [read_column ''refresh_token_hash'' ''TEXT'' False (Some [squote, squote])] @
      filter (\<lambda>c. \<not> list_ex (\<lambda>f. fi_name f = co_name c) (rs_fields r)) [read_column ''refresh_expires_at'' ''TIMESTAMPTZ'' True None] @
      filter (\<lambda>c. \<not> list_ex (\<lambda>f. fi_name f = co_name c) (rs_fields r)) [read_column ''parent_session_id'' ''BIGINT'' True None] @
      filter (\<lambda>c. \<not> list_ex (\<lambda>f. fi_name f = co_name c) (rs_fields r)) [read_column ''theft_detected_at'' ''TIMESTAMPTZ'' True None]"
    unfolding session_columns_def filter_append[symmetric] append.simps ..
  show ?thesis
    unfolding extend_session_rotation_columns_def sum
    by (intro rows_read_append rows_push fixed_rows parent) simp_all
qed

lemma calm_idents: "list_all calm fs \<Longrightarrow> calm (join '', '' (map sql_ident fs))"
  by (rule calm_join) (auto simp: list_all_iff)

lemma calm_plain: "is_plain_sql_ident n \<Longrightarrow> calm n"
  using plain_ident_body calm_ident_body by blast

lemma rows_unique_fields:
  assumes "list_all calm fs" "unique_fields_sql fs per name = Some c" "case name of None \<Rightarrow> True | Some n \<Rightarrow> calm n"
  shows "rows_read [c] []"
proof -
  let ?ids = "map sql_ident fs @ (case per of Some p \<Rightarrow> [sql_ident (lower_snake p @ ''_id'')] | None \<Rightarrow> [])"
  have c: "c = Raw ((case name of Some n \<Rightarrow> ''CONSTRAINT '' @ sql_ident n @ '' '' | None \<Rightarrow> []) @ ''UNIQUE ('' @ join '', '' ?ids @ '')'')"
    using assms(2) by (auto simp: unique_fields_sql_def Let_def split: if_splits option.splits)
  have ids: "calm (join '', '' ?ids)"
    using assms(1) by (intro calm_join) (auto simp: list_all_iff split: option.splits)
  have fin: "graphic CHR '')''" "CHR '')'' \<noteq> CHR '',''" by code_simp+
  show ?thesis
  proof (cases name)
    case None
    have "rows_read [Raw (''UNIQUE '' @ ''('' @ join '', '' ?ids @ '')'')] []"
      by (rule rows_constraint) (use ids fin in simp_all)
    with c None show ?thesis by simp
  next
    case (Some n)
    have "rows_read [Raw (''CONSTRAINT '' @ sql_ident n @ '' UNIQUE ('' @ join '', '' ?ids @ '')'')] []"
      by (rule rows_constraint) (use ids fin Some assms(3) in simp_all)
    with c Some show ?thesis by simp
  qed
qed

lemma rows_constraints:
  assumes "emittable r"
  shows "rows_read (inline_unique_constraint_sql r tenancy) []"
    "rows_read (List.map_filter (unique_constraint_sql (lower_snake s)) (rs_constraints r)) []"
    "rows_read (case composite_key_sql r of Some c \<Rightarrow> [c] | None \<Rightarrow> []) []"
    "rows_read (foreign_key_constraints m r ix) []"
proof -
  have names: "calm (fi_name fl)" if "fl \<in> set (rs_fields r)" for fl
    using assms that calm_plain by (auto simp: emittable_def field_ok_def list_all_iff)
  show "rows_read (inline_unique_constraint_sql r tenancy) []"
    by (rule rows_read_none)
      (auto simp: inline_unique_constraint_sql_def List.map_filter_def names intro!: rows_unique_fields)
  show "rows_read (List.map_filter (unique_constraint_sql (lower_snake s)) (rs_constraints r)) []"
  proof (rule rows_read_none, rule ballI)
    fix c assume "c \<in> set (List.map_filter (unique_constraint_sql (lower_snake s)) (rs_constraints r))"
    then obtain k where k: "k \<in> set (rs_constraints r)" "unique_constraint_sql (lower_snake s) k = Some c"
      by (auto simp: List.map_filter_def)
    then obtain u where u: "k = Unique u"
      "unique_fields_sql (uc_fields u) (uc_per u) (map_option (\<lambda>_. unique_constraint_name (lower_snake s) (uc_fields u)) (uc_error_code u)) = Some c"
      by (auto simp: unique_constraint_sql_def split: Constraint.splits if_splits)
    moreover have "list_all calm (uc_fields u)" using assms k(1) u(1) by (auto simp: emittable_def list_all_iff)
    ultimately show "rows_read [c] []"
      by (intro rows_unique_fields) (auto simp: unique_constraint_name_def split: option.split)
  qed
  have fin: "graphic CHR '')''" "CHR '')'' \<noteq> CHR '',''" by code_simp+
  show "rows_read (case composite_key_sql r of Some c \<Rightarrow> [c] | None \<Rightarrow> []) []"
  proof (cases "composite_key_sql r")
    case (Some c)
    then obtain ck where ck: "rs_composite_key r = Some ck"
      "c = Raw ((if ck_primary ck then ''PRIMARY KEY ('' else ''UNIQUE ('') @ ident_list (ck_fields ck) @ '')'')"
      by (auto simp: composite_key_sql_def split: option.splits if_splits)
    have "calm (ident_list (ck_fields ck))"
      using assms ck(1) calm_idents by (simp add: emittable_def ident_list_def)
    then have "rows_read [Raw (p @ ''('' @ ident_list (ck_fields ck) @ '')'')] []" if "p = ''PRIMARY KEY '' \<or> p = ''UNIQUE ''" for p
      using that fin by (intro rows_constraint) auto
    from this[of "''PRIMARY KEY ''"] this[of "''UNIQUE ''"] show ?thesis using Some ck(2) by simp
  qed simp
  show "rows_read (foreign_key_constraints m r ix) []"
  proof (rule rows_read_none, rule ballI)
    fix c assume "c \<in> set (foreign_key_constraints m r ix)"
    then obtain fl where fl: "fl \<in> set (rs_fields r)" "(case fi_type_ref fl of
         UserDefined q \<Rightarrow>
           (case foreign_key_owner m q ix of None \<Rightarrow> None
            | Some _ \<Rightarrow> Some (Raw (''FOREIGN KEY ('' @ sql_ident (fi_name fl) @ '') REFERENCES '' @
                quote_ident (lower_snake (qn_name q)) @ '' (id)'')))
       | _ \<Rightarrow> None) = Some c"
      by (auto simp only: foreign_key_constraints_def set_map_filter_iff)
    then obtain q where q: "fi_type_ref fl = UserDefined q" by (cases "fi_type_ref fl") auto
    let ?x = "''('' @ sql_ident (fi_name fl) @ '') REFERENCES '' @ quote_ident (lower_snake (qn_name q)) @ '' (id)''"
    have c: "c = Raw (''FOREIGN KEY '' @ ?x)" using fl(2) q by (simp split: option.splits)
    have "calm ?x" using names[OF fl(1)] by simp
    then show "rows_read [c] []" unfolding c by (rule rows_constraint[rotated]) (use fin in simp_all)
  qed
qed

lemma rows_polymorphic:
  assumes "emittable r"
  shows "rows_read (polymorphic_ref_columns r) (polymorphic_columns r)"
  unfolding polymorphic_ref_columns_def polymorphic_columns_def Let_def
proof (intro rows_read_concat ballI)
  fix p assume p: "p \<in> set (rs_polymorphic_refs r)"
  let ?t = "sql_ident (pr_type_field p)"
  let ?x = "?t @ '' IN ('' @ join '', '' (map quote_literal (pr_targets p)) @ ''))''"
  have ok: "is_plain_sql_ident (pr_type_field p)" "is_plain_sql_ident (pr_id_field p)" "list_all calm (pr_targets p)"
    using assms p by (auto simp: emittable_def list_all_iff)
  have fin: "graphic CHR '')''" by code_simp
  have "calm (join '', '' (map quote_literal (pr_targets p)))"
    using ok(3) by (intro calm_join) (auto simp: list_all_iff)
  then have x: "calm ('' CHECK ('' @ ?x)" using plain_ident_facts(3)[OF ok(1)] by simp
  have "rows_read [Raw (?t @ '' TEXT NOT NULL CHECK ('' @ ?x)] [read_column (pr_type_field p) ''TEXT'' (\<not> True) None]"
    by (rule rows_typed[OF ok(1) sql_types(2) _ x]) (use fin in \<open>auto simp: stops_def row_tail_def\<close>)
  moreover have "rows_read [Raw (sql_ident (pr_id_field p) @ '' BIGINT NOT NULL'')] [read_column (pr_id_field p) ''BIGINT'' (\<not> True) None]"
    by (rule rows_typed[OF ok(2) sql_types(1), of "[]"]) (auto simp: stops_def row_tail_def)
  ultimately show "rows_read [Raw (?t @ '' TEXT NOT NULL CHECK ('' @ ?t @ '' IN ('' @ join '', '' (map quote_literal (pr_targets p)) @ ''))''),
      Raw (sql_ident (pr_id_field p) @ '' BIGINT NOT NULL'')]
      [read_column (pr_type_field p) ''TEXT'' False None, read_column (pr_id_field p) ''BIGINT'' False None]"
    using rows_read_Cons by simp
qed

lemma rows_soft_delete:
  "rows_read (if rs_soft_delete r then sql_typed ''deleted_at'' ''TIMESTAMPTZ'' False #
     (if rs_soft_delete_actor r then [sql_typed ''deleted_by'' ''BIGINT'' False] else []) else []) (soft_delete_columns r)"
proof -
  have n: "is_plain_sql_ident ''deleted_at''" "is_plain_sql_ident ''deleted_by''" by code_simp+
  note at = rows_plain_typed[OF n(1) sql_types(3), of False] and by' = rows_plain_typed[OF n(2) sql_types(1), of False]
  show ?thesis
    using at by' rows_read_Cons[OF at, of "[sql_typed ''deleted_by'' ''BIGINT'' False]"]
    by (auto simp: soft_delete_columns_def synthesized_soft_delete_columns_def)
qed

lemma rows_resource:
  assumes "emittable r"
  shows "rows_read (resource_columns m f r ix) (emitted_schema m f r ix)"
proof -
  have org: "is_plain_sql_ident ''org_id''" by code_simp
  have flds: "rows_read (concat (map (field_columns m r ix) (rs_fields r))) (concat (map (\<lambda>fl. map snd (field_tags m r ix fl)) (rs_fields r)))"
    using assms rows_field by (intro rows_read_concat) (auto simp: emittable_def list_all_iff)
  have schema: "emitted_schema m f r ix =
     (if composite_primary r then [] else [read_column ''id'' ''BIGSERIAL'' True None]) @
     (if effective_tenancy f r = Org then [read_column ''org_id'' ''BIGINT'' False None] else []) @
     concat (map (\<lambda>fl. map snd (field_tags m r ix fl)) (rs_fields r)) @
     (if session_rotation_enabled_for_resource m f r then session_columns r else []) @
     (if uses_timestamps f r then timestamp_columns else []) @
     soft_delete_columns r @ [] @ [] @ [] @ [] @ polymorphic_columns r"
    by (simp add: emitted_schema_def emitted_tags_def map_concat comp_def)
  have ts: "rows_read [Raw ''created_at TIMESTAMPTZ NOT NULL DEFAULT NOW()'', Raw ''updated_at TIMESTAMPTZ NOT NULL DEFAULT NOW()''] timestamp_columns"
    using rows_read_Cons[OF fixed_rows(2,3)] by (simp add: timestamp_columns_def)
  show ?thesis
    unfolding resource_columns_def Let_def schema composite_primary_def
    by (intro rows_read_append rows_soft_delete rows_constraints[OF assms] flds rows_polymorphic[OF assms])
      (use fixed_rows(1) rows_plain_typed[OF org sql_types(1), of True] rows_session[of r "rs_name r"] ts in simp_all)
qed

lemma parse_emittable:
  assumes "emittable r"
  shows "parse_baseline_from_str (emit_resource_migration m f r label ix) = Ok (emitted_schema m f r ix)"
  using rows_resource[OF assms, of m f ix] parse_emitted[of m f r ix label] by (simp add: rows_read_def)

section \<open>The plan for an unchanged resource\<close>

definition local_timestamps :: "resource_ir \<Rightarrow> bool" where
  "local_timestamps r = (case rs_timestamps r of Some b \<Rightarrow> b | None \<Rightarrow> True)"

text \<open>What the projection has and the table lacks, and the fields the two type differently.\<close>

definition unemitted_columns :: "feature_ir \<Rightarrow> resource_ir \<Rightarrow> column list" where
  "unemitted_columns f r =
     (if composite_primary r then [column_new ''id'' ''BIGSERIAL'' False] else []) @
     (if local_timestamps r \<and> \<not> uses_timestamps f r then timestamp_columns else [])"

definition retyped_fields :: "module_ir \<Rightarrow> resource_ir \<Rightarrow> cross_feature_index \<Rightarrow> type_change list" where
  "retyped_fields m r ix = List.map_filter (\<lambda>fl.
     if fi_derived_from fl = None \<and> pg_sql (pg_type_for_field m fl ix) \<noteq> ir_pg_type (fi_type_ref fl)
     then Some \<lparr>tc_column = fi_name fl, tc_old_type = pg_sql (pg_type_for_field m fl ix), tc_new_type = ir_pg_type (fi_type_ref fl)\<rparr>
     else None) (rs_fields r)"

lemma current_schema_segments:
  "current_schema_from_ir r = [column_new ''id'' ''BIGSERIAL'' False] @
     map field_to_column (filter (\<lambda>f. fi_derived_from f = None) (rs_fields r)) @
     (if local_timestamps r then timestamp_columns else []) @ soft_delete_columns r @ polymorphic_columns r"
  by (simp add: current_schema_from_ir_def local_timestamps_def timestamp_columns_def soft_delete_columns_def
      polymorphic_columns_def with_default_def column_new_def)

lemma uses_local: "uses_timestamps f r \<Longrightarrow> local_timestamps r"
  by (auto simp: uses_timestamps_def local_timestamps_def split: option.splits)

lemma field_tag_in:
  "fl \<in> set (rs_fields r) \<Longrightarrow>
   (fi_derived_from fl = None, read_column (fi_name fl) (pg_sql (pg_type_for_field m fl ix)) (\<not> fi_required fl) None) \<in> set (emitted_tags m f r ix)"
proof -
  let ?t = "(fi_derived_from fl = None, read_column (fi_name fl) (pg_sql (pg_type_for_field m fl ix)) (\<not> fi_required fl) None)"
  assume "fl \<in> set (rs_fields r)"
  moreover have "?t \<in> set (field_tags m r ix fl)" by (simp add: field_tags_def)
  ultimately have "?t \<in> set (concat (map (field_tags m r ix) (rs_fields r)))" unfolding set_concat set_map by blast
  then show ?thesis by (simp only: emitted_tags_def set_append Un_iff simp_thms)
qed

lemma emitted_in:
  "\<not> composite_primary r \<Longrightarrow> (True, read_column ''id'' ''BIGSERIAL'' True None) \<in> set (emitted_tags m f r ix)"
  "uses_timestamps f r \<Longrightarrow> c \<in> set timestamp_columns \<Longrightarrow> (True, c) \<in> set (emitted_tags m f r ix)"
  "c \<in> set (soft_delete_columns r) \<Longrightarrow> (True, c) \<in> set (emitted_tags m f r ix)"
  "c \<in> set (polymorphic_columns r) \<Longrightarrow> (True, c) \<in> set (emitted_tags m f r ix)"
  by (simp_all add: emitted_tags_def)

lemma tag_true:
  "(True, c) \<in> set (emitted_tags m f r ix) \<Longrightarrow> co_name c \<in> co_name ` set (current_schema_from_ir r)"
proof -
  assume "(True, c) \<in> set (emitted_tags m f r ix)"
  then consider "co_name c = ''id''" | "uses_timestamps f r" "c \<in> set timestamp_columns"
    | "c \<in> set (soft_delete_columns r)" | "c \<in> set (polymorphic_columns r)"
    | fl where "fl \<in> set (rs_fields r)" "(True, c) \<in> set (field_tags m r ix fl)"
    by (auto simp: emitted_tags_def split: if_splits)
  then show ?thesis
  proof cases
    case (5 fl)
    then have "fi_derived_from fl = None" "co_name c = co_name (field_to_column fl)"
      by (auto simp: field_tags_def field_to_column_def split: TypeRef.splits BuiltinType.splits if_splits)
    with 5(1) show ?thesis by (auto simp: current_schema_segments)
  qed (auto simp: current_schema_segments column_new_def dest: uses_local)
qed

lemma current_cases:
  assumes "c \<in> set (current_schema_from_ir r)"
  shows "(\<exists>b. (True, b) \<in> set (emitted_tags m f r ix) \<and> co_name b = co_name c) \<or> c \<in> set (unemitted_columns f r)"
proof -
  consider "c = column_new ''id'' ''BIGSERIAL'' False" | fl where "fl \<in> set (rs_fields r)" "fi_derived_from fl = None" "c = field_to_column fl"
    | "local_timestamps r" "c \<in> set timestamp_columns" | "c \<in> set (soft_delete_columns r)" | "c \<in> set (polymorphic_columns r)"
    using assms by (auto simp: current_schema_segments split: if_splits)
  then show ?thesis
  proof cases
    case 1
    then show ?thesis
      using emitted_in(1)[of r m f ix] by (cases "composite_primary r") (force simp: unemitted_columns_def column_new_def)+
  next
    case (2 fl)
    then show ?thesis using field_tag_in[of fl r m ix f] by (force simp: field_to_column_def)
  next
    case 3
    then show ?thesis
      using emitted_in(2)[of f r c m ix] by (cases "uses_timestamps f r") (auto simp: unemitted_columns_def)
  qed (use emitted_in(3,4) in blast)+
qed

text \<open>With distinct names the marks decide what is dropped, and lookups find the emitted column.\<close>

lemma emitted_names_distinct:
  assumes "distinct (map co_name (emitted_schema m f r ix @ unemitted_columns f r))"
  shows "t \<in> set (emitted_tags m f r ix) \<Longrightarrow> t' \<in> set (emitted_tags m f r ix) \<Longrightarrow> co_name (snd t) = co_name (snd t') \<Longrightarrow> t = t'"
    and "t \<in> set (emitted_tags m f r ix) \<Longrightarrow> c \<in> set (unemitted_columns f r) \<Longrightarrow> co_name (snd t) \<noteq> co_name c"
    and "t \<in> set (emitted_tags m f r ix) \<Longrightarrow> schema_find (emitted_schema m f r ix) (co_name (snd t)) = Some (snd t)"
    and "c \<in> set (unemitted_columns f r) \<Longrightarrow> schema_find (emitted_schema m f r ix) (co_name c) = None"
proof -
  have d: "distinct (map (\<lambda>t. co_name (snd t)) (emitted_tags m f r ix))"
    "co_name ` set (emitted_schema m f r ix) \<inter> co_name ` set (unemitted_columns f r) = {}"
    "distinct (map co_name (emitted_schema m f r ix))"
    using assms by (simp_all add: emitted_schema_def comp_def image_image)
  have mem: "snd t \<in> set (emitted_schema m f r ix)" if "t \<in> set (emitted_tags m f r ix)" for t
    using that by (simp add: emitted_schema_def)
  show "t \<in> set (emitted_tags m f r ix) \<Longrightarrow> t' \<in> set (emitted_tags m f r ix) \<Longrightarrow> co_name (snd t) = co_name (snd t') \<Longrightarrow> t = t'"
    using d(1) by (auto simp: distinct_map dest: inj_onD)
  show "t \<in> set (emitted_tags m f r ix) \<Longrightarrow> c \<in> set (unemitted_columns f r) \<Longrightarrow> co_name (snd t) \<noteq> co_name c"
    using d(2) mem[of t] by (auto simp: disjoint_iff image_iff)
  show "t \<in> set (emitted_tags m f r ix) \<Longrightarrow> schema_find (emitted_schema m f r ix) (co_name (snd t)) = Some (snd t)"
    using schema_find_distinct[OF d(3)] mem by blast
  show "c \<in> set (unemitted_columns f r) \<Longrightarrow> schema_find (emitted_schema m f r ix) (co_name c) = None"
    using d(2) unfolding schema_find_None_iff by blast
qed

lemma unchanged_drops:
  assumes "distinct (map co_name (emitted_schema m f r ix @ unemitted_columns f r))"
  shows "diff_drops (emitted_schema m f r ix) (current_schema_from_ir r) = map snd (filter (\<lambda>t. \<not> fst t) (emitted_tags m f r ix))"
proof -
  have "co_name (snd t) \<in> co_name ` set (current_schema_from_ir r) \<longleftrightarrow> fst t" if t: "t \<in> set (emitted_tags m f r ix)" for t
  proof
    assume "co_name (snd t) \<in> co_name ` set (current_schema_from_ir r)"
    then obtain c where c: "c \<in> set (current_schema_from_ir r)" "co_name c = co_name (snd t)" by auto
    from current_cases[OF c(1), of m f ix] show "fst t"
    proof
      assume "\<exists>b. (True, b) \<in> set (emitted_tags m f r ix) \<and> co_name b = co_name c"
      then obtain b where "(True, b) \<in> set (emitted_tags m f r ix)" "co_name b = co_name c" by blast
      with emitted_names_distinct(1)[OF assms t, of "(True, b)"] c(2) show ?thesis by simp
    next
      assume "c \<in> set (unemitted_columns f r)"
      from emitted_names_distinct(2)[OF assms t this] c(2) show ?thesis by simp
    qed
  next
    assume "fst t"
    then have "(True, snd t) \<in> set (emitted_tags m f r ix)" using t by (metis prod.collapse)
    then show "co_name (snd t) \<in> co_name ` set (current_schema_from_ir r)" by (rule tag_true)
  qed
  then show ?thesis
    unfolding diff_drops_def emitted_schema_def filter_map comp_def schema_find_None_iff
    by (intro arg_cong[where f = "map snd"] filter_cong) auto
qed

lemma unchanged_adds:
  assumes "distinct (map co_name (emitted_schema m f r ix @ unemitted_columns f r))"
  shows "diff_adds (emitted_schema m f r ix) (current_schema_from_ir r) = unemitted_columns f r"
proof -
  let ?P = "\<lambda>c. schema_find (emitted_schema m f r ix) (co_name c) = None"
  have kept: "filter ?P cs = []" if "\<forall>c \<in> set cs. \<exists>t \<in> set (emitted_tags m f r ix). co_name (snd t) = co_name c" for cs
    using that emitted_names_distinct(3)[OF assms] by (force simp: filter_empty_conv)
  have new: "filter ?P cs = cs" if "set cs \<subseteq> set (unemitted_columns f r)" for cs
    using that emitted_names_distinct(4)[OF assms] by (auto simp: filter_id_conv)
  have ids: "filter ?P [column_new ''id'' ''BIGSERIAL'' False] = (if composite_primary r then [column_new ''id'' ''BIGSERIAL'' False] else [])"
  proof (cases "composite_primary r")
    case True
    then show ?thesis using new[of "[column_new ''id'' ''BIGSERIAL'' False]"] by (simp add: unemitted_columns_def)
  next
    case False
    have "\<forall>c \<in> set [column_new ''id'' ''BIGSERIAL'' False]. \<exists>t \<in> set (emitted_tags m f r ix). co_name (snd t) = co_name c"
      using emitted_in(1)[OF False, of m f ix] by (auto simp: column_new_def intro!: bexI)
    from kept[OF this] False show ?thesis by simp
  qed
  have flds: "filter ?P (map field_to_column (filter (\<lambda>f. fi_derived_from f = None) (rs_fields r))) = []"
  proof (intro kept ballI)
    fix c assume "c \<in> set (map field_to_column (filter (\<lambda>f. fi_derived_from f = None) (rs_fields r)))"
    then obtain fl where "fl \<in> set (rs_fields r)" "c = field_to_column fl" by auto
    then show "\<exists>t \<in> set (emitted_tags m f r ix). co_name (snd t) = co_name c"
      by (intro bexI[OF _ field_tag_in]) (simp_all add: field_to_column_def)
  qed
  have ts: "filter ?P (if local_timestamps r then timestamp_columns else []) =
      (if local_timestamps r \<and> \<not> uses_timestamps f r then timestamp_columns else [])"
  proof (cases "uses_timestamps f r")
    case True
    then have "filter ?P timestamp_columns = []" using emitted_in(2)[OF True, of _ m ix] by (intro kept) force
    with True show ?thesis by simp
  next
    case False
    then show ?thesis using new[of timestamp_columns] by (auto simp: unemitted_columns_def)
  qed
  have rest: "filter ?P (soft_delete_columns r) = []" "filter ?P (polymorphic_columns r) = []"
    using emitted_in(3,4)[of _ r m f ix] by (intro kept; force)+
  show ?thesis
    unfolding diff_adds_def current_schema_segments filter_append ids flds ts rest by (simp add: unemitted_columns_def)
qed

lemma unchanged_types:
  assumes "distinct (map co_name (emitted_schema m f r ix @ unemitted_columns f r))"
  shows "diff_type_changes (emitted_schema m f r ix) (current_schema_from_ir r) = retyped_fields m r ix"
proof -
  define g :: "column \<Rightarrow> type_change option" where "g = (\<lambda>c. case schema_find (emitted_schema m f r ix) (co_name c) of
       None \<Rightarrow> None
     | Some b \<Rightarrow> if co_sql_type b \<noteq> co_sql_type c
         then Some \<lparr>tc_column = co_name c, tc_old_type = co_sql_type b, tc_new_type = co_sql_type c\<rparr> else None)"
  have app: "List.map_filter g (xs @ ys) = List.map_filter g xs @ List.map_filter g ys" for xs ys
    by (simp add: List.map_filter_def)
  have none: "List.map_filter g cs = []" if "\<forall>c \<in> set cs. g c = None" for cs
    using that by (simp add: List.map_filter_def filter_empty_conv)
  have same: "g c = None" if "t \<in> set (emitted_tags m f r ix)" "co_name (snd t) = co_name c" "co_sql_type (snd t) = co_sql_type c" for t c
    using emitted_names_distinct(3)[OF assms that(1)] that(2,3) by (simp add: g_def)
  have new: "g c = None" if "c \<in> set (unemitted_columns f r)" for c
    using emitted_names_distinct(4)[OF assms that] by (simp add: g_def)
  have "g (column_new ''id'' ''BIGSERIAL'' False) = None"
    using same[OF emitted_in(1), of "column_new ''id'' ''BIGSERIAL'' False"] new[of "column_new ''id'' ''BIGSERIAL'' False"]
    by (cases "composite_primary r") (simp_all add: column_new_def unemitted_columns_def)
  then have ids: "List.map_filter g [column_new ''id'' ''BIGSERIAL'' False] = []" by (intro none) simp
  have "\<forall>c \<in> set timestamp_columns. g c = None" if "local_timestamps r"
  proof (cases "uses_timestamps f r")
    case True
    then show ?thesis using same[OF emitted_in(2)[OF True]] by auto
  next
    case False
    then show ?thesis using that new by (simp add: unemitted_columns_def)
  qed
  then have ts: "List.map_filter g (if local_timestamps r then timestamp_columns else []) = []" by (intro none) simp
  have rest: "List.map_filter g (soft_delete_columns r) = []" "List.map_filter g (polymorphic_columns r) = []"
    using same[OF emitted_in(3)] same[OF emitted_in(4)] by (intro none; simp)+
  have fld: "g (field_to_column fl) = (if pg_sql (pg_type_for_field m fl ix) \<noteq> ir_pg_type (fi_type_ref fl)
      then Some \<lparr>tc_column = fi_name fl, tc_old_type = pg_sql (pg_type_for_field m fl ix), tc_new_type = ir_pg_type (fi_type_ref fl)\<rparr>
      else None)" if "fl \<in> set (rs_fields r)" for fl
    using emitted_names_distinct(3)[OF assms field_tag_in[OF that, of m ix f]] by (simp add: g_def field_to_column_def)
  have flds: "List.map_filter g (map field_to_column (filter (\<lambda>f. fi_derived_from f = None) fls)) =
      List.map_filter (\<lambda>fl. if fi_derived_from fl = None \<and> pg_sql (pg_type_for_field m fl ix) \<noteq> ir_pg_type (fi_type_ref fl)
     then Some \<lparr>tc_column = fi_name fl, tc_old_type = pg_sql (pg_type_for_field m fl ix), tc_new_type = ir_pg_type (fi_type_ref fl)\<rparr>
     else None) fls" if "set fls \<subseteq> set (rs_fields r)" for fls
    using that fld by (induction fls) (auto simp: List.map_filter_def)
  show ?thesis
    unfolding diff_type_changes_def g_def[symmetric] current_schema_segments app ids ts rest
    using flds[of "rs_fields r"] by (simp add: retyped_fields_def)
qed

lemma unchanged_diff:
  assumes "distinct (map co_name (emitted_schema m f r ix @ unemitted_columns f r))"
  shows "diff (emitted_schema m f r ix) (current_schema_from_ir r) =
    \<lparr>sd_adds = unemitted_columns f r, sd_drops = map snd (filter (\<lambda>t. \<not> fst t) (emitted_tags m f r ix)),
     sd_type_changes = retyped_fields m r ix\<rparr>"
  using unchanged_adds[OF assms] unchanged_drops[OF assms] unchanged_types[OF assms] by (simp add: diff_def)

lemma unmarked_empty_iff:
  "filter (\<lambda>t. \<not> fst t) (emitted_tags m f r ix) = [] \<longleftrightarrow>
     effective_tenancy f r \<noteq> Org \<and> (session_rotation_enabled_for_resource m f r \<longrightarrow> session_columns r = []) \<and>
     (\<forall>fl \<in> set (rs_fields r). fi_derived_from fl = None \<and>
        ((\<exists>cur. fi_type_ref fl = Builtin (SemanticMoney cur)) \<longrightarrow> fi_name fl \<in> explicit_currency_overrides r))"
proof -
  have fld: "(\<forall>t \<in> set (field_tags m r ix fl). fst t) \<longleftrightarrow> fi_derived_from fl = None \<and>
      ((\<exists>cur. fi_type_ref fl = Builtin (SemanticMoney cur)) \<longrightarrow> fi_name fl \<in> explicit_currency_overrides r)" for fl
    by (cases "fi_type_ref fl") (auto simp: field_tags_def split: BuiltinType.splits)
  have "filter (\<lambda>t. \<not> fst t) (emitted_tags m f r ix) = [] \<longleftrightarrow> (\<forall>t \<in> set (emitted_tags m f r ix). fst t)"
    by (simp add: filter_empty_conv)
  also have "\<dots> \<longleftrightarrow> effective_tenancy f r \<noteq> Org \<and> (session_rotation_enabled_for_resource m f r \<longrightarrow> session_columns r = []) \<and>
      (\<forall>fl \<in> set (rs_fields r). \<forall>t \<in> set (field_tags m r ix fl). fst t)"
  proof -
    have tags: "(\<forall>t \<in> set (map (Pair False) cs). fst t) \<longleftrightarrow> cs = []" "(\<forall>t \<in> set (map (Pair True) cs). fst t)" for cs :: "column list"
      by (cases cs; simp)+
    have segs: "(\<forall>t \<in> set (if b then xs else []). fst t) \<longleftrightarrow> (b \<longrightarrow> (\<forall>t \<in> set xs. fst t))"
      "(\<forall>t \<in> set (if b then [] else xs). fst t) \<longleftrightarrow> b \<or> (\<forall>t \<in> set xs. fst t)" for b and xs :: "(bool \<times> column) list" by auto
    show ?thesis unfolding emitted_tags_def set_append ball_Un segs tags by (simp, blast)
  qed
  finally show ?thesis unfolding fld .
qed

lemma retyped_empty_iff:
  "retyped_fields m r ix = [] \<longleftrightarrow> (\<forall>fl \<in> set (rs_fields r). fi_derived_from fl = None \<longrightarrow>
     pg_sql (pg_type_for_field m fl ix) = ir_pg_type (fi_type_ref fl))"
  by (auto simp: retyped_fields_def List.map_filter_def filter_empty_conv)

section \<open>Properties\<close>

text \<open>The examples: a table with a composite primary key and a plain one.\<close>

definition keyed_resource :: resource_ir where
  "keyed_resource = (sample_resource ''Membership'' [sample_field ''user'' (Builtin BtId), sample_field ''price'' (Builtin BtDecimal)])
     \<lparr>rs_composite_key := Some \<lparr>ck_fields = [''user''], ck_primary = True\<rparr>, rs_timestamps := Some True\<rparr>"

definition keyed_feature :: feature_ir where
  "keyed_feature = sample_feature ''team'' [keyed_resource]"

lemma keyed_ok:
  "emittable keyed_resource"
  "emitted_schema [keyed_feature] keyed_feature keyed_resource (build [keyed_feature]) =
     [read_column ''user'' ''BIGINT'' False None, read_column ''price'' ''NUMERIC(20, 6)'' False None] @ timestamp_columns"
  "unemitted_columns keyed_feature keyed_resource = [column_new ''id'' ''BIGSERIAL'' False]"
  by code_simp+

lemma keyed_distinct:
  "distinct (map co_name (emitted_schema [keyed_feature] keyed_feature keyed_resource (build [keyed_feature]) @
     unemitted_columns keyed_feature keyed_resource))"
  unfolding keyed_ok by (simp add: timestamp_columns_def column_new_def)

definition host_resource :: resource_ir where
  "host_resource = (sample_resource ''Host'' [sample_field ''name'' (Builtin BtText), sample_field ''user'' (Builtin BtText)])\<lparr>rs_timestamps := Some True\<rparr>"

definition host_feature :: feature_ir where
  "host_feature = sample_feature ''hosts'' [host_resource]"

text \<open>
  C36. The baseline parser inverts the migration emitter: for every resource whose names need no
  escapes, whatever its tenancy, keys, constraints, references and session rotation are, parsing the
  emitted migration gives exactly the table's columns, in order, with the emitted type and nullability;
  no constraint line becomes a column.
\<close>

theorem emitted_migration_reads_back:
  assumes "emittable r"
  shows "parse_baseline_from_str (emit_resource_migration m f r label ix) = Ok (emitted_schema m f r ix)"
  using assms by (rule parse_emittable)

theorem emitted_migration_reads_back_witness:
  "parse_baseline_from_str (emit_resource_migration [keyed_feature] keyed_feature keyed_resource ''team.lzi'' (build [keyed_feature])) =
   Ok ([read_column ''user'' ''BIGINT'' False None, read_column ''price'' ''NUMERIC(20, 6)'' False None] @ timestamp_columns)"
  using emitted_migration_reads_back[OF keyed_ok(1), of "[keyed_feature]" keyed_feature "''team.lzi''" "build [keyed_feature]"] keyed_ok(2) by simp

text \<open>
  C37. What regenerating an unchanged resource plans: the difference between the emitted migration,
  parsed back, and the projection of the same resource adds exactly the \<^verbatim>\<open>id\<close> column of a resource with a
  composite primary key and the timestamps a feature default switches off, drops exactly the tenancy,
  derived, currency and session columns, and retypes exactly the fields whose type needs the module.
\<close>

theorem unchanged_resource_plan:
  assumes "emittable r" "distinct (map co_name (emitted_schema m f r ix @ unemitted_columns f r))"
  shows "\<exists>baseline. parse_baseline_from_str (emit_resource_migration m f r label ix) = Ok baseline \<and>
    diff baseline (current_schema_from_ir r) =
      \<lparr>sd_adds = unemitted_columns f r, sd_drops = map snd (filter (\<lambda>t. \<not> fst t) (emitted_tags m f r ix)),
       sd_type_changes = retyped_fields m r ix\<rparr>"
  using parse_emittable[OF assms(1)] unchanged_diff[OF assms(2)] by blast

theorem unchanged_resource_plan_witness:
  "\<exists>baseline. parse_baseline_from_str (emit_resource_migration [keyed_feature] keyed_feature keyed_resource ''team.lzi'' (build [keyed_feature])) =
     Ok baseline \<and> sd_adds (diff baseline (current_schema_from_ir keyed_resource)) = [column_new ''id'' ''BIGSERIAL'' False]"
  using unchanged_resource_plan[OF keyed_ok(1) keyed_distinct, of "''team.lzi''"] keyed_ok(3) by auto

text \<open>
  Regenerating an unchanged resource plans nothing exactly when the resource alone determines its
  table: no composite primary key, timestamps as the resource says, no tenancy column, no session
  columns, and every field stored, typed without the module and, if money, with an authored currency.
\<close>

lemma unchanged_resource_no_plan_iff:
  assumes "emittable r" "distinct (map co_name (emitted_schema m f r ix @ unemitted_columns f r))"
  shows "\<exists>baseline. parse_baseline_from_str (emit_resource_migration m f r label ix) = Ok baseline \<and>
    (schema_diff_is_empty (diff baseline (current_schema_from_ir r)) \<longleftrightarrow>
       \<not> composite_primary r \<and> uses_timestamps f r = local_timestamps r \<and> effective_tenancy f r \<noteq> Org \<and>
       (session_rotation_enabled_for_resource m f r \<longrightarrow> session_columns r = []) \<and>
       (\<forall>fl \<in> set (rs_fields r). fi_derived_from fl = None \<and>
          pg_sql (pg_type_for_field m fl ix) = ir_pg_type (fi_type_ref fl) \<and>
          ((\<exists>cur. fi_type_ref fl = Builtin (SemanticMoney cur)) \<longrightarrow> fi_name fl \<in> explicit_currency_overrides r)))"
proof -
  have "unemitted_columns f r = [] \<longleftrightarrow> \<not> composite_primary r \<and> uses_timestamps f r = local_timestamps r"
    using uses_local[of f r] by (auto simp: unemitted_columns_def timestamp_columns_def)
  then have "schema_diff_is_empty (diff (emitted_schema m f r ix) (current_schema_from_ir r)) \<longleftrightarrow>
       \<not> composite_primary r \<and> uses_timestamps f r = local_timestamps r \<and> effective_tenancy f r \<noteq> Org \<and>
       (session_rotation_enabled_for_resource m f r \<longrightarrow> session_columns r = []) \<and>
       (\<forall>fl \<in> set (rs_fields r). fi_derived_from fl = None \<and>
          pg_sql (pg_type_for_field m fl ix) = ir_pg_type (fi_type_ref fl) \<and>
          ((\<exists>cur. fi_type_ref fl = Builtin (SemanticMoney cur)) \<longrightarrow> fi_name fl \<in> explicit_currency_overrides r))"
    unfolding unchanged_diff[OF assms(2)] schema_diff_is_empty_def schema_diff.simps map_is_Nil_conv
      unmarked_empty_iff retyped_empty_iff by blast
  with parse_emittable[OF assms(1)] show ?thesis by blast
qed

lemma unchanged_resource_no_plan_iff_example:
  "\<exists>baseline. parse_baseline_from_str (emit_resource_migration [host_feature] host_feature host_resource ''hosts.lzi'' (build [host_feature])) =
     Ok baseline \<and> schema_diff_is_empty (diff baseline (current_schema_from_ir host_resource))"
proof -
  have ok: "emittable host_resource" by code_simp
  have dist: "distinct (map co_name (emitted_schema [host_feature] host_feature host_resource (build [host_feature]) @
      unemitted_columns host_feature host_resource))" by code_simp
  have facts: "\<not> composite_primary host_resource" "uses_timestamps host_feature host_resource = local_timestamps host_resource"
    "effective_tenancy host_feature host_resource \<noteq> Org" "\<not> session_rotation_enabled_for_resource [host_feature] host_feature host_resource"
    by code_simp+
  have "\<forall>fl \<in> set (rs_fields host_resource). fi_derived_from fl = None \<and> fi_type_ref fl = Builtin BtText"
    by (simp add: host_resource_def sample_resource_def sample_field_def)
  moreover from this have "\<forall>fl \<in> set (rs_fields host_resource).
      pg_sql (pg_type_for_field [host_feature] fl (build [host_feature])) = ir_pg_type (fi_type_ref fl)"
    by (simp add: pg_type_for_field_def)
  ultimately show ?thesis
    using facts unchanged_resource_no_plan_iff[OF ok dist, of "''hosts.lzi''"] by auto
qed

end
