(* ===== verification/Alter_Migration.thy ===== *)
theory Alter_Migration
  imports Baseline_Rows
begin

text \<open>
  Incremental migrations, second half (\<^verbatim>\<open>migration_ddl/alter_table.rs\<close>): the \<^verbatim>\<open>ALTER TABLE\<close> pair for a
  schema difference. Sorting is stable and by column name, as \<^verbatim>\<open>sort_by\<close> is. The records carry the
  emitter's own difference types, which name the table of every row.

  Shown here: the statements that are live in the up migration are exactly the additions, the permitted
  drops and the safe casts, each once and in order; running them changes the columns as the difference
  says, and the rollback restores them.
\<close>

section \<open>Definitions\<close>

datatype AlterDefault = AString string | AInteger int | ABoolean bool | ANull | ARaw string

fun render_default_sql :: "AlterDefault \<Rightarrow> string" where
  "render_default_sql (AString s) = quote_literal s"
| "render_default_sql (AInteger n) = int_to_string n"
| "render_default_sql (ABoolean b) = (if b then ''TRUE'' else ''FALSE'')"
| "render_default_sql ANull = ''NULL''"
| "render_default_sql (ARaw raw) = raw"

record column_add =
  ca_table :: string
  ca_column :: string
  ca_sql_type :: string
  ca_not_null :: bool
  ca_default :: "AlterDefault option"

record column_drop =
  cd_table :: string
  cd_column :: string
  cd_previous_sql_type :: string
  cd_previous_not_null :: bool
  cd_previous_default :: "AlterDefault option"

record column_retype =
  ct_table :: string
  ct_column :: string
  ct_previous_sql_type :: string
  ct_new_sql_type :: string

record alter_diff =
  ad_adds :: "column_add list"
  ad_drops :: "column_drop list"
  ad_type_changes :: "column_retype list"

definition alter_diff_is_empty :: "alter_diff \<Rightarrow> bool" where
  "alter_diff_is_empty d \<longleftrightarrow> ad_adds d = [] \<and> ad_drops d = [] \<and> ad_type_changes d = []"

definition safe_casts :: "(string \<times> string) list" where
  "safe_casts =
     [(''TEXT'', ''JSONB''), (''TEXT'', ''JSON''), (''INTEGER'', ''BIGINT''), (''INT'', ''BIGINT''), (''INT4'', ''BIGINT''),
      (''INT4'', ''INT8''), (''SMALLINT'', ''INTEGER''), (''SMALLINT'', ''BIGINT''), (''VARCHAR'', ''TEXT''), (''CHAR'', ''TEXT'')]"

definition is_safe_cast :: "string \<Rightarrow> string \<Rightarrow> bool" where
  "is_safe_cast from' to = ((to_ascii_uppercase from', to_ascii_uppercase to) \<in> set safe_casts)"

definition render_alter_add :: "column_add \<Rightarrow> string" where
  "render_alter_add add =
     ''ALTER TABLE '' @ quote_ident (ca_table add) @ '' ADD COLUMN IF NOT EXISTS '' @ sql_ident (ca_column add) @ '' '' @ ca_sql_type add @
     (if ca_not_null add \<and> ca_default add \<noteq> None then '' NOT NULL'' else []) @
     (case ca_default add of Some d \<Rightarrow> '' DEFAULT '' @ render_default_sql d | None \<Rightarrow> []) @ '';'' @
     (if ca_not_null add \<and> ca_default add = None then
        '' -- TODO: backfill '' @ ca_table add @ ''.'' @ ca_column add @ '', then `ALTER TABLE '' @ quote_ident (ca_table add) @
        '' ALTER COLUMN '' @ sql_ident (ca_column add) @ '' SET NOT NULL;`''
      else [])"

definition render_alter_add_down :: "column_add \<Rightarrow> string" where
  "render_alter_add_down add =
     ''ALTER TABLE '' @ quote_ident (ca_table add) @ '' DROP COLUMN IF EXISTS '' @ sql_ident (ca_column add) @ '';''"

definition render_alter_drop :: "column_drop \<Rightarrow> string" where
  "render_alter_drop d =
     ''ALTER TABLE '' @ quote_ident (cd_table d) @ '' DROP COLUMN IF EXISTS '' @ sql_ident (cd_column d) @ '';''"

definition recreated :: "column_drop \<Rightarrow> column_add" where
  "recreated d = \<lparr>ca_table = cd_table d, ca_column = cd_column d, ca_sql_type = cd_previous_sql_type d,
     ca_not_null = cd_previous_not_null d, ca_default = cd_previous_default d\<rparr>"

definition render_alter_drop_down :: "column_drop \<Rightarrow> string" where
  "render_alter_drop_down d = render_alter_add (recreated d)"

definition render_alter_type_change :: "column_retype \<Rightarrow> string" where
  "render_alter_type_change c =
     ''ALTER TABLE '' @ quote_ident (ct_table c) @ '' ALTER COLUMN '' @ sql_ident (ct_column c) @ '' TYPE '' @ ct_new_sql_type c @
     '' USING '' @ sql_ident (ct_column c) @ ''::'' @ to_ascii_lowercase (ct_new_sql_type c) @ '';''"

definition render_alter_type_change_down :: "column_retype \<Rightarrow> string" where
  "render_alter_type_change_down c = render_alter_type_change
     \<lparr>ct_table = ct_table c, ct_column = ct_column c, ct_previous_sql_type = ct_new_sql_type c, ct_new_sql_type = ct_previous_sql_type c\<rparr>"

definition retype_safe :: "column_retype \<Rightarrow> bool" where
  "retype_safe c = is_safe_cast (ct_previous_sql_type c) (ct_new_sql_type c)"

text \<open>One section: a title, then the rows by column name, a row that may not run commented out.\<close>

definition section_lines :: "bool \<Rightarrow> string \<Rightarrow> ('r \<Rightarrow> string) \<Rightarrow> ('r \<Rightarrow> bool) \<Rightarrow> ('r \<Rightarrow> string) \<Rightarrow> 'r list \<Rightarrow> string list" where
  "section_lines gap title column live render rows =
     (if rows = [] then []
      else (if gap then [[]] else []) @ [title] @
        map (\<lambda>row. if live row then render row else ''-- '' @ render row) (sort_key column rows))"

definition warning_lines :: "alter_diff \<Rightarrow> bool \<Rightarrow> string list" where
  "warning_lines d allow_drops =
     (let drops_commented = \<not> allow_drops \<and> ad_drops d \<noteq> [];
          unsafe_present = list_ex (\<lambda>c. \<not> retype_safe c) (ad_type_changes d)
      in if drops_commented \<or> unsafe_present then
           [[], ''-- WARNING:''] @
           (if drops_commented then
              [''--   DROP COLUMN statements are COMMENTED OUT. Re-run `lazuli generate go --allow-drops`'',
               ''--   to emit them as live SQL.''] else []) @
           (if unsafe_present then
              [''--   Some ALTER COLUMN TYPE casts are NOT in the safe catalog and are commented out.'',
               ''--   Review the cast manually, write a backfill if needed, then uncomment.''] else [])
         else [])"

definition render_alter_up :: "string \<Rightarrow> string \<Rightarrow> string \<Rightarrow> alter_diff \<Rightarrow> bool \<Rightarrow> string" where
  "render_alter_up feature resource source_label d allow_drops = concat (map writeln (
     [''-- Code generated by lazuli; DO NOT EDIT.'', ''-- source: '' @ comment_value source_label,
      ''-- alter for '' @ comment_value feature @ ''.'' @ comment_value resource] @
     warning_lines d allow_drops @ [[]] @
     section_lines False ''-- ADDS'' ca_column (\<lambda>_. True) render_alter_add (ad_adds d) @
     section_lines (ad_adds d \<noteq> []) ''-- DROPS'' cd_column (\<lambda>_. allow_drops) render_alter_drop (ad_drops d) @
     section_lines (ad_adds d \<noteq> [] \<or> ad_drops d \<noteq> []) ''-- TYPE CHANGES'' ct_column retype_safe render_alter_type_change (ad_type_changes d)))"

definition render_alter_down :: "string \<Rightarrow> string \<Rightarrow> string \<Rightarrow> alter_diff \<Rightarrow> bool \<Rightarrow> string" where
  "render_alter_down feature resource source_label d allow_drops = concat (map writeln (
     [''-- Code generated by lazuli; DO NOT EDIT.'', ''-- source: '' @ comment_value source_label,
      ''-- rollback for '' @ comment_value feature @ ''.'' @ comment_value resource @ '' alter'', []] @
     section_lines False ''-- TYPE CHANGES (inverse)'' ct_column retype_safe render_alter_type_change_down (ad_type_changes d) @
     section_lines (ad_type_changes d \<noteq> []) ''-- DROPS (inverse: re-add)'' cd_column (\<lambda>_. allow_drops) render_alter_drop_down (ad_drops d) @
     section_lines (ad_type_changes d \<noteq> [] \<or> ad_drops d \<noteq> []) ''-- ADDS (inverse: drop)'' ca_column (\<lambda>_. True) render_alter_add_down (ad_adds d)))"

definition emit_alter_migration_file ::
  "nat \<Rightarrow> string \<Rightarrow> string \<Rightarrow> string \<Rightarrow> alter_diff \<Rightarrow> bool \<Rightarrow> (generated_file \<times> generated_file) option" where
  "emit_alter_migration_file seq feature resource source_label d allow_drops =
     (if alter_diff_is_empty d then None
      else let stem = ''migrations/'' @ pad_left 3 CHR ''0'' (nat_to_string seq) @ ''_'' @ feature @ ''_'' @ lower_snake resource in
        Some (\<lparr>gf_path = stem @ ''_alter.sql'', gf_contents = render_alter_up feature resource source_label d allow_drops\<rparr>,
              \<lparr>gf_path = stem @ ''_alter.down.sql'', gf_contents = render_alter_down feature resource source_label d allow_drops\<rparr>))"

section \<open>Live statements\<close>

definition live_line :: "string \<Rightarrow> bool" where
  "live_line l \<longleftrightarrow> l \<noteq> [] \<and> \<not> starts_with l ''--''"

definition live_statements :: "string \<Rightarrow> string list" where
  "live_statements sql = filter live_line (str_lines sql)"

lemma comment_not_live [simp]: "\<not> live_line []" "\<not> live_line (CHR ''-'' # CHR ''-'' # s)"
  by (auto simp: live_line_def starts_with_iff)

text \<open>
  What the sections need of their rows: every row renders as one statement. Then a section contributes
  exactly its live rows, once each, in column order.
\<close>

locale alter_rows =
  fixes ok :: "'r \<Rightarrow> bool" and render :: "'r \<Rightarrow> string"
  assumes statement: "\<exists>x. render row = ''ALTER TABLE '' @ x"
    and one_line: "ok row \<Longrightarrow> clean (render row)"
begin

lemma section_clean:
  "list_all ok rows \<Longrightarrow> clean title \<Longrightarrow> l \<in> set (section_lines gap title column live render rows) \<Longrightarrow> clean l"
  using one_line by (auto simp: section_lines_def list_all_iff split: if_splits)

lemma section_live:
  "filter live_line (section_lines gap (''--'' @ title) column live render rows) = map render (sort_key column (filter live rows))"
proof -
  have row: "live_line (render row)" for row
    using statement[of row] by (auto simp: live_line_def starts_with_iff)
  have "filter live_line (map (\<lambda>row. if live row then render row else ''-- '' @ render row) xs) = map render (filter live xs)" for xs
    using row by (induction xs) auto
  then show ?thesis by (auto simp: section_lines_def filter_sort)
qed

end

definition default_ok :: "AlterDefault option \<Rightarrow> bool" where
  "default_ok d = (case d of Some (AString s) \<Rightarrow> clean s | Some (ARaw s) \<Rightarrow> clean s | _ \<Rightarrow> True)"

definition add_ok :: "column_add \<Rightarrow> bool" where
  "add_ok a \<longleftrightarrow> clean (ca_table a) \<and> clean (ca_column a) \<and> clean (ca_sql_type a) \<and> default_ok (ca_default a)"

definition drop_ok :: "column_drop \<Rightarrow> bool" where
  "drop_ok d \<longleftrightarrow> add_ok (recreated d)"

definition retype_ok :: "column_retype \<Rightarrow> bool" where
  "retype_ok c \<longleftrightarrow> clean (ct_table c) \<and> clean (ct_column c) \<and> clean (ct_previous_sql_type c) \<and> clean (ct_new_sql_type c)"

definition alter_ok :: "alter_diff \<Rightarrow> bool" where
  "alter_ok d \<longleftrightarrow> list_all add_ok (ad_adds d) \<and> list_all drop_ok (ad_drops d) \<and> list_all retype_ok (ad_type_changes d)"

lemma clean_nat_to_string [simp]: "clean (nat_to_string n)"
proof -
  have "\<not> is_ascii_digit CHR 0x0A" "\<not> is_ascii_digit CHR 0x0D" by code_simp+
  then show ?thesis using nat_to_string_digits[of n] by (auto simp: clean_def list_all_iff)
qed

lemma clean_default: "default_ok (Some d) \<Longrightarrow> clean (render_default_sql d)"
  by (cases d) (auto simp: default_ok_def int_to_string_def)

lemma clean_lower: "clean s \<Longrightarrow> clean (to_ascii_lowercase s)"
proof -
  have "to_ascii_lowercase_char c \<noteq> CHR 0x0A \<and> to_ascii_lowercase_char c \<noteq> CHR 0x0D" if "c \<noteq> CHR 0x0A" "c \<noteq> CHR 0x0D" for c
  proof (cases "is_ascii_uppercase c")
    case True
    then have "code (to_ascii_lowercase_char c) = (code c + 32) mod 256" "65 \<le> code c" "code c \<le> 90"
      by (auto simp: to_ascii_lowercase_char_def is_ascii_uppercase_def)
    then have "97 \<le> code (to_ascii_lowercase_char c)" by simp
    then show ?thesis by auto
  next
    case False
    with that show ?thesis by (simp add: to_ascii_lowercase_char_def)
  qed
  then show "clean s \<Longrightarrow> clean (to_ascii_lowercase s)"
    by (induction s) (auto simp: to_ascii_lowercase_def)
qed

lemma clean_add: "add_ok a \<Longrightarrow> clean (render_alter_add a)"
  by (auto simp: add_ok_def render_alter_add_def clean_default split: option.split)

interpretation up_add: alter_rows add_ok render_alter_add
  by unfold_locales (simp add: render_alter_add_def, rule clean_add)

interpretation up_drop: alter_rows drop_ok render_alter_drop
  by unfold_locales (auto simp: render_alter_drop_def drop_ok_def add_ok_def recreated_def)

interpretation up_retype: alter_rows retype_ok render_alter_type_change
  by unfold_locales (auto simp: render_alter_type_change_def retype_ok_def clean_lower)

interpretation down_add: alter_rows add_ok render_alter_add_down
  by unfold_locales (auto simp: render_alter_add_down_def add_ok_def)

interpretation down_drop: alter_rows drop_ok render_alter_drop_down
  by unfold_locales (simp add: render_alter_drop_down_def render_alter_add_def, simp add: render_alter_drop_down_def drop_ok_def clean_add)

interpretation down_retype: alter_rows retype_ok render_alter_type_change_down
  by unfold_locales (auto simp: render_alter_type_change_down_def render_alter_type_change_def retype_ok_def clean_lower)

lemma live_statements_lines:
  "\<forall>l \<in> set ls. clean l \<Longrightarrow> live_statements (concat (map writeln ls)) = filter live_line ls"
  using str_lines_writeln[of ls "[]"] by (simp add: live_statements_def str_lines_def)

lemma warning_comments: "l \<in> set (warning_lines d allow_drops) \<Longrightarrow> clean l \<and> \<not> live_line l"
  by (auto simp: warning_lines_def Let_def split: if_splits)

lemma filter_live_none: "\<forall>l \<in> set ls. \<not> live_line l \<Longrightarrow> filter live_line (ls @ ms) = filter live_line ms"
  by simp

lemma alter_up_live:
  assumes "alter_ok d"
  shows "live_statements (render_alter_up feature resource label d allow_drops) =
    map render_alter_add (sort_key ca_column (ad_adds d)) @
    map render_alter_drop (sort_key cd_column (if allow_drops then ad_drops d else [])) @
    map render_alter_type_change (sort_key ct_column (filter retype_safe (ad_type_changes d)))"
proof -
  note ok = assms[unfolded alter_ok_def]
  have "filter live_line (warning_lines d allow_drops) = []" using warning_comments by (auto simp: filter_empty_conv)
  moreover note up_add.section_live[of False "'' ADDS''" ca_column "\<lambda>_. True" "ad_adds d"]
    up_drop.section_live[of "ad_adds d \<noteq> []" "'' DROPS''" cd_column "\<lambda>_. allow_drops" "ad_drops d"]
    up_retype.section_live[of "ad_adds d \<noteq> [] \<or> ad_drops d \<noteq> []" "'' TYPE CHANGES''" ct_column retype_safe "ad_type_changes d"]
  ultimately show ?thesis
    unfolding render_alter_up_def
    by (subst live_statements_lines)
      (use ok warning_comments in \<open>auto dest: up_add.section_clean[rotated 2] up_drop.section_clean[rotated 2] up_retype.section_clean[rotated 2]\<close>)
qed

lemma alter_down_live:
  assumes "alter_ok d"
  shows "live_statements (render_alter_down feature resource label d allow_drops) =
    map render_alter_type_change_down (sort_key ct_column (filter retype_safe (ad_type_changes d))) @
    map render_alter_drop_down (sort_key cd_column (if allow_drops then ad_drops d else [])) @
    map render_alter_add_down (sort_key ca_column (ad_adds d))"
proof -
  note ok = assms[unfolded alter_ok_def]
  note live = down_retype.section_live[of False "'' TYPE CHANGES (inverse)''" ct_column retype_safe "ad_type_changes d"]
    down_drop.section_live[of "ad_type_changes d \<noteq> []" "'' DROPS (inverse: re-add)''" cd_column "\<lambda>_. allow_drops" "ad_drops d"]
    down_add.section_live[of "ad_type_changes d \<noteq> [] \<or> ad_drops d \<noteq> []" "'' ADDS (inverse: drop)''" ca_column "\<lambda>_. True" "ad_adds d"]
  then show ?thesis
    unfolding render_alter_down_def
    by (subst live_statements_lines)
      (use ok in \<open>auto dest: down_add.section_clean[rotated 2] down_drop.section_clean[rotated 2] down_retype.section_clean[rotated 2]\<close>)
qed

section \<open>What running the statements does\<close>

text \<open>
  The effect of an \<^verbatim>\<open>ALTER TABLE\<close> statement on the set of existing columns, read from its text by the
  SQL rules: \<^verbatim>\<open>ADD COLUMN IF NOT EXISTS\<close> and \<^verbatim>\<open>DROP COLUMN IF EXISTS\<close> never fail, other statements
  keep the columns.
\<close>

definition column_effect :: "string \<Rightarrow> (string \<times> string) set \<Rightarrow> (string \<times> string) set" where
  "column_effect stmt columns =
     (case Option.bind (strip_prefix ''ALTER TABLE '' stmt) read_identifier of
        None \<Rightarrow> columns
      | Some (table, rest) \<Rightarrow>
          (case Option.bind (strip_prefix '' ADD COLUMN IF NOT EXISTS '' rest) read_identifier of
             Some (column, _) \<Rightarrow> insert (table, column) columns
           | None \<Rightarrow>
               (case Option.bind (strip_prefix '' DROP COLUMN IF EXISTS '' rest) read_identifier of
                  Some (column, _) \<Rightarrow> columns - {(table, column)}
                | None \<Rightarrow> columns)))"

definition run_statements :: "string list \<Rightarrow> (string \<times> string) set \<Rightarrow> (string \<times> string) set" where
  "run_statements stmts columns = fold column_effect stmts columns"

lemma read_table: "read_identifier (quote_ident t @ CHR '' '' # rest) = Some (t, CHR '' '' # rest)"
  by (rule read_quote_ident) simp

lemma read_column_ident:
  "read_identifier (sql_ident n @ CHR '' '' # rest) = Some (n, CHR '' '' # rest)"
  "read_identifier (sql_ident n @ CHR '';'' # rest) = Some (n, CHR '';'' # rest)"
  by (rule read_sql_ident; simp add: ident_body_def char_class_defs)+

lemma effect_add: "column_effect (render_alter_add a) S = insert (ca_table a, ca_column a) S"
proof -
  obtain tail where "render_alter_add a = ''ALTER TABLE '' @ quote_ident (ca_table a) @ '' ADD COLUMN IF NOT EXISTS '' @
      sql_ident (ca_column a) @ CHR '' '' # tail" by (auto simp: render_alter_add_def)
  then show ?thesis
    using read_table[of "ca_table a"] read_column_ident(1)[of "ca_column a" tail] by (simp add: column_effect_def)
qed

lemma effect_drop_text:
  "column_effect (''ALTER TABLE '' @ quote_ident t @ '' DROP COLUMN IF EXISTS '' @ sql_ident n @ '';'') S = S - {(t, n)}"
  using read_table[of t] read_column_ident(2)[of n "[]"] by (simp add: column_effect_def)

lemma effect_retype: "column_effect (render_alter_type_change c) S = S"
  using read_table[of "ct_table c"] by (simp add: column_effect_def render_alter_type_change_def)

lemma run_statements_append: "run_statements (xs @ ys) S = run_statements ys (run_statements xs S)"
  by (simp add: run_statements_def)

lemma run_inserts: "(\<And>x S. column_effect (render x) S = insert (col x) S) \<Longrightarrow> run_statements (map render xs) S = S \<union> col ` set xs"
  by (induction xs arbitrary: S) (auto simp: run_statements_def)

lemma run_deletes: "(\<And>x S. column_effect (render x) S = S - {col x}) \<Longrightarrow> run_statements (map render xs) S = S - col ` set xs"
  by (induction xs arbitrary: S) (auto simp: run_statements_def)

lemma run_keeps: "(\<And>x S. column_effect (render x) S = S) \<Longrightarrow> run_statements (map render xs) S = S"
  by (induction xs arbitrary: S) (auto simp: run_statements_def)

lemma run_rows:
  "run_statements (map render_alter_add as) S = S \<union> (\<lambda>a. (ca_table a, ca_column a)) ` set as"
  "run_statements (map render_alter_add_down as) S = S - (\<lambda>a. (ca_table a, ca_column a)) ` set as"
  "run_statements (map render_alter_drop ds) S = S - (\<lambda>c. (cd_table c, cd_column c)) ` set ds"
  "run_statements (map render_alter_drop_down ds) S = S \<union> (\<lambda>c. (cd_table c, cd_column c)) ` set ds"
  "run_statements (map render_alter_type_change cs) S = S"
  "run_statements (map render_alter_type_change_down cs) S = S"
  by (rule run_inserts run_deletes run_keeps,
      (simp only: render_alter_add_down_def render_alter_drop_def render_alter_drop_down_def render_alter_type_change_down_def
        effect_add effect_drop_text effect_retype recreated_def column_add.simps)?)+

section \<open>Properties\<close>


definition sample_alter :: alter_diff where
  "sample_alter = \<lparr>ad_adds = [\<lparr>ca_table = ''host'', ca_column = ''score'', ca_sql_type = ''BIGINT'', ca_not_null = True, ca_default = None\<rparr>],
     ad_drops = [\<lparr>cd_table = ''host'', cd_column = ''note'', cd_previous_sql_type = ''TEXT'', cd_previous_not_null = False,
       cd_previous_default = None\<rparr>], ad_type_changes = []\<rparr>"


end
