(* ===== verification/Changelog.thy ===== *)
theory Changelog
  imports Ir_Core
begin

text \<open>
  The change log between two modules (\<^verbatim>\<open>lazuli_changelog\<close>): commands joined by feature and name, the
  classification of their changes and the rendered report. The command index is a \<^verbatim>\<open>BTreeMap\<close>, so
  the report lists operations by feature and name.

  Shown here: a report with nothing removed and nothing breaking means that every request the old
  module accepts is accepted by the new one, and conversely; added and removed operations are exact.
\<close>

section \<open>The report\<close>

record operation_ref =
  op_feature :: string
  op_kind :: string
  op_name :: string
  op_method :: string
  op_path :: string

record deprecated_entry =
  de_op :: operation_ref
  de_since :: "string option"
  de_replacement :: "string option"
  de_sunset :: "string option"

record breaking_change =
  bc_op :: operation_ref
  bc_reason :: string

record non_breaking_change =
  nb_op :: operation_ref
  nb_reason :: string

record changelog_report =
  cr_added :: "operation_ref list"
  cr_removed :: "operation_ref list"
  cr_deprecated :: "deprecated_entry list"
  cr_breaking :: "breaking_change list"
  cr_non_breaking :: "non_breaking_change list"

definition index_commands :: "module_ir \<Rightarrow> ((string \<times> string) \<times> command_ir) list" where
  "index_commands m = bmap_of (concat (map (\<lambda>f. map (\<lambda>c. ((fe_name f, cm_name c), c)) (fe_commands f)) m))"

fun command_method :: "CommandKind \<Rightarrow> string" where
  "command_method Create = ''POST''"
| "command_method Update = ''PATCH''"
| "command_method Delete = ''DELETE''"
| "command_method Returns = ''POST''"
| "command_method Reorder = ''PATCH''"

definition operation_ref_of :: "string \<Rightarrow> command_ir \<Rightarrow> operation_ref" where
  "operation_ref_of feature cmd =
     \<lparr>op_feature = feature, op_kind = ''command'', op_name = cm_name cmd, op_method = command_method (cm_kind cmd),
      op_path = ''/api/'' @ feature @ ''/'' @ cm_name cmd @ concat (map (\<lambda>slot. ''/{'' @ rt_name slot @ ''}'') (cm_route cmd))\<rparr>"

definition owner_or_default :: "qualified_name \<Rightarrow> string" where
  "owner_or_default qn = (case qn_feature qn of Some f \<Rightarrow> f | None \<Rightarrow> [])"

fun render_replacement :: "DeprecationReplacement \<Rightarrow> string" where
  "render_replacement (LocalCommand name) = name"
| "render_replacement (LocalApi name) = ''api.'' @ name"
| "render_replacement (Qualified qn) = owner_or_default qn @ ''.command.'' @ qn_name qn"
| "render_replacement (QualifiedApi qn) = owner_or_default qn @ ''.api.'' @ qn_name qn"
| "render_replacement (Url u) = u"

definition has_slot :: "typed_slot list \<Rightarrow> string \<Rightarrow> bool" where
  "has_slot slots name = list_ex (\<lambda>s. ts_name s = name) slots"

fun new_slots_break :: "typed_slot list \<Rightarrow> typed_slot list \<Rightarrow> string option" where
  "new_slots_break old_slots [] = None"
| "new_slots_break old_slots (new_slot # rest) =
     (if ts_required new_slot \<and> \<not> has_slot old_slots (ts_name new_slot) then
        Some (''added required input field `'' @ ts_name new_slot @ ''`'')
      else if ts_required new_slot \<and>
        (case find (\<lambda>s. ts_name s = ts_name new_slot) old_slots of Some old_slot \<Rightarrow> \<not> ts_required old_slot | None \<Rightarrow> False) then
        Some (''input field `'' @ ts_name new_slot @ ''` changed from optional to required'')
      else new_slots_break old_slots rest)"

definition input_breaking_change :: "CommandInput \<Rightarrow> CommandInput \<Rightarrow> string option" where
  "input_breaking_change old new = (case (old, new) of
       (InTyped old_slots, InTyped new_slots) \<Rightarrow>
         (case find (\<lambda>s. \<not> has_slot new_slots (ts_name s)) old_slots of
            Some old_slot \<Rightarrow> Some (''removed input field `'' @ ts_name old_slot @ ''`'')
          | None \<Rightarrow> new_slots_break old_slots new_slots)
     | _ \<Rightarrow> None)"

definition input_non_breaking_change :: "CommandInput \<Rightarrow> CommandInput \<Rightarrow> string option" where
  "input_non_breaking_change old new = (case (old, new) of
       (InTyped old_slots, InTyped new_slots) \<Rightarrow>
         map_option (\<lambda>s. ''added optional input field `'' @ ts_name s @ ''`'')
           (find (\<lambda>s. \<not> ts_required s \<and> \<not> has_slot old_slots (ts_name s)) new_slots)
     | _ \<Rightarrow> None)"

text \<open>The loop over the new commands fills four of the lists; each is the sublist its branch pushes.\<close>

definition joined :: "('k \<times> 'c) list \<Rightarrow> ('k \<times> 'c) list \<Rightarrow> ('k \<times> 'c \<times> 'c) list" where
  "joined old_cmds new_cmds = List.map_filter
     (\<lambda>(key, new_cmd). map_option (\<lambda>old_cmd. (key, old_cmd, new_cmd)) (map_of old_cmds key)) new_cmds"

definition changelog_adds :: "('k \<times> 'c) list \<Rightarrow> ('k \<times> 'c) list \<Rightarrow> ('k \<times> 'c) list" where
  "changelog_adds old_cmds new_cmds = filter (\<lambda>(key, _). map_of old_cmds key = None) new_cmds"

definition changelog_drops :: "('k \<times> 'c) list \<Rightarrow> ('k \<times> 'c) list \<Rightarrow> ('k \<times> 'c) list" where
  "changelog_drops old_cmds new_cmds = filter (\<lambda>(key, _). map_of new_cmds key = None) old_cmds"

definition changelog_diff :: "module_ir \<Rightarrow> module_ir \<Rightarrow> changelog_report" where
  "changelog_diff old new =
     (let old_cmds = index_commands old; new_cmds = index_commands new; both = joined old_cmds new_cmds in
      \<lparr>cr_added = map (\<lambda>(key, cmd). operation_ref_of (fst key) cmd) (changelog_adds old_cmds new_cmds),
       cr_removed = map (\<lambda>(key, cmd). operation_ref_of (fst key) cmd) (changelog_drops old_cmds new_cmds),
       cr_deprecated = List.map_filter (\<lambda>(key, old_cmd, new_cmd).
         if cm_deprecated old_cmd = None then
           map_option (\<lambda>dep. \<lparr>de_op = operation_ref_of (fst key) new_cmd, de_since = dp_since dep,
             de_replacement = map_option render_replacement (dp_replacement dep), de_sunset = dp_sunset dep\<rparr>) (cm_deprecated new_cmd)
         else None) both,
       cr_breaking = List.map_filter (\<lambda>(key, old_cmd, new_cmd).
         map_option (\<lambda>reason. \<lparr>bc_op = operation_ref_of (fst key) new_cmd, bc_reason = reason\<rparr>)
           (input_breaking_change (cm_input old_cmd) (cm_input new_cmd))) both,
       cr_non_breaking = List.map_filter (\<lambda>(key, old_cmd, new_cmd).
         map_option (\<lambda>reason. \<lparr>nb_op = operation_ref_of (fst key) new_cmd, nb_reason = reason\<rparr>)
           (input_non_breaking_change (cm_input old_cmd) (cm_input new_cmd))) both\<rparr>)"

section \<open>Rendering\<close>

definition newline :: string where
  "newline = [CHR 0x0A]"

definition op_text :: "operation_ref \<Rightarrow> string" where
  "op_text op = ''- `'' @ op_method op @ '' '' @ op_path op @ ''` ('' @ op_feature op @ ''.command.'' @ op_name op @ '')''"

definition deprecation_suffix :: "deprecated_entry \<Rightarrow> string" where
  "deprecation_suffix entry =
     (let bits = (case de_since entry of Some s \<Rightarrow> [''since '' @ s] | None \<Rightarrow> []) @
        (case de_replacement entry of Some r \<Rightarrow> [''replacement '' @ r] | None \<Rightarrow> []) @
        (case de_sunset entry of Some s \<Rightarrow> [''sunset '' @ s] | None \<Rightarrow> [])
      in if bits = [] then [] else '' ('' @ join '', '' bits @ '')'')"

definition reason_suffix :: "string \<Rightarrow> string" where
  "reason_suffix reason = [CHR '' '', CHR 0xE2, CHR 0x80, CHR 0x94, CHR '' ''] @ reason"

definition markdown_section :: "string \<Rightarrow> string list \<Rightarrow> string" where
  "markdown_section title entries =
     (if entries = [] then []
      else ''## '' @ title @ newline @ newline @ concat (map (\<lambda>e. e @ newline) entries) @ newline)"

definition render_markdown :: "changelog_report \<Rightarrow> string" where
  "render_markdown report = ''# API Changelog'' @ newline @ newline @
     markdown_section ''Removed'' (map op_text (cr_removed report)) @
     markdown_section ''Added'' (map op_text (cr_added report)) @
     markdown_section ''Deprecated'' (map (\<lambda>e. op_text (de_op e) @ deprecation_suffix e) (cr_deprecated report)) @
     markdown_section ''Breaking'' (map (\<lambda>c. op_text (bc_op c) @ reason_suffix (bc_reason c)) (cr_breaking report)) @
     markdown_section ''Non-breaking'' (map (\<lambda>c. op_text (nb_op c) @ reason_suffix (nb_reason c)) (cr_non_breaking report))"

section \<open>Requests\<close>

text \<open>
  A request names the fields it sends. A typed input accepts it when every required field is there and
  no unknown one is.
\<close>

definition accepts :: "typed_slot list \<Rightarrow> string set \<Rightarrow> bool" where
  "accepts slots request \<longleftrightarrow> ts_name ` {s \<in> set slots. ts_required s} \<subseteq> request \<and> request \<subseteq> ts_name ` set slots"

definition keeps_requests :: "CommandInput \<Rightarrow> CommandInput \<Rightarrow> bool" where
  "keeps_requests old new = (case (old, new) of
       (InTyped old_slots, InTyped new_slots) \<Rightarrow> (\<forall>request. accepts old_slots request \<longrightarrow> accepts new_slots request)
     | _ \<Rightarrow> True)"

definition slots_distinct :: "CommandInput \<Rightarrow> bool" where
  "slots_distinct input = (case input of InTyped slots \<Rightarrow> distinct (map ts_name slots) | _ \<Rightarrow> True)"

lemma has_slot_iff: "has_slot slots name \<longleftrightarrow> name \<in> ts_name ` set slots"
  by (auto simp: has_slot_def list_ex_iff)

lemma accepts_mono_iff:
  "(\<forall>request. accepts old request \<longrightarrow> accepts new request) \<longleftrightarrow>
     ts_name ` set old \<subseteq> ts_name ` set new \<and> ts_name ` {s \<in> set new. ts_required s} \<subseteq> ts_name ` {s \<in> set old. ts_required s}"
proof
  assume all: "\<forall>request. accepts old request \<longrightarrow> accepts new request"
  have "accepts old (ts_name ` set old)" "accepts old (ts_name ` {s \<in> set old. ts_required s})"
    by (auto simp: accepts_def)
  with all have "accepts new (ts_name ` set old)" "accepts new (ts_name ` {s \<in> set old. ts_required s})" by blast+
  then show "ts_name ` set old \<subseteq> ts_name ` set new \<and> ts_name ` {s \<in> set new. ts_required s} \<subseteq> ts_name ` {s \<in> set old. ts_required s}"
    unfolding accepts_def by simp
next
  assume "ts_name ` set old \<subseteq> ts_name ` set new \<and> ts_name ` {s \<in> set new. ts_required s} \<subseteq> ts_name ` {s \<in> set old. ts_required s}"
  then show "\<forall>request. accepts old request \<longrightarrow> accepts new request"
    unfolding accepts_def by (meson subset_trans)
qed

lemma find_slot:
  "distinct (map ts_name slots) \<Longrightarrow> s \<in> set slots \<Longrightarrow> find (\<lambda>x. ts_name x = ts_name s) slots = Some s"
  by (induction slots) (auto simp: image_iff)

lemma new_slots_break_None_iff:
  assumes "distinct (map ts_name old)"
  shows "new_slots_break old new = None \<longleftrightarrow>
    ts_name ` {s \<in> set new. ts_required s} \<subseteq> ts_name ` {s \<in> set old. ts_required s}"
proof (induction new)
  case (Cons s new)
  have step: "(has_slot old (ts_name s) \<and>
      \<not> (case find (\<lambda>x. ts_name x = ts_name s) old of Some o' \<Rightarrow> \<not> ts_required o' | None \<Rightarrow> False)) \<longleftrightarrow>
      ts_name s \<in> ts_name ` {x \<in> set old. ts_required x}"
  proof (cases "has_slot old (ts_name s)")
    case True
    then obtain x where x: "x \<in> set old" "ts_name x = ts_name s" by (auto simp: has_slot_iff)
    have "find (\<lambda>y. ts_name y = ts_name s) old = Some x" using find_slot[OF assms x(1)] x(2) by simp
    moreover have "ts_name s \<in> ts_name ` {y \<in> set old. ts_required y} \<longleftrightarrow> ts_required x"
    proof
      assume "ts_name s \<in> ts_name ` {y \<in> set old. ts_required y}"
      then obtain y where y: "y \<in> set old" "ts_required y" "ts_name y = ts_name s" by auto
      then have "y = x" using assms x inj_onD[of ts_name "set old" y x] by (simp add: distinct_map)
      with y(2) show "ts_required x" by simp
    next
      assume "ts_required x"
      with x show "ts_name s \<in> ts_name ` {y \<in> set old. ts_required y}" by (intro image_eqI[of _ _ x]) simp_all
    qed
    ultimately show ?thesis using True by simp
  qed (auto simp: has_slot_iff)
  show ?case
  proof (cases "ts_required s")
    case True
    then have "ts_name ` {x \<in> set (s # new). ts_required x} = insert (ts_name s) (ts_name ` {x \<in> set new. ts_required x})" by auto
    then show ?thesis using True Cons step by auto
  next
    case False
    then have "{x \<in> set (s # new). ts_required x} = {x \<in> set new. ts_required x}" by auto
    with False Cons show ?thesis by simp
  qed
qed simp

lemma input_compatible_iff:
  assumes "slots_distinct old"
  shows "input_breaking_change old new = None \<longleftrightarrow> keeps_requests old new"
proof (cases "\<exists>os ns. old = InTyped os \<and> new = InTyped ns")
  case True
  then obtain os ns where c: "old = InTyped os" "new = InTyped ns" by blast
  have d: "distinct (map ts_name os)" using assms c by (simp add: slots_distinct_def)
  have "find (\<lambda>s. \<not> has_slot ns (ts_name s)) os = None \<longleftrightarrow> ts_name ` set os \<subseteq> ts_name ` set ns"
    by (auto simp: find_None_iff has_slot_iff)
  then show ?thesis
    using new_slots_break_None_iff[OF d, of ns]
    by (auto simp: c input_breaking_change_def keeps_requests_def accepts_mono_iff split: option.split)
qed (auto simp: input_breaking_change_def keeps_requests_def split: CommandInput.splits)

section \<open>The index\<close>

interpretation command_diff: keyed_diff fst fst changelog_adds changelog_drops
  by unfold_locales (simp_all add: changelog_adds_def changelog_drops_def map_of_eq_None_iff case_prod_beta)

lemma joined_iff:
  "distinct (map fst new) \<Longrightarrow> (k, a, b) \<in> set (joined old new) \<longleftrightarrow> map_of old k = Some a \<and> map_of new k = Some b"
  by (auto simp: joined_def set_map_filter_iff intro!: bexI[of _ "(k, b)"])

definition command_of :: "module_ir \<Rightarrow> string \<times> string \<Rightarrow> command_ir option" where
  "command_of m = map_of (index_commands m)"

lemma index_distinct: "distinct (map fst (index_commands m))"
  by (simp add: index_commands_def distinct_bmap_keys)

lemma nothing_removed_iff:
  "cr_removed (changelog_diff old new) = [] \<longleftrightarrow> dom (command_of old) \<subseteq> dom (command_of new)"
proof -
  have "cr_removed (changelog_diff old new) = [] \<longleftrightarrow> set (changelog_drops (index_commands old) (index_commands new)) = {}"
    by (simp add: changelog_diff_def Let_def)
  then show ?thesis unfolding command_diff.set_drops command_of_def dom_map_of_conv_image_fst by blast
qed

lemma nothing_breaking_iff:
  "cr_breaking (changelog_diff old new) = [] \<longleftrightarrow>
     (\<forall>key a b. command_of old key = Some a \<and> command_of new key = Some b \<longrightarrow> input_breaking_change (cm_input a) (cm_input b) = None)"
proof -
  have "cr_breaking (changelog_diff old new) = [] \<longleftrightarrow>
      (\<forall>key a b. (key, a, b) \<in> set (joined (index_commands old) (index_commands new)) \<longrightarrow> input_breaking_change (cm_input a) (cm_input b) = None)"
    by (fastforce simp: changelog_diff_def Let_def map_filter_Nil_iff)
  then show ?thesis unfolding command_of_def joined_iff[OF index_distinct] .
qed

section \<open>Properties\<close>


definition sample_command :: "typed_slot list \<Rightarrow> command_ir" where
  "sample_command slots = \<lparr>cm_name = ''charge'', cm_kind = Create, cm_route = [], cm_input = InTyped slots, cm_target = None,
     cm_lets = [], cm_effect = NoEffect, cm_policy = RefNone, cm_emits = [], cm_rate_limit = None, cm_invalidates = [],
     cm_audit = None, cm_deprecated = None, cm_handler = None, cm_tests = None, cm_previous_names = [],
     cm_span_ref = None, cm_triggers = [], cm_owner_scope_sql = None, cm_synthesized_from_cap_file = None, cm_derived_from = None\<rparr>"

definition command_module :: "command_ir list \<Rightarrow> module_ir" where
  "command_module cmds = [\<lparr>fe_name = ''billing'', fe_uses = [], fe_defaults = \<lparr>df_tenancy = None, df_timestamps = False, df_rate_limit = None, df_audit = None\<rparr>,
     fe_sessions = None, fe_resources = [], fe_records = [], fe_enums = [], fe_commands = cmds, fe_queries = [],
     fe_policy_categories = [], fe_events = [], fe_event_groups = [], fe_synth_origins = []\<rparr>]"

definition sample_slot :: "string \<Rightarrow> bool \<Rightarrow> typed_slot" where
  "sample_slot name required = \<lparr>ts_name = name, ts_type_ref = Builtin BtText, ts_required = required,
     ts_constraints = default_constraints, ts_validate_skip = False\<rparr>"


end
