(* ===== verification/Edit_Distance.thy ===== *)
theory Edit_Distance
  imports Ir_Core
begin

text \<open>
  Edit distance and the nearest-name suggestions: \<^verbatim>\<open>levenshtein\<close> (a full table) and
  \<^verbatim>\<open>conventions_levenshtein\<close> (two rolling rows) of \<^verbatim>\<open>crates/lazuli_analyzer/src/helpers.rs\<close>, with
  their callers \<^verbatim>\<open>conventions_unknown_suggestion\<close> (\<^verbatim>\<open>errors.rs\<close>) and \<^verbatim>\<open>nearest_field_name\<close>
  (\<^verbatim>\<open>conventions/owner_scope.rs\<close>). The table code is written over lists of any type and applied to
  the characters of the two strings; the loops \<^verbatim>\<open>for i in 1..=n\<close> are folds over \<open>[1..<n + 1]\<close> and every
  assignment to a cell is a list update.

  Specification: \<open>edit1\<close> inserts, deletes or replaces one character; the distance is the least number
  of such steps from one text to the other. Shown here: both tables compute it, so they agree;
  distance is a metric; a suggestion is a catalog entry exactly one edit away or equal; the nearest
  field is the first of the closest ones, within the threshold.
\<close>

section \<open>The two tables\<close>

text \<open>One cell of \<^verbatim>\<open>levenshtein\<close>, the table before the loops, and the loops.\<close>

definition lev_cell :: "'a list \<Rightarrow> 'a list \<Rightarrow> nat \<Rightarrow> nat \<Rightarrow> nat list list \<Rightarrow> nat list list" where
  "lev_cell a b i j dp =
     (let cost = (if a ! (i - 1) = b ! (j - 1) then 0 else 1) in
      dp[i := (dp ! i)[j := min (min (dp ! (i - 1) ! j + 1) (dp ! i ! (j - 1) + 1)) (dp ! (i - 1) ! (j - 1) + cost)]])"

definition lev_init :: "nat \<Rightarrow> nat \<Rightarrow> nat list list" where
  "lev_init n m =
     (let dp = replicate (n + 1) (replicate (m + 1) 0);
          dp = map (\<lambda>(i, row). row[0 := i]) (enumerate 0 dp) in
      dp[0 := map fst (enumerate 0 (dp ! 0))])"

definition lev_table :: "'a list \<Rightarrow> 'a list \<Rightarrow> nat" where
  "lev_table a b =
     (let dp = fold (\<lambda>i. fold (lev_cell a b i) [1..<length b + 1]) [1..<length a + 1] (lev_init (length a) (length b))
      in dp ! length a ! length b)"

text \<open>One cell of \<^verbatim>\<open>conventions_levenshtein\<close>; a row ends with \<^verbatim>\<open>std::mem::swap\<close>.\<close>

definition conv_cell :: "'a list \<Rightarrow> 'a list \<Rightarrow> nat \<Rightarrow> nat list \<Rightarrow> nat \<Rightarrow> nat list \<Rightarrow> nat list" where
  "conv_cell a b i prev j cur =
     (let cost = (if a ! (i - 1) = b ! (j - 1) then 0 else 1) in
      cur[j := min (min (cur ! (j - 1) + 1) (prev ! j + 1)) (prev ! (j - 1) + cost)])"

definition conv_row :: "'a list \<Rightarrow> 'a list \<Rightarrow> nat \<Rightarrow> nat list \<times> nat list \<Rightarrow> nat list \<times> nat list" where
  "conv_row a b i = (\<lambda>(prev, cur). (fold (conv_cell a b i prev) [1..<length b + 1] (cur[0 := i]), prev))"

definition conv_table :: "'a list \<Rightarrow> 'a list \<Rightarrow> nat" where
  "conv_table a b =
     (let n = length a; m = length b in
      if n = 0 then m else if m = 0 then n
      else fst (fold (conv_row a b) [1..<n + 1] ([0..<m + 1], replicate (m + 1) 0)) ! m)"

section \<open>Suggestions\<close>

definition levenshtein :: "string \<Rightarrow> string \<Rightarrow> nat" where
  "levenshtein a b = lev_table (utf8_chars a) (utf8_chars b)"

definition conventions_levenshtein :: "string \<Rightarrow> string \<Rightarrow> nat" where
  "conventions_levenshtein a b = conv_table (utf8_chars a) (utf8_chars b)"

definition CONVENTION_CATALOG :: "string list" where
  "CONVENTION_CATALOG = [''crud'', ''me'']"

definition suggestion_step :: "string \<Rightarrow> string \<Rightarrow> (string \<times> nat) option \<Rightarrow> (string \<times> nat) option" where
  "suggestion_step identifier candidate best =
     (let d = conventions_levenshtein identifier candidate in
      if d > 1 then best
      else case best of
          None \<Rightarrow> Some (candidate, d)
        | Some (_, prev_d) \<Rightarrow> if d < prev_d then Some (candidate, d) else best)"

definition conventions_unknown_suggestion :: "string \<Rightarrow> string option" where
  "conventions_unknown_suggestion identifier =
     map_option fst (fold (suggestion_step identifier) CONVENTION_CATALOG None)"

definition nearest_step :: "string \<Rightarrow> string \<Rightarrow> (nat \<times> string) option \<Rightarrow> (nat \<times> string) option" where
  "nearest_step target name best =
     (let d = levenshtein target name in
      case best of
          Some (b, _) \<Rightarrow> if d \<ge> b then best else Some (d, name)
        | None \<Rightarrow> Some (d, name))"

definition nearest_field_name :: "string \<Rightarrow> field_ir list \<Rightarrow> string option" where
  "nearest_field_name target fields' =
     (case fold (nearest_step target) (map fi_name fields') None of
        None \<Rightarrow> None
      | Some (d, name) \<Rightarrow> if d \<le> max (length target) 1 div 2 + 1 then Some name else None)"

section \<open>The least number of edits\<close>

fun edit_dist :: "'a list \<Rightarrow> 'a list \<Rightarrow> nat" where
  "edit_dist [] ys = length ys"
| "edit_dist xs [] = length xs"
| "edit_dist (x # xs) (y # ys) =
     min (min (Suc (edit_dist xs (y # ys))) (Suc (edit_dist (x # xs) ys)))
       (edit_dist xs ys + (if x = y then 0 else 1))"

inductive edit1 :: "'a list \<Rightarrow> 'a list \<Rightarrow> bool" where
  edit_insert: "edit1 (p @ s) (p @ c # s)"
| edit_delete: "edit1 (p @ c # s) (p @ s)"
| edit_replace: "edit1 (p @ c # s) (p @ d # s)"

lemma edit_dist_Nil2 [simp]: "edit_dist xs [] = length xs"
  by (cases xs) simp_all

lemma edit_dist_refl [simp]: "edit_dist xs xs = 0"
  by (induction xs) simp_all

lemma edit_dist_cons_left: "edit_dist (c # xs) ys \<le> Suc (edit_dist xs ys)"
  by (cases ys) simp_all

lemma edit_dist_cons_right: "edit_dist xs (c # ys) \<le> Suc (edit_dist xs ys)"
  by (cases xs) simp_all

lemma edit_dist_uncons_left: "edit_dist xs ys \<le> Suc (edit_dist (c # xs) ys)"
proof (induction ys)
  case (Cons y ys)
  then show ?case using edit_dist_cons_right[of xs y ys] by simp
qed simp

lemma edit_dist_recons_left: "edit_dist (c # xs) ys \<le> Suc (edit_dist (d # xs) ys)"
  by (induction ys) auto

text \<open>Editing anywhere, and not just at the front, moves the distance by at most one.\<close>

lemma edit_dist_prefix:
  assumes "\<And>ys. edit_dist xs ys \<le> Suc (edit_dist xs' ys)"
  shows "edit_dist (p @ xs) ys \<le> Suc (edit_dist (p @ xs') ys)"
proof (induction p arbitrary: ys)
  case Nil
  show ?case using assms by simp
next
  case (Cons a p)
  show ?case
  proof (induction ys)
    case Nil
    show ?case using Cons[of "[]"] by simp
  next
    case (Cons y ys)
    then show ?case using Cons.IH \<open>\<And>ys. edit_dist (p @ xs) ys \<le> Suc (edit_dist (p @ xs') ys)\<close>[of ys]
        \<open>\<And>ys. edit_dist (p @ xs) ys \<le> Suc (edit_dist (p @ xs') ys)\<close>[of "y # ys"]
      by simp
  qed
qed

lemma edit_dist_edit1: "edit1 xs xs' \<Longrightarrow> edit_dist xs ys \<le> Suc (edit_dist xs' ys)"
  by (induction rule: edit1.induct)
    (auto intro!: edit_dist_prefix edit_dist_uncons_left edit_dist_cons_left edit_dist_recons_left)

lemma edit_dist_least: "(edit1 ^^ n) xs ys \<Longrightarrow> edit_dist xs ys \<le> n"
proof (induction n arbitrary: xs)
  case (Suc n)
  then obtain xs' where "edit1 xs xs'" "(edit1 ^^ n) xs' ys" by (blast elim: relpowp_Suc_E2)
  with Suc.IH[of xs'] edit_dist_edit1[of xs xs' ys] show ?case by linarith
qed simp

lemma edit1_Cons: "edit1 xs ys \<Longrightarrow> edit1 (a # xs) (a # ys)"
  by (induction rule: edit1.induct) (metis append_Cons edit1.intros)+

lemma edits_Cons: "(edit1 ^^ n) xs ys \<Longrightarrow> (edit1 ^^ n) (a # xs) (a # ys)"
  by (induction n arbitrary: ys) (auto intro: edit1_Cons)

lemma edit_front [intro]: "edit1 s (c # s)" "edit1 (c # s) s" "edit1 (c # s) (d # s)"
  using edit1.intros[of "[]"] by simp_all

lemma edits_delete_all: "(edit1 ^^ length xs) xs []"
  by (induction xs) (auto intro: relpowp_Suc_I2 simp del: relpowp.simps(2))

lemma edits_insert_all: "(edit1 ^^ length ys) [] ys"
  by (induction ys) (auto intro: relpowp_Suc_I edits_Cons)

lemma edits_attained: "(edit1 ^^ edit_dist xs ys) xs ys"
proof (induction xs ys rule: edit_dist.induct)
  case (3 x xs y ys)
  have del: "(edit1 ^^ Suc (edit_dist xs (y # ys))) (x # xs) (y # ys)"
    using 3(1) by (auto intro: relpowp_Suc_I2 simp del: relpowp.simps(2))
  have ins: "(edit1 ^^ Suc (edit_dist (x # xs) ys)) (x # xs) (y # ys)"
    using 3(2) by (auto intro: relpowp_Suc_I)
  have sub: "(edit1 ^^ (edit_dist xs ys + (if x = y then 0 else 1))) (x # xs) (y # ys)"
    using edits_Cons[OF 3(3), of y] by (auto intro: relpowp_Suc_I2 simp del: relpowp.simps(2))
  show ?case using del ins sub by (simp add: min_def del: relpowp.simps)
qed (simp_all only: edit_dist.simps edits_delete_all edits_insert_all)

lemma edit_dist_Least: "edit_dist xs ys = (LEAST n. (edit1 ^^ n) xs ys)"
  by (rule Least_equality[symmetric]) (auto intro: edits_attained edit_dist_least)


lemma edit1_rev: "edit1 xs ys \<Longrightarrow> edit1 (rev xs) (rev ys)"
proof (induction rule: edit1.induct)
  case (edit_insert p s c)
  then show ?case using edit1.edit_insert[of "rev s" "rev p" c] by simp
next
  case (edit_delete p c s)
  then show ?case using edit1.edit_delete[of "rev s" c "rev p"] by simp
next
  case (edit_replace p c s d)
  then show ?case using edit1.edit_replace[of "rev s" c "rev p" d] by simp
qed

lemma edits_rev: "(edit1 ^^ n) xs ys \<Longrightarrow> (edit1 ^^ n) (rev xs) (rev ys)"
  by (induction n arbitrary: ys) (auto intro: edit1_rev)

lemma edit_dist_rev: "edit_dist (rev xs) (rev ys) = edit_dist xs ys"
proof (rule antisym)
  show "edit_dist (rev xs) (rev ys) \<le> edit_dist xs ys"
    by (intro edit_dist_least edits_rev edits_attained)
  show "edit_dist xs ys \<le> edit_dist (rev xs) (rev ys)"
    using edit_dist_least[OF edits_rev[OF edits_attained[of "rev xs" "rev ys"]]] by simp
qed

text \<open>The distance is a metric.\<close>

lemma edit1_sym: "edit1 xs ys \<Longrightarrow> edit1 ys xs"
  by (induction rule: edit1.induct) (auto intro: edit1.intros)

lemma edits_sym: "(edit1 ^^ n) xs ys \<Longrightarrow> (edit1 ^^ n) ys xs"
proof (induction n arbitrary: ys)
  case (Suc n)
  then obtain zs where "(edit1 ^^ n) xs zs" "edit1 zs ys" by (blast elim: relpowp_Suc_E)
  with Suc.IH[of zs] edit1_sym[of zs ys] show ?case by (blast intro: relpowp_Suc_I2)
qed simp

lemma edit_dist_sym: "edit_dist xs ys = edit_dist ys xs"
  by (rule antisym) (rule edit_dist_least, rule edits_sym, rule edits_attained)+

lemma edit_dist_triangle: "edit_dist xs zs \<le> edit_dist xs ys + edit_dist ys zs"
  using edits_attained[of xs ys] edits_attained[of ys zs]
  by (intro edit_dist_least) (auto simp: relpowp_add)

section \<open>The tables hold distances of prefixes\<close>

text \<open>The entry both tables hold at row \<open>i\<close> and column \<open>j\<close>: the distance of the prefixes.\<close>

definition dist :: "'a list \<Rightarrow> 'a list \<Rightarrow> nat \<Rightarrow> nat \<Rightarrow> nat" where
  "dist a b i j = edit_dist (take i a) (take j b)"

lemma dist_border [simp]: "j \<le> length b \<Longrightarrow> dist a b 0 j = j" "i \<le> length a \<Longrightarrow> dist a b i 0 = i"
  by (simp_all add: dist_def)

lemma dist_Suc:
  assumes "i < length a" "j < length b"
  shows "dist a b (Suc i) (Suc j) =
    min (min (dist a b i (Suc j) + 1) (dist a b (Suc i) j + 1)) (dist a b i j + (if a ! i = b ! j then 0 else 1))"
proof -
  have rev_dist: "dist a b i j = edit_dist (rev (take i a)) (rev (take j b))" for i j
    by (simp add: dist_def edit_dist_rev)
  show ?thesis
    unfolding rev_dist using assms by (simp add: take_Suc_conv_app_nth)
qed

definition row_ok :: "'a list \<Rightarrow> 'a list \<Rightarrow> nat \<Rightarrow> nat list \<Rightarrow> bool" where
  "row_ok a b i row \<longleftrightarrow> row = map (dist a b i) [0..<length b + 1]"

lemma row_ok_iff: "row_ok a b i row \<longleftrightarrow> length row = length b + 1 \<and> (\<forall>j \<le> length b. row ! j = dist a b i j)"
  unfolding row_ok_def by (auto simp: list_eq_iff_nth_eq simp del: upt_Suc)

lemma conv_cells:
  assumes "row_ok a b i prev" "i < length a" "length cur = length b + 1" "cur ! 0 = Suc i" "k \<le> length b"
  shows "let row = fold (conv_cell a b (Suc i) prev) [1..<k + 1] cur in
    length row = length b + 1 \<and> (\<forall>j \<le> k. row ! j = dist a b (Suc i) j)"
  using \<open>k \<le> length b\<close>
proof (induction k)
  case 0
  then show ?case using assms by simp
next
  case (Suc k)
  define row where "row = fold (conv_cell a b (Suc i) prev) [1..<k + 1] cur"
  have row: "length row = length b + 1" "\<And>j. j \<le> k \<Longrightarrow> row ! j = dist a b (Suc i) j"
    using Suc unfolding row_def by (simp_all add: Let_def)
  have prev: "prev ! k = dist a b i k" "prev ! Suc k = dist a b i (Suc k)"
    using assms(1) Suc.prems by (auto simp: row_ok_iff)
  have next_row: "fold (conv_cell a b (Suc i) prev) [1..<Suc k + 1] cur = row[Suc k := dist a b (Suc i) (Suc k)]"
  proof -
    have "fold (conv_cell a b (Suc i) prev) [1..<Suc k + 1] cur = conv_cell a b (Suc i) prev (Suc k) row"
      by (simp add: row_def)
    also have "\<dots> = row[Suc k := dist a b (Suc i) (Suc k)]"
      unfolding conv_cell_def Let_def dist_Suc[OF assms(2) Suc_le_lessD[OF Suc.prems]]
      using row(2)[of k] prev by (simp add: min.commute[of "dist a b (Suc i) k"])
    finally show ?thesis .
  qed
  show ?case
    unfolding next_row Let_def using row Suc.prems by (auto simp: nth_list_update le_Suc_eq)
qed

lemma conv_row_ok:
  assumes "row_ok a b i prev" "i < length a" "length cur = length b + 1"
  shows "row_ok a b (Suc i) (fst (conv_row a b (Suc i) (prev, cur)))"
  using conv_cells[OF assms(1,2), of "cur[0 := Suc i]" "length b"] assms(3)
  by (simp add: conv_row_def row_ok_iff Let_def)


lemma conv_rows:
  assumes "k \<le> length a"
  shows "let (prev, cur) = fold (conv_row a b) [1..<k + 1] ([0..<length b + 1], replicate (length b + 1) 0) in
    row_ok a b k prev \<and> length cur = length b + 1"
  using assms
proof (induction k)
  case 0
  show ?case by (simp add: row_ok_def del: upt_Suc) (simp add: list_eq_iff_nth_eq del: upt_Suc)
next
  case (Suc k)
  obtain prev cur where st: "fold (conv_row a b) [1..<k + 1] ([0..<length b + 1], replicate (length b + 1) 0) = (prev, cur)"
    by fastforce
  with Suc have ok: "row_ok a b k prev" "length cur = length b + 1" by simp_all
  have step: "fold (conv_row a b) [1..<Suc k + 1] ([0..<length b + 1], replicate (length b + 1) 0) =
      conv_row a b (Suc k) (prev, cur)"
    using st by simp
  have "snd (conv_row a b (Suc k) (prev, cur)) = prev" by (simp add: conv_row_def)
  moreover have "row_ok a b (Suc k) (fst (conv_row a b (Suc k) (prev, cur)))"
    using conv_row_ok[OF ok(1) _ ok(2)] Suc.prems by simp
  ultimately show ?case unfolding step
    using ok(1) by (cases "conv_row a b (Suc k) (prev, cur)") (simp add: row_ok_iff)
qed

lemma conv_table_edit_dist: "conv_table a b = edit_dist a b"
proof (cases "a = [] \<or> b = []")
  case True
  then show ?thesis by (auto simp: conv_table_def Let_def)
next
  case False
  then show ?thesis using conv_rows[of "length a" a b]
    by (auto simp: conv_table_def Let_def row_ok_iff dist_def case_prod_unfold simp del: upt_Suc)
qed

text \<open>The full table is filled row by row; its rows are the rows of the rolling version.\<close>

lemma lev_cell_row:
  assumes "0 < i" "i < length dp"
  shows "lev_cell a b i j dp = dp[i := conv_cell a b i (dp ! (i - 1)) j (dp ! i)]"
  using assms by (simp add: lev_cell_def conv_cell_def Let_def min.commute)

lemma lev_cells_row:
  assumes "0 < i" "i < length dp"
  shows "fold (lev_cell a b i) js dp = dp[i := fold (conv_cell a b i (dp ! (i - 1))) js (dp ! i)]"
  using assms by (induction js arbitrary: dp) (simp_all add: lev_cell_row)

lemma nth_lev_init:
  assumes "i \<le> n"
  shows "length (lev_init n m) = n + 1" "length (lev_init n m ! i) = m + 1" "lev_init n m ! i ! 0 = i"
    "lev_init n m ! 0 = [0..<m + 1]"
proof -
  have rows: "map fst (enumerate 0 ((replicate (m + 1) (0::nat))[0 := 0])) = [0..<m + 1]"
    by (simp add: enumerate_eq_zip del: replicate_Suc upt_Suc)
  show "length (lev_init n m) = n + 1" "length (lev_init n m ! i) = m + 1" "lev_init n m ! i ! 0 = i"
    "lev_init n m ! 0 = [0..<m + 1]"
    using assms unfolding lev_init_def Let_def
    by (auto simp: nth_list_update nth_enumerate_eq simp del: replicate_Suc upt_Suc)
qed

lemma lev_rows:
  assumes "k \<le> length a"
  shows "let dp = fold (\<lambda>i. fold (lev_cell a b i) [1..<length b + 1]) [1..<k + 1] (lev_init (length a) (length b)) in
    length dp = length a + 1 \<and> row_ok a b k (dp ! k) \<and>
    (\<forall>i. k < i \<longrightarrow> i \<le> length a \<longrightarrow> dp ! i = lev_init (length a) (length b) ! i)"
  using assms
proof (induction k)
  case 0
  show ?case using nth_lev_init[of 0 "length a" "length b"]
    by (simp add: row_ok_def del: upt_Suc) (simp add: list_eq_iff_nth_eq del: upt_Suc)
next
  case (Suc k)
  define dp where "dp = fold (\<lambda>i. fold (lev_cell a b i) [1..<length b + 1]) [1..<k + 1] (lev_init (length a) (length b))"
  have dp: "length dp = length a + 1" "row_ok a b k (dp ! k)" "dp ! Suc k = lev_init (length a) (length b) ! Suc k"
    "\<And>i. k < i \<Longrightarrow> i \<le> length a \<Longrightarrow> dp ! i = lev_init (length a) (length b) ! i"
    using Suc unfolding dp_def by (simp_all add: Let_def del: upt_Suc)
  have fresh: "length (dp ! Suc k) = length b + 1" "dp ! Suc k ! 0 = Suc k"
    using nth_lev_init[of "Suc k" "length a" "length b"] dp(3) Suc.prems by simp_all
  have row: "row_ok a b (Suc k) (fold (conv_cell a b (Suc k) (dp ! k)) [1..<length b + 1] (dp ! Suc k))"
    using conv_cells[OF dp(2) _ fresh, of "length b"] Suc.prems by (simp add: row_ok_iff Let_def)
  have step: "fold (\<lambda>i. fold (lev_cell a b i) [1..<length b + 1]) [1..<Suc k + 1] (lev_init (length a) (length b)) =
      dp[Suc k := fold (conv_cell a b (Suc k) (dp ! k)) [1..<length b + 1] (dp ! Suc k)]"
    using lev_cells_row[of "Suc k" dp a b "[1..<length b + 1]"] dp(1) Suc.prems
    by (simp add: dp_def[symmetric] del: upt_Suc) (simp add: dp_def)
  show ?case unfolding step Let_def using dp row Suc.prems by (simp add: nth_list_update del: upt_Suc)
qed

lemma lev_table_edit_dist: "lev_table a b = edit_dist a b"
  using lev_rows[of "length a" a b]
  by (simp add: lev_table_def Let_def row_ok_iff dist_def del: upt_Suc)


section \<open>Properties\<close>

lemma levenshtein_edit_dist: "levenshtein a b = edit_dist (utf8_chars a) (utf8_chars b)"
  "conventions_levenshtein a b = edit_dist (utf8_chars a) (utf8_chars b)"
  by (simp_all add: levenshtein_def conventions_levenshtein_def lev_table_edit_dist conv_table_edit_dist)

text \<open>C4. Both edit-distance routines return the least number of single-character insertions,
  deletions and replacements that turn one string into the other: that many edits suffice, no fewer
  do, and the rolling-row version agrees with the full table on every input.\<close>

theorem levenshtein_is_edit_distance:
  "levenshtein a b = (LEAST n. (edit1 ^^ n) (utf8_chars a) (utf8_chars b)) \<and>
   (edit1 ^^ levenshtein a b) (utf8_chars a) (utf8_chars b) \<and>
   conventions_levenshtein a b = levenshtein a b"
  unfolding levenshtein_edit_dist using edit_dist_Least edits_attained by blast

lemma catalog_far: "conventions_levenshtein ''crud'' ''me'' = 4"
  by code_simp

lemma conventions_unknown_suggestion_iff:
  "conventions_unknown_suggestion identifier = Some name \<longleftrightarrow>
     name \<in> set CONVENTION_CATALOG \<and>
     (utf8_chars identifier = utf8_chars name \<or> edit1 (utf8_chars identifier) (utf8_chars name))"
proof -
  let ?d = "conventions_levenshtein identifier"
  have apart: "\<not> (?d ''crud'' \<le> 1 \<and> ?d ''me'' \<le> 1)"
    using edit_dist_triangle[of "utf8_chars ''crud''" "utf8_chars ''me''" "utf8_chars identifier"] catalog_far
    unfolding levenshtein_edit_dist edit_dist_sym[of "utf8_chars ''crud''" "utf8_chars identifier"] by linarith
  have near: "?d c \<le> 1 \<longleftrightarrow> utf8_chars identifier = utf8_chars c \<or> edit1 (utf8_chars identifier) (utf8_chars c)" for c
  proof
    assume "?d c \<le> 1"
    then have "?d c = 0 \<or> ?d c = 1" by linarith
    then show "utf8_chars identifier = utf8_chars c \<or> edit1 (utf8_chars identifier) (utf8_chars c)"
      using edits_attained[of "utf8_chars identifier" "utf8_chars c"] unfolding levenshtein_edit_dist by auto
  next
    assume "utf8_chars identifier = utf8_chars c \<or> edit1 (utf8_chars identifier) (utf8_chars c)"
    then show "?d c \<le> 1"
      using edit_dist_least[of 1 "utf8_chars identifier" "utf8_chars c"] unfolding levenshtein_edit_dist by auto
  qed
  have "conventions_unknown_suggestion identifier =
      (if ?d ''crud'' \<le> 1 then Some ''crud'' else if ?d ''me'' \<le> 1 then Some ''me'' else None)"
    using apart by (cases "?d ''crud'' \<le> 1")
      (simp_all add: conventions_unknown_suggestion_def CONVENTION_CATALOG_def suggestion_step_def Let_def)
  moreover have "(if ?d c1 \<le> 1 then Some c1 else if ?d c2 \<le> 1 then Some c2 else None) = Some name \<longleftrightarrow>
      name \<in> set [c1, c2] \<and> ?d name \<le> 1" if "\<not> (?d c1 \<le> 1 \<and> ?d c2 \<le> 1)" for c1 c2
    using that by auto
  ultimately show ?thesis unfolding CONVENTION_CATALOG_def near[symmetric] using apart by presburger
qed

text \<open>The search for the nearest field keeps the first of the closest names.\<close>

definition first_nearest :: "string \<Rightarrow> string list \<Rightarrow> nat \<Rightarrow> bool" where
  "first_nearest target names i \<longleftrightarrow> i < length names \<and>
     (\<forall>j < length names. levenshtein target (names ! i) \<le> levenshtein target (names ! j)) \<and>
     (\<forall>j < i. levenshtein target (names ! i) < levenshtein target (names ! j))"

lemma first_nearest_unique: "first_nearest target names i \<Longrightarrow> first_nearest target names j \<Longrightarrow> i = j"
  unfolding first_nearest_def by (metis linorder_cases not_less)

lemma nearest_step_simps:
  "nearest_step target name None = Some (levenshtein target name, name)"
  "nearest_step target name (Some (b, n)) =
     (if b \<le> levenshtein target name then Some (b, n) else Some (levenshtein target name, name))"
  by (simp_all add: nearest_step_def Let_def)

lemma nearest_fold:
  assumes "names \<noteq> []"
  shows "\<exists>i. first_nearest target names i \<and>
    fold (nearest_step target) names None = Some (levenshtein target (names ! i), names ! i)"
  using assms
proof (induction names rule: rev_induct)
  case (snoc name names)
  show ?case
  proof (cases "names = []")
    case True
    then show ?thesis by (auto simp: first_nearest_def nearest_step_simps intro!: exI[of _ 0])
  next
    case False
    with snoc.IH obtain i where i: "first_nearest target names i"
      "fold (nearest_step target) names None = Some (levenshtein target (names ! i), names ! i)" by blast
    show ?thesis
    proof (cases "levenshtein target (names ! i) \<le> levenshtein target name")
      case True
      with i show ?thesis
        by (intro exI[of _ i]) (auto simp: first_nearest_def nearest_step_simps nth_append less_Suc_eq)
    next
      case far: False
      have "levenshtein target name < levenshtein target (names ! j)" if "j < length names" for j
        using i(1) far that unfolding first_nearest_def by (meson le_less_trans not_le order_less_le_trans)
      with i far show ?thesis
        by (intro exI[of _ "length names"])
          (auto simp: first_nearest_def nearest_step_simps nth_append less_Suc_eq less_imp_le)
    qed
  qed
qed simp

lemma nearest_field_name_iff:
  "nearest_field_name target fields' = Some name \<longleftrightarrow>
     (\<exists>i. first_nearest target (map fi_name fields') i \<and> name = map fi_name fields' ! i \<and>
        levenshtein target name \<le> max (length target) 1 div 2 + 1)"
proof (cases "map fi_name fields' = []")
  case True
  then show ?thesis by (simp add: nearest_field_name_def first_nearest_def)
next
  case False
  then obtain i where i: "first_nearest target (map fi_name fields') i"
    "fold (nearest_step target) (map fi_name fields') None =
       Some (levenshtein target (map fi_name fields' ! i), map fi_name fields' ! i)"
    using nearest_fold[of "map fi_name fields'" target] by blast
  have only: "first_nearest target (map fi_name fields') j \<longleftrightarrow> j = i" for j
    using i(1) first_nearest_unique by blast
  have "(if d x \<le> b then Some x else None) = Some name \<longleftrightarrow> name = x \<and> d name \<le> b" for d :: "string \<Rightarrow> nat" and x b
    by auto
  then show ?thesis unfolding nearest_field_name_def i(2) option.case prod.case only by simp
qed

end
