(* ===== verification/Text_Helpers.thy ===== *)
theory Text_Helpers
  imports Sql_Text
begin

text \<open>
  The text helpers of the analyzer (\<^verbatim>\<open>crates/lazuli_analyzer/src/helpers.rs\<close>), apart from the edit
  distances (theory \<^verbatim>\<open>Edit_Distance\<close>) and \<^verbatim>\<open>first_paren_balanced_token\<close> (theory
  \<^verbatim>\<open>Type_Syntax\<close>): keyword lines, balanced decorators, quotes, whole words, operators and commas at
  top level, hex colours, case conversion and the two SQL quotings. The loops run over bytes; case
  conversion inspects ASCII only, so running it over bytes is running it over characters. Slicing inside
  a character is a panic in Rust and an error value here. \<^verbatim>\<open>find_word\<close> loops forever when the word is
  empty, so it is a partial function whose outer \<open>None\<close> is not returning.

  Shown here: \<^verbatim>\<open>find_word\<close> returns for every non-empty word; the operator search stops at the first
  operator outside quotes, or panics at the first byte of an unquoted character that is not its first
  byte; the two case conversions are inverse on words of at least two characters; and the table an owner
  check reads is the table the migration creates exactly when the resource name has no acronym.
\<close>

text \<open>Slicing a string inside a character is a panic; it is a value here.\<close>

datatype SlicePanic = NotCharBoundary nat

section \<open>Searching\<close>

fun keyword_offset :: "nat \<Rightarrow> string \<Rightarrow> string list \<Rightarrow> nat option" where
  "keyword_offset offset keyword [] = None"
| "keyword_offset offset keyword (line # lines) =
     (if starts_with (trim_start line) keyword then Some offset
      else keyword_offset (offset + length line + 1) keyword lines)"

definition find_keyword_line_offset :: "string \<Rightarrow> string \<Rightarrow> nat option" where
  "find_keyword_line_offset body keyword = keyword_offset 0 keyword (str_lines body)"

fun balanced_end :: "int \<Rightarrow> bool \<Rightarrow> bool \<Rightarrow> nat \<Rightarrow> string \<Rightarrow> nat option" where
  "balanced_end depth in_string escaped offset [] = None"
| "balanced_end depth in_string escaped offset (ch # s) =
     (if in_string then
        (if escaped then balanced_end depth True False (offset + 1) s
         else if ch = backslash then balanced_end depth True True (offset + 1) s
         else if ch = dquote then balanced_end depth False False (offset + 1) s
         else balanced_end depth True False (offset + 1) s)
      else if ch = dquote then balanced_end depth True escaped (offset + 1) s
      else if ch = CHR ''('' \<or> ch = CHR ''['' then balanced_end (depth + 1) False escaped (offset + 1) s
      else if ch = CHR '')'' \<or> ch = CHR '']'' then
        (if depth - 1 = 0 then Some (offset + 1) else balanced_end (depth - 1) False escaped (offset + 1) s)
      else balanced_end depth False escaped (offset + 1) s)"

definition find_balanced_decorator_end :: "string \<Rightarrow> nat \<Rightarrow> (SlicePanic, nat option) result" where
  "find_balanced_decorator_end tx start =
     (if \<not> is_char_boundary tx start then Err (NotCharBoundary start)
      else Ok (map_option (\<lambda>e. start + e) (balanced_end 0 False False 0 (drop start tx))))"

definition strip_quotes :: "string \<Rightarrow> string option" where
  "strip_quotes raw =
     (let trimmed = trim raw in
      if starts_with trimmed [dquote] \<and> ends_with trimmed [dquote] \<and> length trimmed \<ge> 2 \<or>
         starts_with trimmed [squote] \<and> ends_with trimmed [squote] \<and> length trimmed \<ge> 2
      then Some (take (length trimmed - 2) (drop 1 trimmed)) else None)"

partial_function (option) find_word_from :: "string \<Rightarrow> string \<Rightarrow> nat \<Rightarrow> nat option option" where
  "find_word_from tx word from' =
     (case find_str word (drop from' tx) of
        None \<Rightarrow> Some None
      | Some rel \<Rightarrow>
          (if (from' + rel = 0 \<or> is_ascii_whitespace (tx ! (from' + rel - 1))) \<and>
              (from' + rel + length word \<ge> length tx \<or> is_ascii_whitespace (tx ! (from' + rel + length word)))
           then Some (Some (from' + rel))
           else find_word_from tx word (from' + rel + length word)))"

definition find_word :: "string \<Rightarrow> string \<Rightarrow> nat option option" where
  "find_word tx word = find_word_from tx word 0"

fun top_level_operator :: "string \<Rightarrow> bool \<Rightarrow> nat \<Rightarrow> string \<Rightarrow> (SlicePanic, nat option) result" where
  "top_level_operator op in_quote i [] = Ok None"
| "top_level_operator op in_quote i (b # s) =
     (if b = dquote then top_level_operator op (\<not> in_quote) (i + 1) s
      else if \<not> in_quote \<and> is_continuation b then Err (NotCharBoundary i)
      else if \<not> in_quote \<and> starts_with (b # s) op then Ok (Some i)
      else top_level_operator op in_quote (i + 1) s)"

definition find_top_level_operator :: "string \<Rightarrow> string \<Rightarrow> (SlicePanic, nat option) result" where
  "find_top_level_operator tx op = top_level_operator op False 0 tx"

fun top_level_comma_from :: "int \<Rightarrow> bool \<Rightarrow> string \<Rightarrow> bool" where
  "top_level_comma_from depth in_quote [] = False"
| "top_level_comma_from depth in_quote (b # s) =
     (if b = dquote \<or> b = squote then top_level_comma_from depth (\<not> in_quote) s
      else if (b = CHR ''('' \<or> b = CHR ''['') \<and> \<not> in_quote then top_level_comma_from (depth + 1) in_quote s
      else if (b = CHR '')'' \<or> b = CHR '']'') \<and> \<not> in_quote then top_level_comma_from (depth - 1) in_quote s
      else if b = CHR '','' \<and> \<not> in_quote \<and> depth = 0 then True
      else top_level_comma_from depth in_quote s)"

definition has_top_level_comma :: "string \<Rightarrow> bool" where
  "has_top_level_comma tx = top_level_comma_from 0 False tx"

definition is_ascii_hexdigit :: "char \<Rightarrow> bool" where
  "is_ascii_hexdigit c \<longleftrightarrow> is_ascii_digit c \<or> 97 \<le> code c \<and> code c \<le> 102 \<or> 65 \<le> code c \<and> code c \<le> 70"

definition is_valid_design_hex :: "string \<Rightarrow> bool" where
  "is_valid_design_hex tx =
     (let trimmed = trim tx in
      if \<not> starts_with trimmed ''#'' then False
      else let rest = drop 1 trimmed; len = length rest in
        if \<not> (len = 3 \<or> len = 4 \<or> len = 6 \<or> len = 8) then False
        else list_all is_ascii_hexdigit rest)"

section \<open>Names\<close>

fun pascal_loop :: "string \<Rightarrow> char option \<Rightarrow> string \<Rightarrow> string" where
  "pascal_loop out prev [] = out"
| "pascal_loop out prev (ch # s) =
     (if is_ascii_uppercase ch then
        let next_is_lower = (case s of [] \<Rightarrow> False | c # _ \<Rightarrow> is_ascii_lowercase c);
            prev_needs_sep = (case prev of None \<Rightarrow> False
              | Some p \<Rightarrow> is_ascii_lowercase p \<or> is_ascii_digit p \<or> (is_ascii_uppercase p \<and> next_is_lower)) in
        pascal_loop ((if out \<noteq> [] \<and> prev_needs_sep then out @ ''_'' else out) @ [to_ascii_lowercase_char ch]) (Some ch) s
      else pascal_loop (out @ [ch]) (Some ch) s)"

definition pascal_to_snake :: "string \<Rightarrow> string" where
  "pascal_to_snake s = pascal_loop [] None s"

fun snake_chars :: "bool \<Rightarrow> string \<Rightarrow> string" where
  "snake_chars capitalize_next [] = []"
| "snake_chars capitalize_next (ch # s) =
     (if ch = CHR ''_'' then snake_chars True s
      else if capitalize_next then to_ascii_uppercase_char ch # snake_chars False s
      else ch # snake_chars False s)"

definition snake_to_pascal :: "string \<Rightarrow> string" where
  "snake_to_pascal s = snake_chars True s"

definition quoted_table :: "string \<Rightarrow> string" where
  "quoted_table resource_name = [dquote] @ pascal_to_snake resource_name @ [dquote]"

definition quoted_ident :: "string \<Rightarrow> string" where
  "quoted_ident ident = [dquote] @ ident @ [dquote]"

section \<open>Searches that end\<close>

lemma find_word_returns:
  assumes "word \<noteq> []"
  shows "\<exists>r. find_word_from tx word from' = Some r"
proof (induction "length tx - from'" arbitrary: from' rule: less_induct)
  case less
  show ?case
  proof (cases "find_str word (drop from' tx)")
    case None
    then show ?thesis by (simp add: find_word_from.simps)
  next
    case (Some rel)
    then have "starts_with (drop rel (drop from' tx)) word" using find_str_Some by blast
    then have "length word \<le> length tx - (from' + rel)" by (auto simp: starts_with_iff dest!: arg_cong[of _ _ length])
    then have "length tx - (from' + rel + length word) < length tx - from'"
      using assms by (cases word) auto
    from less[OF this] Some show ?thesis by (subst find_word_from.simps) auto
  qed
qed

section \<open>Operators outside quotes\<close>

definition unquoted :: "string \<Rightarrow> nat \<Rightarrow> bool" where
  "unquoted tx i \<longleftrightarrow> i < length tx \<and> tx ! i \<noteq> dquote \<and> even (count_list (take i tx) dquote)"

definition op_at :: "string \<Rightarrow> string \<Rightarrow> nat \<Rightarrow> bool" where
  "op_at op tx i \<longleftrightarrow> unquoted tx i \<and> starts_with (drop i tx) op"

definition split_at :: "string \<Rightarrow> nat \<Rightarrow> bool" where
  "split_at tx i \<longleftrightarrow> unquoted tx i \<and> is_continuation (tx ! i)"

text \<open>Where the scan stops when it starts inside (\<open>q\<close>) or outside a quotation.\<close>

definition stops_at :: "string \<Rightarrow> bool \<Rightarrow> string \<Rightarrow> nat \<Rightarrow> bool" where
  "stops_at op q s i \<longleftrightarrow> i < length s \<and> s ! i \<noteq> dquote \<and> (even (count_list (take i s) dquote) \<longleftrightarrow> \<not> q) \<and>
     (is_continuation (s ! i) \<or> starts_with (drop i s) op)"

lemma stops_at_simps [simp]:
  "\<not> stops_at op q [] i"
  "stops_at op q (b # s) 0 \<longleftrightarrow> b \<noteq> dquote \<and> \<not> q \<and> (is_continuation b \<or> starts_with (b # s) op)"
  "stops_at op q (b # s) (Suc i) \<longleftrightarrow> stops_at op (if b = dquote then \<not> q else q) s i"
  by (auto simp: stops_at_def)

definition stop_result :: "string \<Rightarrow> bool \<Rightarrow> nat \<Rightarrow> string \<Rightarrow> (SlicePanic, nat option) result \<Rightarrow> bool" where
  "stop_result op q k s r = (case r of
     Inl (NotCharBoundary j) \<Rightarrow> (\<exists>i. j = k + i \<and> stops_at op q s i \<and> is_continuation (s ! i) \<and> (\<forall>m < i. \<not> stops_at op q s m))
   | Inr (Some j) \<Rightarrow> (\<exists>i. j = k + i \<and> stops_at op q s i \<and> \<not> is_continuation (s ! i) \<and> (\<forall>m < i. \<not> stops_at op q s m))
   | Inr None \<Rightarrow> (\<forall>m. \<not> stops_at op q s m))"

lemma stop_result_Cons:
  assumes stay: "\<not> stops_at op q (b # s) 0" and r: "stop_result op (if b = dquote then \<not> q else q) (k + 1) s r"
  shows "stop_result op q k (b # s) r"
proof -
  have later: "(\<forall>m < Suc i. \<not> stops_at op q (b # s) m) \<longleftrightarrow>
      (\<forall>m < i. \<not> stops_at op (if b = dquote then \<not> q else q) s m)" for i
    using stay by (auto simp: less_Suc_eq_0_disj simp del: stops_at_simps(2))
  have never: "(\<forall>m. \<not> stops_at op q (b # s) m) \<longleftrightarrow> (\<forall>m. \<not> stops_at op (if b = dquote then \<not> q else q) s m)"
    using stay by (metis not0_implies_Suc stops_at_simps(3))
  have lift: "(\<exists>i. j = k + i \<and> stops_at op q (b # s) i \<and> P ((b # s) ! i) \<and> (\<forall>m < i. \<not> stops_at op q (b # s) m))"
    if "\<exists>i. j = k + 1 + i \<and> stops_at op (if b = dquote then \<not> q else q) s i \<and> P (s ! i) \<and>
      (\<forall>m < i. \<not> stops_at op (if b = dquote then \<not> q else q) s m)" for j P
  proof -
    from that obtain i where "j = k + 1 + i" "stops_at op (if b = dquote then \<not> q else q) s i" "P (s ! i)"
      "\<forall>m < i. \<not> stops_at op (if b = dquote then \<not> q else q) s m" by blast
    then have "j = k + Suc i \<and> stops_at op q (b # s) (Suc i) \<and> P ((b # s) ! Suc i) \<and> (\<forall>m < Suc i. \<not> stops_at op q (b # s) m)"
      unfolding later stops_at_simps(3) by simp
    then show ?thesis ..
  qed
  show ?thesis
  proof (cases r)
    case (Inl e)
    then show ?thesis using r lift[of _ is_continuation] by (cases e) (simp add: stop_result_def)
  next
    case (Inr v)
    show ?thesis
    proof (cases v)
      case None
      then show ?thesis using r Inr never unfolding stop_result_def by simp
    next
      case (Some j)
      then show ?thesis using r Inr lift[of j "\<lambda>c. \<not> is_continuation c"] by (simp add: stop_result_def)
    qed
  qed
qed

lemma top_level_operator_stops: "stop_result op q k s (top_level_operator op q k s)"
proof (induction s arbitrary: q k)
  case Nil
  show ?case by (simp add: stop_result_def)
next
  case (Cons b s)
  show ?case
  proof (cases "stops_at op q (b # s) 0")
    case True
    then show ?thesis by (auto simp: stop_result_def)
  next
    case False
    moreover have "top_level_operator op q k (b # s) = top_level_operator op (if b = dquote then \<not> q else q) (k + 1) s"
      using False by auto
    ultimately show ?thesis using stop_result_Cons[OF False Cons] by simp
  qed
qed

lemma stops_at_unquoted: "stops_at op False s i \<longleftrightarrow> split_at s i \<or> op_at op s i"
  by (auto simp: stops_at_def split_at_def op_at_def unquoted_def)

lemma find_top_level_operator_cases:
  obtains (panic) i where "find_top_level_operator tx op = Err (NotCharBoundary i)" "split_at tx i"
      "\<And>m. m < i \<Longrightarrow> \<not> split_at tx m \<and> \<not> op_at op tx m"
  | (found) i where "find_top_level_operator tx op = Ok (Some i)" "op_at op tx i" "\<not> split_at tx i"
      "\<And>m. m < i \<Longrightarrow> \<not> split_at tx m \<and> \<not> op_at op tx m"
  | (absent) "find_top_level_operator tx op = Ok None" "\<And>m. \<not> split_at tx m \<and> \<not> op_at op tx m"
proof -
  have st: "stop_result op False 0 tx (find_top_level_operator tx op)"
    unfolding find_top_level_operator_def by (rule top_level_operator_stops)
  consider i where "find_top_level_operator tx op = Err (NotCharBoundary i)"
    | i where "find_top_level_operator tx op = Ok (Some i)" | "find_top_level_operator tx op = Ok None"
    by (metis SlicePanic.exhaust not_None_eq sum.exhaust)
  then show ?thesis
    using st panic found absent
    by cases (auto simp: stop_result_def stops_at_unquoted, auto simp: split_at_def op_at_def)
qed

section \<open>Table names\<close>

text \<open>An acronym inside a name: an upper-case letter after another, before a lower-case one.\<close>

definition acronym_here :: "char option \<Rightarrow> char \<Rightarrow> string \<Rightarrow> bool" where
  "acronym_here prev c s \<longleftrightarrow> is_ascii_uppercase c \<and> (case prev of None \<Rightarrow> False | Some p \<Rightarrow> is_ascii_uppercase p) \<and>
     (case s of [] \<Rightarrow> False | d # _ \<Rightarrow> is_ascii_lowercase d)"

fun acronym_after :: "char option \<Rightarrow> string \<Rightarrow> bool" where
  "acronym_after prev [] \<longleftrightarrow> False"
| "acronym_after prev (c # s) \<longleftrightarrow> acronym_here prev c s \<or> acronym_after (Some c) s"

definition has_acronym :: "string \<Rightarrow> bool" where
  "has_acronym s = acronym_after None s"

definition after_word :: "char option \<Rightarrow> bool" where
  "after_word prev = (case prev of None \<Rightarrow> False | Some p \<Rightarrow> is_ascii_lowercase p \<or> is_ascii_digit p)"

lemma snake_sep_not_alnum: "is_snake_sep c \<Longrightarrow> \<not> is_ascii_alphanumeric c"
  by (auto simp: is_snake_sep_def char_class_defs)

lemma upper_not_word: "is_ascii_uppercase c \<Longrightarrow> \<not> is_ascii_lowercase c \<and> \<not> is_ascii_digit c"
  by (simp add: char_class_defs)

lemma alnum_not_upper: "is_ascii_alphanumeric c \<Longrightarrow> \<not> is_ascii_uppercase c \<Longrightarrow>
    (is_ascii_lowercase c \<or> is_ascii_digit c) \<and> to_ascii_lowercase_char c = c"
  by (auto simp: char_class_defs to_ascii_lowercase_char_def)

lemma acronym_not_word: "acronym_here prev c s \<Longrightarrow> \<not> after_word prev"
  by (auto simp: acronym_here_def after_word_def dest: upper_not_word split: option.splits)

lemma snake_loop_alnum:
  assumes "is_ascii_alphanumeric c"
  shows "snake_loop out pl False (c # s) =
    snake_loop ((if is_ascii_uppercase c \<and> pl then out @ ''_'' else out) @ [to_ascii_lowercase_char c]) (after_word (Some c)) False s"
  using assms snake_sep_not_alnum[of c] alnum_not_upper[of c] upper_not_word[of c] by (auto simp: after_word_def)

lemma pascal_loop_step:
  assumes "is_ascii_alphanumeric c" "prev \<noteq> None \<longrightarrow> out \<noteq> []"
  shows "pascal_loop out prev (c # s) =
    pascal_loop ((if is_ascii_uppercase c \<and> after_word prev \<or> acronym_here prev c s then out @ ''_'' else out) @
      [to_ascii_lowercase_char c]) (Some c) s"
  using assms alnum_not_upper[of c] by (auto simp: after_word_def acronym_here_def Let_def split: option.splits)

lemma same_loop:
  assumes "list_all is_ascii_alphanumeric s" "\<not> acronym_after prev s" "prev \<noteq> None \<longrightarrow> out \<noteq> []"
  shows "pascal_loop out prev s = snake_loop out (after_word prev) False s"
  using assms
proof (induction s arbitrary: out prev)
  case (Cons c s)
  then have c: "is_ascii_alphanumeric c" and s: "list_all is_ascii_alphanumeric s" "\<not> acronym_after (Some c) s" by simp_all
  show ?case
    using Cons.IH[OF s] Cons.prems(2) by (simp only: pascal_loop_step[OF c Cons.prems(3)] snake_loop_alnum[OF c]) auto
qed simp

lemma longer_loop:
  assumes "list_all is_ascii_alphanumeric s" "prev \<noteq> None \<longrightarrow> out \<noteq> []" "length out' \<le> length out"
  shows "length (snake_loop out' (after_word prev) False s) \<le> length (pascal_loop out prev s) \<and>
    (acronym_after prev s \<or> length out' < length out \<longrightarrow>
      length (snake_loop out' (after_word prev) False s) < length (pascal_loop out prev s))"
  using assms
proof (induction s arbitrary: out out' prev)
  case (Cons c s)
  then have c: "is_ascii_alphanumeric c" and s: "list_all is_ascii_alphanumeric s" by simp_all
  show ?case
    using Cons.prems(3) Cons.IH[OF s, of "Some c"] acronym_not_word[of prev c s]
    by (simp only: pascal_loop_step[OF c Cons.prems(2)] snake_loop_alnum[OF c]) (cases "acronym_here prev c s"; auto)
qed simp

lemma no_underscore_end:
  assumes "list_all is_ascii_alphanumeric s" "out = [] \<or> last out \<noteq> CHR ''_''"
  shows "snake_loop out pl False s = [] \<or> last (snake_loop out pl False s) \<noteq> CHR ''_''"
  using assms
proof (induction s arbitrary: out pl)
  case (Cons c s)
  then have c: "is_ascii_alphanumeric c" by simp
  have "to_ascii_lowercase_char c \<noteq> CHR ''_''"
  proof
    assume "to_ascii_lowercase_char c = CHR ''_''"
    moreover have "is_ascii_alphanumeric (to_ascii_lowercase_char c)"
      using c by (auto simp: char_class_defs to_ascii_lowercase_char_def)
    ultimately show False by (simp add: char_class_defs)
  qed
  with Cons show ?case by (simp add: snake_loop_alnum[OF c] del: snake_loop.simps(2))
qed simp

lemma lower_snake_alnum: "list_all is_ascii_alphanumeric s \<Longrightarrow> lower_snake s = snake_loop [] False False s"
  using no_underscore_end[of s "[]" False]
  by (cases "snake_loop [] False False s" rule: rev_cases) (auto simp: lower_snake_def)

lemma pascal_to_snake_lower_snake:
  assumes "list_all is_ascii_alphanumeric s"
  shows "pascal_to_snake s = lower_snake s \<longleftrightarrow> \<not> has_acronym s"
  using same_loop[OF assms, of None "[]"] longer_loop[OF assms, of None "[]" "[]"]
  by (auto simp: pascal_to_snake_def lower_snake_alnum[OF assms] has_acronym_def after_word_def)

lemma replace_char_absent: "a \<notin> set s \<Longrightarrow> replace_char a r s = s"
  by (induction s) (auto simp: replace_char_def)

lemma quote_ident_slug: "quote_ident (lower_snake s) = [dquote] @ lower_snake s @ [dquote]"
proof -
  have "\<not> ident_body dquote" by code_simp
  then have "dquote \<notin> set (lower_snake s)"
    using lower_snake_slug[of s] unfolding is_slug_def list_all_iff by blast
  then show ?thesis by (simp add: quote_ident_def replace_char_absent)
qed

text \<open>
  C34. The owner-scope SQL of the analyzer names its table with \<^verbatim>\<open>quoted_table\<close>, the migrations create
  it as \<^verbatim>\<open>quote_ident(lower_snake(name))\<close>. For a resource name of letters and digits the two are the same
  text exactly when no upper-case letter stands between an upper-case and a lower-case one: an acronym
  (\<^verbatim>\<open>HTTPServer\<close>) makes the owner check read a table that no migration creates.
\<close>

theorem owner_table_agrees_iff:
  assumes "list_all is_ascii_alphanumeric name"
  shows "quoted_table name = quote_ident (lower_snake name) \<longleftrightarrow> \<not> has_acronym name"
  using pascal_to_snake_lower_snake[OF assms] by (simp add: quoted_table_def quote_ident_slug)

theorem owner_table_agrees_iff_witness:
  "quoted_table ''CustomService'' = quote_ident (lower_snake ''CustomService'') \<and>
   quoted_table ''HTTPServer'' \<noteq> quote_ident (lower_snake ''HTTPServer'')"
proof -
  have "list_all is_ascii_alphanumeric ''CustomService''" "\<not> has_acronym ''CustomService''" by code_simp+
  moreover have "list_all is_ascii_alphanumeric ''HTTPServer''" "has_acronym ''HTTPServer''" by code_simp+
  ultimately show ?thesis
    using owner_table_agrees_iff[of "''CustomService''"] owner_table_agrees_iff[of "''HTTPServer''"] by blast
qed


section \<open>Keyword lines\<close>

definition line_start :: "string list \<Rightarrow> nat \<Rightarrow> nat" where
  "line_start ls i = (\<Sum>l \<leftarrow> take i ls. length l + 1)"

lemma keyword_offset_shift: "keyword_offset k kw ls =
    map_option (\<lambda>i. k + line_start ls i) (first_index (\<lambda>l. starts_with (trim_start l) kw) ls)"
  by (induction k kw ls rule: keyword_offset.induct)
    (auto simp: line_start_def option.map_comp comp_def add.assoc)

lemma find_keyword_line_offset_eq: "find_keyword_line_offset body kw =
    map_option (line_start (str_lines body)) (first_index (\<lambda>l. starts_with (trim_start l) kw) (str_lines body))"
  by (simp add: find_keyword_line_offset_def keyword_offset_shift)

lemma line_start_mono: "i < j \<Longrightarrow> j \<le> length ls \<Longrightarrow> line_start ls i < line_start ls j"
proof (induction j)
  case (Suc j)
  have "line_start ls (Suc j) = line_start ls j + length (ls ! j) + 1"
    using Suc.prems(2) by (simp add: line_start_def take_Suc_conv_app_nth)
  with Suc show ?case by (cases "i = j") auto
qed simp

lemma line_start_less_iff: "i \<le> length ls \<Longrightarrow> j \<le> length ls \<Longrightarrow> line_start ls i < line_start ls j \<longleftrightarrow> i < j"
  using line_start_mono[of i j ls] line_start_mono[of j i ls] by (metis less_asym linorder_cases order_less_irrefl)

section \<open>Name round trip\<close>

definition snake_word :: "string \<Rightarrow> bool" where
  "snake_word w \<longleftrightarrow> length w \<ge> 2 \<and> is_ascii_lowercase (hd w) \<and> list_all (\<lambda>c. is_ascii_lowercase c \<or> is_ascii_digit c) w"

definition capitalized :: "string \<Rightarrow> string" where
  "capitalized w = to_ascii_uppercase_char (hd w) # tl w"

lemma snake_chars_word: "list_all (\<lambda>c. is_ascii_lowercase c \<or> is_ascii_digit c) w \<Longrightarrow>
    snake_chars False (w @ r) = w @ snake_chars False r"
  by (induction w) (auto simp: char_class_defs)

lemma snake_chars_words: "list_all snake_word ws \<Longrightarrow> snake_chars True (join ''_'' ws) = concat (map capitalized ws)"
proof (induction ws rule: induct_list012)
  case (2 w)
  then show ?case using snake_chars_word[of "tl w" "[]"]
    by (cases w) (auto simp: snake_word_def capitalized_def char_class_defs)
next
  case (3 w v ws)
  then show ?case using snake_chars_word[of "tl w" "CHR ''_'' # join ''_'' (v # ws)"]
    by (cases w) (auto simp: snake_word_def capitalized_def char_class_defs)
qed simp

lemma pascal_loop_tail: "list_all (\<lambda>c. is_ascii_lowercase c \<or> is_ascii_digit c) w \<Longrightarrow> w \<noteq> [] \<Longrightarrow>
    pascal_loop out prev (w @ r) = pascal_loop (out @ w) (Some (last w)) r"
proof (induction w arbitrary: out prev)
  case (Cons c w)
  then have "\<not> is_ascii_uppercase c" using upper_not_word by auto
  with Cons show ?case by (cases "w = []") auto
qed simp

lemma upper_of_lower: "is_ascii_lowercase c \<Longrightarrow> is_ascii_uppercase (to_ascii_uppercase_char c) \<and>
    to_ascii_lowercase_char (to_ascii_uppercase_char c) = c"
  by (auto simp: char_class_defs to_ascii_uppercase_char_def to_ascii_lowercase_char_def)

lemma pascal_loop_word:
  assumes "snake_word w" "after_word prev \<and> out \<noteq> [] \<or> prev = None \<and> out = []"
  shows "pascal_loop out prev (capitalized w @ r) = pascal_loop ((if prev = None then [] else out @ ''_'') @ w) (Some (last w)) r"
proof -
  obtain c t where w: "w = c # t" "t \<noteq> []" using assms(1) by (cases w; cases "tl w") (auto simp: snake_word_def)
  then show ?thesis
    using assms upper_of_lower[of c] pascal_loop_tail[of t]
    by (auto simp: capitalized_def snake_word_def after_word_def Let_def split: option.splits)
qed

lemma pascal_loop_words:
  assumes "list_all snake_word ws" "ws \<noteq> []" "after_word prev \<and> out \<noteq> [] \<or> prev = None \<and> out = []"
  shows "pascal_loop out prev (concat (map capitalized ws)) = (if prev = None then [] else out @ ''_'') @ join ''_'' ws"
  using assms
proof (induction ws arbitrary: out prev rule: induct_list012)
  case (2 w)
  then show ?case using pascal_loop_word[of w prev out "[]"] by simp
next
  case (3 w v ws)
  have w: "w \<noteq> []" using 3(3) by (auto simp: snake_word_def)
  then have "after_word (Some (last w))" using 3(3) last_in_set[OF w] by (auto simp: snake_word_def after_word_def list_all_iff)
  with 3 w show ?case using pascal_loop_word[of w prev out] by simp
qed simp

lemma pascal_snake_roundtrip:
  assumes "list_all snake_word ws"
  shows "pascal_to_snake (snake_to_pascal (join ''_'' ws)) = join ''_'' ws"
  using pascal_loop_words[OF assms, of None "[]"] snake_chars_words[OF assms]
  by (cases ws) (simp_all add: pascal_to_snake_def snake_to_pascal_def)

end
