(* ===== verification/Expr_Lowering.thy ===== *)
theory Expr_Lowering
  imports Text_Helpers Ir_Core Policy_Expr
begin

text \<open>
  Lowering of expression, reference and predicate text (\<^verbatim>\<open>crates/lazuli_analyzer/src/expr.rs\<close>; the closed
  predicates of \<^verbatim>\<open>agent.rs\<close>, the filter lines of \<^verbatim>\<open>query.rs\<close> and the emit predicates of
  \<^verbatim>\<open>workflow.rs\<close>). \<open>parse_fn_call_parts\<close> is \<^verbatim>\<open>parse_fn_call_expr\<close> up to the lowering of the
  arguments, which \<open>lower_raw_expr\<close> does itself; its recursion ends because every argument is shorter than
  the call. The operator search may panic, so predicate lowering returns a result. The two passes that
  split a comparison run the same loop over the same token list (\<open>comparison_loop\<close>). The intermediate
  policy expression has its own constructors, prefixed \<open>Ir\<close>.

  Shown here: printed expressions and printed comparisons are read back exactly, and which predicate
  texts abort the lowering.
\<close>

section \<open>Names and references\<close>

definition lower_qualified_name :: "string \<Rightarrow> qualified_name" where
  "lower_qualified_name tx =
     (let trimmed = trim tx in
      case split_once CHR ''.'' trimmed of
        Some (feature, name) \<Rightarrow> \<lparr>qn_feature = Some feature, qn_name = name\<rparr>
      | None \<Rightarrow> \<lparr>qn_feature = None, qn_name = trimmed\<rparr>)"

definition lower_path_string :: "string \<Rightarrow> string list" where
  "lower_path_string tx = filter (\<lambda>s. s \<noteq> []) (map trim (split_on CHR ''.'' (hd (split_on CHR '','' tx))))"

definition lower_policy_atom :: "string \<Rightarrow> PolicyRef" where
  "lower_policy_atom atom = (case strip_prefix ''@'' atom of Some rest \<Rightarrow> RefAtom rest | None \<Rightarrow> RefLocal atom)"

section \<open>Expressions\<close>

fun fn_args_loop :: "nat \<Rightarrow> bool \<Rightarrow> string \<Rightarrow> string \<Rightarrow> string list" where
  "fn_args_loop depth in_quote part [] = (if trim part \<noteq> [] then [trim part] else [])"
| "fn_args_loop depth in_quote part (b # s) =
     (if b = dquote then fn_args_loop depth (\<not> in_quote) (part @ [b]) s
      else if \<not> in_quote then
        (if b = CHR ''('' then fn_args_loop (depth + 1) in_quote (part @ [b]) s
         else if b = CHR '')'' then fn_args_loop (depth - 1) in_quote (part @ [b]) s
         else if b = CHR '','' \<and> depth = 0 then
           (if trim part \<noteq> [] then [trim part] else []) @ fn_args_loop depth in_quote [] s
         else fn_args_loop depth in_quote (part @ [b]) s)
      else fn_args_loop depth in_quote (part @ [b]) s)"

definition split_fn_call_args :: "string \<Rightarrow> string list" where
  "split_fn_call_args input = fn_args_loop 0 False [] input"

definition parse_fn_call_parts :: "string \<Rightarrow> (string \<times> string list) option" where
  "parse_fn_call_parts tx =
     (case strip_prefix ''@fn.'' tx of
        None \<Rightarrow> None
      | Some rest \<Rightarrow>
          (case find_char CHR ''('' rest of
             None \<Rightarrow>
               let name = trim rest in
               if name = [] \<or> CHR ''.'' \<in> set name then None else Some (name, [])
           | Some paren_idx \<Rightarrow>
               if \<not> ends_with rest '')'' then None
               else let name = trim (take paren_idx rest);
                        after = drop paren_idx rest;
                        inside = take (length after - 2) (drop 1 after) in
                 if name = [] then None
                 else Some (name, if trim inside = [] then [] else split_fn_call_args inside)))"

definition unquoted_text :: "string \<Rightarrow> string option" where
  "unquoted_text tx = Option.bind (strip_prefix [dquote] tx) (strip_suffix [dquote])"

lemma fn_args_length: "a \<in> set (fn_args_loop d q part s) \<Longrightarrow> length a \<le> length part + length s"
proof (induction d q part s rule: fn_args_loop.induct)
  case (1 d q part)
  then show ?case using length_trim[of part] by (auto split: if_splits)
next
  case (2 d q part b s)
  then show ?case using length_trim[of part] by (auto simp del: length_trim split: if_splits)
qed

lemma fn_call_parts_length: "parse_fn_call_parts tx = Some (name, args) \<Longrightarrow> a \<in> set args \<Longrightarrow> length a < length tx"
proof -
  assume p: "parse_fn_call_parts tx = Some (name, args)" and a: "a \<in> set args"
  then obtain rest where rest: "tx = ''@fn.'' @ rest"
    by (auto simp: parse_fn_call_parts_def strip_prefix_Some_iff split: option.splits)
  from p a rest obtain i where "a \<in> set (split_fn_call_args (take (length (drop i rest) - 2) (drop 1 (drop i rest))))"
    by (auto simp: parse_fn_call_parts_def Let_def split: option.splits if_splits)
  then have "length a \<le> length rest" unfolding split_fn_call_args_def by (drule_tac fn_args_length) simp
  with rest show ?thesis by simp
qed

function lower_raw_expr :: "string \<Rightarrow> Expr" where
  "lower_raw_expr tx =
     (let trimmed = trim tx in
      case unquoted_text trimmed of
        Some u \<Rightarrow> EString u
      | None \<Rightarrow>
          (case parse_i64 trimmed of
             Some n \<Rightarrow> EInteger n
           | None \<Rightarrow>
               if trimmed = ''true'' then EBoolean True
               else if trimmed = ''false'' then EBoolean False
               else if trimmed = ''nil'' then ENil
               else case parse_fn_call_parts trimmed of
                   Some (name, args) \<Rightarrow> EFnCall \<lparr>qn_feature = None, qn_name = name\<rparr> (map lower_raw_expr args)
                 | None \<Rightarrow> EPath (map trim (split_on CHR ''.'' trimmed))))"
  by pat_completeness auto
termination
proof (relation "measure length")
  fix tx trimmed name args a p
  assume "trimmed = trim tx" "parse_fn_call_parts trimmed = Some p" "(name, args) = p" "a \<in> set args"
  then have "length a < length (trim tx)" using fn_call_parts_length[of "trim tx" name args a] by simp
  then show "(a, tx) \<in> measure length" using length_trim[of tx] by (simp del: length_trim)
qed simp

declare lower_raw_expr.simps [simp del]

definition expr_from_text :: "string \<Rightarrow> Expr" where
  "expr_from_text tx0 =
     (let tx = trim tx0 in
      case unquoted_text tx of
        Some u \<Rightarrow> EString u
      | None \<Rightarrow>
          (case parse_i64 tx of
             Some n \<Rightarrow> EInteger n
           | None \<Rightarrow>
               if tx = ''true'' then EBoolean True
               else if tx = ''false'' then EBoolean False
               else if tx = ''nil'' then ENil
               else EPath (split_on CHR ''.'' tx)))"

fun lower_policy_expr :: "PolicyExpr \<Rightarrow> IrPolicyExpr" where
  "lower_policy_expr Authenticated = IrAuthenticated"
| "lower_policy_expr (HasRole name) = IrHasRole name"
| "lower_policy_expr (HasPermission perm) = IrHasPermission perm"
| "lower_policy_expr (Atom atom) = IrAtom \<lparr>ia_namespace = pa_namespace atom, ia_name = pa_name atom, ia_args = pa_args atom\<rparr>"
| "lower_policy_expr (And terms) = IrAnd (map lower_policy_expr terms)"
| "lower_policy_expr (Or terms) = IrOr (map lower_policy_expr terms)"
| "lower_policy_expr (Not inner) = IrNot (lower_policy_expr inner)"


section \<open>Predicates\<close>

definition compare_tokens :: "(string \<times> CompareOp) list" where
  "compare_tokens = [(''<='', Le), (''>='', Ge), (''!='', Ne), (''<'', Lt), (''>'', Gt), (''=='', Eq)]"

fun comparison_loop :: "string \<Rightarrow> (string \<times> CompareOp) list \<Rightarrow> (SlicePanic, (string \<times> CompareOp \<times> string) option) result" where
  "comparison_loop trimmed [] = Ok None"
| "comparison_loop trimmed ((token, op) # tokens) =
     try_bind (find_top_level_operator trimmed token) (\<lambda>found. case found of
         Some idx \<Rightarrow> Ok (Some (trim (take idx trimmed), op, trim (drop (length token) (drop idx trimmed))))
       | None \<Rightarrow> comparison_loop trimmed tokens)"

definition parse_closed_predicate :: "string \<Rightarrow> (SlicePanic, EvalPredicate) result" where
  "parse_closed_predicate tx =
     try_bind (comparison_loop (trim tx) compare_tokens) (\<lambda>found. Ok (case found of
         None \<Rightarrow> Unparsed tx
       | Some (lhs, op, rhs) \<Rightarrow>
           if lhs = [] \<or> rhs = [] then Unparsed tx
           else Closed (Comparison (expr_from_text lhs) op (expr_from_text rhs))))"

definition filter_lhs_expr :: "string \<Rightarrow> Expr" where
  "filter_lhs_expr tx = EPath (split_on CHR ''.'' tx)"

definition filter_rhs_expr :: "string \<Rightarrow> Expr" where
  "filter_rhs_expr tx0 =
     (let tx = trim tx0 in
      case unquoted_text tx of
        Some u \<Rightarrow> EString u
      | None \<Rightarrow>
          (case parse_i64 tx of
             Some n \<Rightarrow> EInteger n
           | None \<Rightarrow>
               if tx = ''true'' then EBoolean True
               else if tx = ''false'' then EBoolean False
               else if tx = ''nil'' then ENil
               else if CHR ''.'' \<in> set tx then EPath (split_on CHR ''.'' tx)
               else EEnum \<lparr>el_type_name = None, el_variant = tx\<rparr>))"

definition parse_query_filter_line :: "string \<Rightarrow> (SlicePanic, filter_ir option) result" where
  "parse_query_filter_line tx =
     (let trimmed = trim tx in
      if trimmed = [] \<or> starts_with trimmed ''#'' then Ok None
      else try_bind (comparison_loop trimmed compare_tokens) (\<lambda>found. Ok (case found of
          None \<Rightarrow> None
        | Some (lhs, op, rhs) \<Rightarrow>
            if lhs = [] \<or> rhs = [] then None
            else Some \<lparr>fl_predicate = Comparison (filter_lhs_expr lhs) op (filter_rhs_expr rhs), fl_when = None\<rparr>)))"

fun lower_query_filter_lines :: "string list \<Rightarrow> (SlicePanic, filter_ir list) result" where
  "lower_query_filter_lines [] = Ok []"
| "lower_query_filter_lines (line # lines) =
     try_bind (parse_query_filter_line line) (\<lambda>f.
     try_bind (lower_query_filter_lines lines) (\<lambda>fs. Ok (case f of None \<Rightarrow> fs | Some x \<Rightarrow> x # fs)))"

datatype EmitPredicateKind = EmitEquals string string | EmitIn string "string list" | EmitOther string

record emit_predicate =
  ep_raw :: string
  ep_kind :: EmitPredicateKind

definition emit_equals :: "string \<Rightarrow> EmitPredicateKind option" where
  "emit_equals tx =
     (case find_str ''=='' tx of
        None \<Rightarrow> None
      | Some i \<Rightarrow>
          let path = trim (take i tx); literal_raw = trim (drop (i + 2) tx) in
          if path \<noteq> [] \<and> CHR '' '' \<notin> set path
          then map_option (EmitEquals path) (strip_quotes literal_raw) else None)"

definition emit_in :: "string \<Rightarrow> EmitPredicateKind option" where
  "emit_in tx =
     (case find_word tx ''in'' of
        Some (Some in_pos) \<Rightarrow>
          let path = trim (take in_pos tx); rhs = trim (drop (in_pos + 2) tx) in
          if path \<noteq> [] \<and> CHR '' '' \<notin> set path \<and> starts_with rhs ''('' \<and> ends_with rhs '')'' then
            let literals = List.map_filter (\<lambda>raw. strip_quotes (trim raw)) (split_on CHR '','' (take (length rhs - 2) (drop 1 rhs))) in
            if literals \<noteq> [] then Some (EmitIn path literals) else None
          else None
      | _ \<Rightarrow> None)"

definition parse_emit_predicate_kind :: "string \<Rightarrow> EmitPredicateKind option" where
  "parse_emit_predicate_kind tx = (case emit_equals tx of Some k \<Rightarrow> Some k | None \<Rightarrow> emit_in tx)"

definition lower_emit_predicate :: "string \<Rightarrow> emit_predicate" where
  "lower_emit_predicate raw =
     (let trimmed = trim raw in
      \<lparr>ep_raw = trimmed, ep_kind = (case parse_emit_predicate_kind trimmed of Some k \<Rightarrow> k | None \<Rightarrow> EmitOther trimmed)\<rparr>)"

section \<open>Printing\<close>

fun show_expr :: "Expr \<Rightarrow> string" where
  "show_expr (EPath segments) = join ''.'' segments"
| "show_expr (EString s) = [dquote] @ s @ [dquote]"
| "show_expr (EInteger n) = int_to_string n"
| "show_expr (EBoolean b) = (if b then ''true'' else ''false'')"
| "show_expr (EEnum e) = el_variant e"
| "show_expr ENil = ''nil''"
| "show_expr (EFnCall q args) = ''@fn.'' @ qn_name q @ ''('' @ join '', '' (map show_expr args) @ '')''"

definition word_char :: "char \<Rightarrow> bool" where
  "word_char c \<longleftrightarrow> is_ascii_alphanumeric c \<or> c = CHR ''_''"

definition word :: "string \<Rightarrow> bool" where
  "word w \<longleftrightarrow> w \<noteq> [] \<and> list_all word_char w"

definition path_text :: "string list \<Rightarrow> bool" where
  "path_text segments \<longleftrightarrow> segments \<noteq> [] \<and> list_all word segments \<and> \<not> is_ascii_digit (hd (hd segments)) \<and>
     segments \<notin> {[''true''], [''false''], [''nil'']}"

fun wf_expr :: "Expr \<Rightarrow> bool" where
  "wf_expr (EPath segments) = path_text segments"
| "wf_expr (EString s) = (dquote \<notin> set s)"
| "wf_expr (EInteger n) = (- (2 ^ 63) \<le> n \<and> n < 2 ^ 63)"
| "wf_expr (EBoolean b) = True"
| "wf_expr (EEnum e) = False"
| "wf_expr ENil = True"
| "wf_expr (EFnCall q args) = (qn_feature q = None \<and> word (qn_name q) \<and> list_all wf_expr args)"

fun is_call :: "Expr \<Rightarrow> bool" where
  "is_call (EFnCall _ _) = True"
| "is_call _ = False"

lemma word_char_facts:
  assumes "word_char c"
  shows "graphic c" "c \<noteq> dquote" "c \<noteq> CHR ''('' \<and> c \<noteq> CHR '')'' \<and> c \<noteq> CHR '','' \<and> c \<noteq> CHR ''.''"
    "c \<noteq> CHR ''@'' \<and> c \<noteq> CHR ''-'' \<and> c \<noteq> CHR ''+''" "\<not> is_continuation c"
    "c \<noteq> CHR ''<'' \<and> c \<noteq> CHR ''>'' \<and> c \<noteq> CHR ''!'' \<and> c \<noteq> CHR ''=''"
  using assms by (auto simp: word_char_def char_class_defs is_continuation_def)


section \<open>Printed expressions are read back\<close>

text \<open>A text the argument scanner crosses without ending an argument.\<close>

definition passes :: "nat \<Rightarrow> string \<Rightarrow> bool" where
  "passes k s \<longleftrightarrow> (\<forall>d part rest. k \<le> d \<longrightarrow> fn_args_loop d False part (s @ rest) = fn_args_loop d False (part @ s) rest)"

lemma passes_Nil: "passes k []"
  by (simp add: passes_def)

lemma passes_append: "passes k s \<Longrightarrow> passes k t \<Longrightarrow> passes k (s @ t)"
  by (simp add: passes_def)

lemma passes_weaken: "passes 0 s \<Longrightarrow> passes k s"
  by (simp add: passes_def)

lemma passes_plain:
  "list_all (\<lambda>c. c \<noteq> dquote \<and> c \<noteq> CHR ''('' \<and> c \<noteq> CHR '')'' \<and> c \<noteq> CHR '','') s \<Longrightarrow> passes 0 s"
proof (induction s)
  case (Cons c s)
  then have "passes 0 [c]" by (simp add: passes_def)
  with Cons show ?case using passes_append[of 0 "[c]" s] by simp
qed (rule passes_Nil)

lemma quoted_pass: "dquote \<notin> set s \<Longrightarrow> fn_args_loop d True part (s @ dquote # rest) = fn_args_loop d False (part @ s @ [dquote]) rest"
  by (induction s arbitrary: part) auto

lemma passes_quoted: "dquote \<notin> set s \<Longrightarrow> passes 0 ([dquote] @ s @ [dquote])"
  by (simp add: passes_def quoted_pass)

lemma passes_comma: "passes 1 '', ''"
  by (simp add: passes_def)

lemma passes_parens: "passes 1 s \<Longrightarrow> passes 0 (''('' @ s @ '')'')"
  by (simp add: passes_def)

lemma passes_join: "list_all (passes 0) ws \<Longrightarrow> passes 1 (join '', '' ws)"
  by (induction ws rule: induct_list012)
    (auto intro: passes_Nil passes_weaken passes_append passes_comma simp del: One_nat_def append.simps)

lemma word_plain: "list_all word_char w \<Longrightarrow> list_all (\<lambda>c. c \<noteq> dquote \<and> c \<noteq> CHR ''('' \<and> c \<noteq> CHR '')'' \<and> c \<noteq> CHR '','') w"
  using word_char_facts(2,3) by (auto simp: list_all_iff)

lemma set_join: "set (join sep ws) \<subseteq> set sep \<union> (\<Union>w \<in> set ws. set w)"
  by (induction sep ws rule: join.induct) auto

lemma path_chars: "list_all word segments \<Longrightarrow> c \<in> set (join ''.'' segments) \<Longrightarrow> word_char c \<or> c = CHR ''.''"
  using set_join[of "''.''" segments] by (fastforce simp: list_all_iff word_def)

lemma int_chars: "c \<in> set (int_to_string n) \<Longrightarrow> is_ascii_digit c \<or> c = CHR ''-''"
  using nat_to_string_digits unfolding int_to_string_def by (auto simp: list_all_iff split: if_splits)

lemma simple_chars:
  assumes "wf_expr e" "\<not> is_call e" "\<And>s. e \<noteq> EString s" "c \<in> set (show_expr e)"
  shows "word_char c \<or> c = CHR ''.'' \<or> c = CHR ''-''"
proof (cases e)
  case (EPath segments)
  then show ?thesis using assms path_chars by (auto simp: path_text_def)
next
  case (EInteger n)
  then show ?thesis using assms int_chars[of c n] by (auto simp: word_char_def is_ascii_alphanumeric_def)
next
  case (EBoolean b)
  have "\<forall>c \<in> set ''true''. word_char c" "\<forall>c \<in> set ''false''. word_char c" by code_simp+
  moreover have "c \<in> set ''true'' \<or> c \<in> set ''false''" using assms(4) EBoolean by (simp only: show_expr.simps split: if_splits) simp_all
  ultimately show ?thesis by blast
next
  case ENil
  have "\<forall>c \<in> set ''nil''. word_char c" by code_simp
  moreover have "c \<in> set ''nil''" using assms(4) ENil by (simp only: show_expr.simps)
  ultimately show ?thesis by blast
qed (use assms in auto)

lemma passes_simple:
  assumes "wf_expr e" "\<not> is_call e" "\<And>s. e \<noteq> EString s"
  shows "passes 0 (show_expr e)"
proof (rule passes_plain, unfold list_all_iff, rule ballI)
  fix c assume "c \<in> set (show_expr e)"
  with simple_chars[OF assms] have "word_char c \<or> c = CHR ''.'' \<or> c = CHR ''-''" by blast
  then show "c \<noteq> dquote \<and> c \<noteq> CHR ''('' \<and> c \<noteq> CHR '')'' \<and> c \<noteq> CHR '',''"
    using word_char_facts(2,3)[of c] by auto
qed

lemma passes_show: "wf_expr e \<Longrightarrow> passes 0 (show_expr e)"
proof (induction e)
  case (EFnCall q args)
  have "list_all (passes 0) (map show_expr args)"
    using EFnCall by (auto simp: list_all_iff)
  then have "passes 0 (''('' @ join '', '' (map show_expr args) @ '')'')" by (intro passes_parens passes_join)
  moreover have "passes 0 (''@fn.'' @ qn_name q)"
    using EFnCall.prems word_plain[of "qn_name q"] by (intro passes_plain) (simp add: word_def)
  ultimately show ?case using passes_append by fastforce
next
  case (EString s)
  then show ?case using passes_quoted[of s] by simp
qed (rule passes_simple; simp)+


lemma fn_args_join:
  assumes "list_all (passes 0) ws" "list_all (\<lambda>w. w \<noteq> [] \<and> tight w) ws"
  shows "ws \<noteq> [] \<Longrightarrow> fn_args_loop 0 False [] (join '', '' ws) = ws"
proof -
  have one: "fn_args_loop 0 False sp w = [w] \<and> (\<forall>r. fn_args_loop 0 False sp (w @ '','' @ r) = w # fn_args_loop 0 False [] r)"
    if "passes 0 w" "w \<noteq> []" "tight w" "sp = [] \<or> sp = '' ''" for w sp
  proof -
    have "trim (sp @ w) = w"
      using that tight_trim[of w] by (cases w) (auto simp: trim_def tight_def char_class_defs)
    moreover have step: "fn_args_loop 0 False sp (w @ r) = fn_args_loop 0 False (sp @ w) r" for r
      using that(1) by (simp add: passes_def)
    ultimately show ?thesis using step[of "[]"] that(2) by simp
  qed
  have "fn_args_loop 0 False sp (join '', '' ws) = ws" if "ws \<noteq> []" "sp = [] \<or> sp = '' ''" for sp
    using assms that
  proof (induction ws arbitrary: sp rule: induct_list012)
    case (2 w)
    then show ?case using one[of w sp] by simp
  next
    case (3 w v ws)
    have "fn_args_loop 0 False [] ('' '' @ join '', '' (v # ws)) = fn_args_loop 0 False '' '' (join '', '' (v # ws))"
      by simp
    with 3 show ?case using one[of w sp] by simp
  qed simp
  then show "ws \<noteq> [] \<Longrightarrow> fn_args_loop 0 False [] (join '', '' ws) = ws" by blast
qed

lemma show_tight: "wf_expr e \<Longrightarrow> tight (show_expr e)"
proof (cases e)
  case (EPath segments)
  assume "wf_expr e"
  with EPath have "list_all tight segments" "segments \<noteq> []"
    by (auto simp: path_text_def word_def list_all_iff tight_def intro!: word_char_facts(1))
  with EPath show ?thesis by (simp add: tight_join)
next
  case (EInteger n)
  have "graphic CHR ''-''" by (simp add: graphic_def)
  then have "\<forall>c \<in> set (int_to_string n). graphic c" using int_chars[of _ n] digit_graphic by blast
  moreover have "int_to_string n \<noteq> []" by (simp add: int_to_string_def)
  ultimately have "\<forall>c \<in> set (int_to_string n). graphic c" "int_to_string n \<noteq> []" .
  with EInteger show ?thesis by (simp add: tight_def)
next
  case (EFnCall q args)
  then show ?thesis by (simp add: tight_def graphic_def)
qed (auto simp: tight_def graphic_def)

lemma parse_i64_other:
  assumes "s \<noteq> []" "\<not> is_ascii_digit (hd s)" "hd s \<noteq> CHR ''-''" "hd s \<noteq> CHR ''+''"
  shows "parse_i64 s = None"
proof -
  obtain c t where s: "s = c # t" using assms(1) by (cases s) auto
  then have "decimal s = None" using assms(2) by (simp add: decimal_def)
  moreover have "parse_i64 s = (case decimal s of None \<Rightarrow> None | Some n \<Rightarrow> if n < 2 ^ 63 then Some (int n) else None)"
    using assms(3,4) s unfolding parse_i64_def by (auto split: char.splits bool.splits)
  ultimately show ?thesis by simp
qed

lemma parse_i64_int_to_string:
  assumes "- (2 ^ 63) \<le> n" "n < 2 ^ 63"
  shows "parse_i64 (int_to_string n) = Some n"
proof (cases "n < 0")
  case True
  then show ?thesis using assms by (simp add: parse_i64_def int_to_string_def)
next
  case False
  obtain c t where s: "nat_to_string (nat n) = c # t" by (cases "nat_to_string (nat n)") auto
  have "is_ascii_digit c" using nat_to_string_hd_digit[of "nat n"] s by simp
  then have "c \<noteq> CHR ''-''" "c \<noteq> CHR ''+''" by (auto simp: is_ascii_digit_def)
  then have "parse_i64 (c # t) = (case decimal (c # t) of None \<Rightarrow> None | Some n \<Rightarrow> if n < 2 ^ 63 then Some (int n) else None)"
    unfolding parse_i64_def by (auto split: char.splits bool.splits)
  then have p: "parse_i64 (nat_to_string (nat n)) = (if nat n < 2 ^ 63 then Some (int (nat n)) else None)"
    unfolding s[symmetric] decimal_nat_to_string option.case .
  have "nat n < 2 ^ 63" using assms(2) False by (simp add: nat_less_iff)
  with p False show ?thesis by (simp add: int_to_string_def)
qed


lemma unquoted_text_iff: "unquoted_text tx = Some u \<longleftrightarrow> tx = [dquote] @ u @ [dquote]"
  by (auto simp: unquoted_text_def bind_eq_Some_conv strip_prefix_Some_iff strip_suffix_Some_iff)

lemma unquoted_text_None: "tx \<noteq> [] \<Longrightarrow> hd tx \<noteq> dquote \<Longrightarrow> unquoted_text tx = None"
  by (cases "unquoted_text tx") (auto simp: unquoted_text_iff)

lemma hd_join: "ws \<noteq> [] \<Longrightarrow> hd ws \<noteq> [] \<Longrightarrow> hd (join sep ws) = hd (hd ws)"
  by (cases ws) (simp_all add: join_glue)

lemma path_text_facts:
  assumes "path_text segments"
  shows "unquoted_text (join ''.'' segments) = None" "parse_i64 (join ''.'' segments) = None"
    "join ''.'' segments \<notin> {''true'', ''false'', ''nil''}" "split_on CHR ''.'' (join ''.'' segments) = segments"
    "parse_fn_call_parts (join ''.'' segments) = None" "map trim segments = segments"
proof -
  let ?t = "join ''.'' segments"
  have seg: "segments \<noteq> []" "list_all word segments" using assms by (simp_all add: path_text_def)
  then have h: "hd segments \<noteq> []" "word_char (hd (hd segments))" by (cases segments; auto simp: word_def list_all_iff)+
  then have hd_t: "hd ?t = hd (hd segments)" "?t \<noteq> []" using seg(1) hd_join[of segments "''.''"]
    by (auto, cases segments, simp_all add: join_glue)
  show "unquoted_text ?t = None" using hd_t word_char_facts(2)[OF h(2)] by (intro unquoted_text_None) auto
  show "parse_i64 ?t = None" using hd_t word_char_facts(4)[OF h(2)] assms by (intro parse_i64_other) (auto simp: path_text_def)
  show spl: "split_on CHR ''.'' ?t = segments"
    using seg word_char_facts(3) by (intro split_on_join) (fastforce simp: list_all_iff word_def)+
  have "split_on CHR ''.'' ''true'' = [''true'']" "split_on CHR ''.'' ''false'' = [''false'']" "split_on CHR ''.'' ''nil'' = [''nil'']"
    by code_simp+
  then show "?t \<notin> {''true'', ''false'', ''nil''}" using spl assms unfolding path_text_def by auto
  show "parse_fn_call_parts ?t = None"
    using hd_t word_char_facts(4)[OF h(2)] by (cases ?t) (auto simp: parse_fn_call_parts_def)
  show "map trim segments = segments"
    using seg(2) word_char_facts(1) by (auto simp: list_all_iff word_def intro!: map_idI trim_all_graphic)
qed


lemma int_text_facts: "unquoted_text (int_to_string n) = None"
proof -
  have "int_to_string n \<noteq> []" by (simp add: int_to_string_def)
  moreover from this have "hd (int_to_string n) \<noteq> dquote"
    using int_chars[of "hd (int_to_string n)" n] by (auto simp: is_ascii_digit_def)
  ultimately show ?thesis by (rule unquoted_text_None)
qed

lemma keyword_facts:
  "unquoted_text ''true'' = None" "unquoted_text ''false'' = None" "unquoted_text ''nil'' = None"
  "parse_i64 ''true'' = None" "parse_i64 ''false'' = None" "parse_i64 ''nil'' = None"
  by code_simp+

lemma call_parts:
  assumes "word name" "list_all wf_expr args"
  shows "parse_fn_call_parts (''@fn.'' @ name @ ''('' @ join '', '' (map show_expr args) @ '')'') = Some (name, map show_expr args)"
proof -
  let ?in = "join '', '' (map show_expr args)"
  let ?rest = "name @ ''('' @ ?in @ '')''"
  have no: "CHR ''('' \<notin> set name" and g: "\<forall>c \<in> set name. graphic c" and ne: "name \<noteq> []"
    using assms(1) word_char_facts(1,3) by (auto simp: word_def list_all_iff)
  have f: "find_char CHR ''('' ?rest = Some (length name)"
    using no by (auto simp: find_char_Some_iff nth_append)
  have en: "ends_with ?rest '')''" by (simp add: ends_with_iff)
  have args: "(if trim ?in = [] then [] else split_fn_call_args ?in) = map show_expr args"
  proof (cases "args = []")
    case False
    then have "tight ?in" using assms(2) show_tight by (intro tight_join) (auto simp: list_all_iff)
    then have "trim ?in = ?in" "?in \<noteq> []" by (auto simp: tight_trim tight_def)
    moreover have "fn_args_loop 0 False [] ?in = map show_expr args"
      using assms(2) show_tight passes_show False
      by (intro fn_args_join) (auto simp: list_all_iff tight_def)
    ultimately show ?thesis by (simp add: split_fn_call_args_def)
  qed simp
  have p: "strip_prefix ''@fn.'' (''@fn.'' @ ?rest) = Some ?rest" by (rule strip_prefix_append)
  have "parse_fn_call_parts (''@fn.'' @ ?rest) = Some (name, if trim ?in = [] then [] else split_fn_call_args ?in)"
    unfolding parse_fn_call_parts_def p option.case f using en g ne by (simp add: Let_def trim_all_graphic)
  then show ?thesis unfolding args .
qed

lemma lower_show: "wf_expr e \<Longrightarrow> lower_raw_expr (show_expr e) = e"
proof (induction e)
  case (EPath segments)
  then show ?case
    using path_text_facts[of segments] tight_trim[OF show_tight[OF EPath.prems]] by (simp add: lower_raw_expr.simps)
next
  case (EString s)
  then show ?case
    using tight_trim[OF show_tight[OF EString.prems]] unquoted_text_iff[of "show_expr (EString s)" s]
    by (simp add: lower_raw_expr.simps)
next
  case (EInteger n)
  then show ?case
    using tight_trim[OF show_tight[OF EInteger.prems]] int_text_facts[of n] parse_i64_int_to_string[of n]
    by (simp add: lower_raw_expr.simps)
next
  case (EBoolean b)
  then show ?case
    using tight_trim[OF show_tight[OF EBoolean.prems]] keyword_facts by (cases b) (simp_all add: lower_raw_expr.simps)
next
  case ENil
  then show ?case
    using tight_trim[OF show_tight[OF ENil.prems]] keyword_facts by (simp add: lower_raw_expr.simps)
next
  case (EFnCall q args)
  let ?t = "show_expr (EFnCall q args)"
  have "unquoted_text ?t = None" "parse_i64 ?t = None"
    by (rule unquoted_text_None parse_i64_other; simp add: is_ascii_digit_def)+
  moreover have "parse_fn_call_parts ?t = Some (qn_name q, map show_expr args)"
    using EFnCall.prems call_parts[of "qn_name q" args] by simp
  moreover have "map lower_raw_expr (map show_expr args) = args"
    using EFnCall by (auto simp: list_all_iff intro!: map_idI)
  moreover have "\<lparr>qn_feature = None, qn_name = qn_name q\<rparr> = q" using EFnCall.prems by simp
  moreover have "?t \<notin> {''true'', ''false'', ''nil''}" by simp
  ultimately show ?case
    unfolding lower_raw_expr.simps[of ?t] Let_def tight_trim[OF show_tight[OF EFnCall.prems]] by simp
qed simp

text \<open>
  C30. An expression printed as source text is read back by \<^verbatim>\<open>lower_raw_expr\<close> as the same expression:
  dotted paths, string literals (parentheses and commas inside them do not split arguments), every 64-bit
  integer, booleans, \<^verbatim>\<open>nil\<close>, and calls \<^verbatim>\<open>@fn.name(...)\<close> nested to any depth.
\<close>

theorem expr_roundtrip:
  assumes "wf_expr e"
  shows "lower_raw_expr (show_expr e) = e"
  using assms by (rule lower_show)

theorem expr_roundtrip_witness:
  "lower_raw_expr (show_expr (EFnCall \<lparr>qn_feature = None, qn_name = ''hash''\<rparr>
      [EPath [''input'', ''password''], EFnCall \<lparr>qn_feature = None, qn_name = ''salt''\<rparr> [], EString '', ('', EInteger (- 7)])) =
   EFnCall \<lparr>qn_feature = None, qn_name = ''hash''\<rparr>
      [EPath [''input'', ''password''], EFnCall \<lparr>qn_feature = None, qn_name = ''salt''\<rparr> [], EString '', ('', EInteger (- 7)]"
proof (rule expr_roundtrip)
  have "path_text [''input'', ''password'']" "word ''hash''" "word ''salt''" by code_simp+
  then show "wf_expr (EFnCall \<lparr>qn_feature = None, qn_name = ''hash''\<rparr>
      [EPath [''input'', ''password''], EFnCall \<lparr>qn_feature = None, qn_name = ''salt''\<rparr> [], EString '', ('', EInteger (- 7)])"
    by simp
qed

lemma expr_from_text_show:
  assumes "wf_expr e" "\<not> is_call e"
  shows "expr_from_text (show_expr e) = e"
proof -
  have t: "trim (show_expr e) = show_expr e" using tight_trim[OF show_tight[OF assms(1)]] .
  show ?thesis
  proof (cases e)
    case (EPath segments)
    then show ?thesis using t assms path_text_facts[of segments] by (simp add: expr_from_text_def)
  next
    case (EString s)
    then show ?thesis using t unquoted_text_iff[of "show_expr e" s] by (simp add: expr_from_text_def)
  next
    case (EInteger n)
    then show ?thesis using t assms int_text_facts[of n] parse_i64_int_to_string[of n] by (simp add: expr_from_text_def)
  next
    case (EBoolean b)
    then show ?thesis using t keyword_facts by (cases b) (simp_all add: expr_from_text_def)
  next
    case ENil
    then show ?thesis using t keyword_facts by (simp add: expr_from_text_def)
  qed (use assms in simp_all)
qed

section \<open>Printed predicates are read back\<close>

fun show_op :: "CompareOp \<Rightarrow> string" where
  "show_op Eq = ''==''" | "show_op Ne = ''!=''" | "show_op Lt = ''<''" | "show_op Le = ''<=''"
| "show_op Gt = ''>''" | "show_op Ge = ''>=''"

lemma operator_skips_plain:
  "op \<noteq> [] \<Longrightarrow> list_all (\<lambda>c. c \<noteq> dquote \<and> \<not> is_continuation c \<and> c \<noteq> hd op) s \<Longrightarrow>
    top_level_operator op False k (s @ rest) = top_level_operator op False (k + length s) rest"
proof (induction s arbitrary: k)
  case (Cons c s)
  then have "\<not> starts_with (c # s @ rest) op" by (cases op) (auto simp: starts_with_iff)
  with Cons show ?case by simp
qed simp

lemma operator_skips_quoted:
  "dquote \<notin> set s \<Longrightarrow> top_level_operator op True k (s @ dquote # rest) = top_level_operator op False (k + length s + 1) rest"
  by (induction s arbitrary: k) auto

lemma operator_skips_show:
  assumes "wf_expr e" "\<not> is_call e" "op \<noteq> []" "hd op \<in> {CHR ''<'', CHR ''>'', CHR ''!'', CHR ''=''}"
  shows "top_level_operator op False k (show_expr e @ rest) = top_level_operator op False (k + length (show_expr e)) rest"
proof (cases "\<exists>s. e = EString s")
  case True
  then show ?thesis using assms(1) operator_skips_quoted by auto
next
  case False
  have "list_all (\<lambda>c. c \<noteq> dquote \<and> \<not> is_continuation c \<and> c \<noteq> hd op) (show_expr e)"
    unfolding list_all_iff
  proof
    fix c assume "c \<in> set (show_expr e)"
    then have c: "word_char c \<or> c = CHR ''.'' \<or> c = CHR ''-''" using simple_chars assms(1,2) False by blast
    have "\<not> is_continuation CHR ''.''" "\<not> is_continuation CHR ''-''" by code_simp+
    with c show "c \<noteq> dquote \<and> \<not> is_continuation c \<and> c \<noteq> hd op"
      using word_char_facts(2,5,6)[of c] assms(4) by auto
  qed
  then show ?thesis using operator_skips_plain[OF assms(3)] by blast
qed


definition show_comparison :: "Expr \<Rightarrow> CompareOp \<Rightarrow> Expr \<Rightarrow> string" where
  "show_comparison l op r = show_expr l @ '' '' @ show_op op @ '' '' @ show_expr r"

definition plain_operand :: "Expr \<Rightarrow> bool" where
  "plain_operand e \<longleftrightarrow> wf_expr e \<and> \<not> is_call e"

lemma find_operator_comparison:
  assumes l: "plain_operand l" and r: "plain_operand r" and tok: "(token, op') \<in> set compare_tokens"
    and earlier: "op \<in> {Lt, Gt} \<or> op' \<notin> {Lt, Gt} \<or> op = Eq \<or> op = Ne"
  shows "find_top_level_operator (show_comparison l op r) token =
    Ok (if op = op' then Some (length (show_expr l) + 1) else None)"
proof -
  have tk: "token \<noteq> []" "hd token \<in> {CHR ''<'', CHR ''>'', CHR ''!'', CHR ''=''}"
    using tok by (auto simp: compare_tokens_def)
  have sp: "\<not> is_continuation CHR '' ''" "\<not> is_continuation CHR ''<''" "\<not> is_continuation CHR ''>''"
    "\<not> is_continuation CHR ''!''" "\<not> is_continuation CHR ''=''" by code_simp+
  have tail: "top_level_operator token False k (show_expr r) = Ok None" for k
    using operator_skips_show[of r token k "[]"] r tk by (simp add: plain_operand_def)
  have "find_top_level_operator (show_comparison l op r) token =
      top_level_operator token False (length (show_expr l)) ('' '' @ show_op op @ '' '' @ show_expr r)"
    using operator_skips_show[of l token 0] l tk
    by (simp add: find_top_level_operator_def show_comparison_def plain_operand_def)
  also have "\<dots> = Ok (if op = op' then Some (length (show_expr l) + 1) else None)"
    using tok earlier tail sp by (cases op) (auto simp: compare_tokens_def starts_with_def)
  finally show ?thesis .
qed


lemma comparison_parts:
  assumes "plain_operand l" "plain_operand r"
  shows "trim (show_comparison l op r) = show_comparison l op r"
    "trim (take (length (show_expr l) + 1) (show_comparison l op r)) = show_expr l"
    "trim (drop (length (show_op op)) (drop (length (show_expr l) + 1) (show_comparison l op r))) = show_expr r"
proof -
  have t: "tight (show_expr l)" "tight (show_expr r)" using assms show_tight by (auto simp: plain_operand_def)
  then show "trim (show_comparison l op r) = show_comparison l op r"
    using tight_append[of "show_expr l" "show_expr r" "'' '' @ show_op op @ '' ''"] tight_trim
    by (simp add: show_comparison_def)
  have ws: "ws1 CHR '' ''" by (simp add: ws1_def)
  have "trim_start (show_expr l @ '' '') = show_expr l @ '' ''"
    using t(1) by (cases "show_expr l") (auto simp: tight_def)
  then have "trim (show_expr l @ '' '') = show_expr l"
    using t(1) trim_end_space[OF ws, of "show_expr l"] trim_end_graphic_last[of "show_expr l"] by (simp add: trim_def tight_def)
  then show "trim (take (length (show_expr l) + 1) (show_comparison l op r)) = show_expr l"
    by (simp add: show_comparison_def)
  have "trim ('' '' @ show_expr r) = show_expr r"
    using t(2) ws tight_trim[of "show_expr r"] by (simp add: trim_def)
  then show "trim (drop (length (show_op op)) (drop (length (show_expr l) + 1) (show_comparison l op r))) = show_expr r"
    by (simp add: show_comparison_def)
qed

lemma comparison_loop_show:
  assumes "plain_operand l" "plain_operand r"
  shows "comparison_loop (show_comparison l op r) compare_tokens = Ok (Some (show_expr l, op, show_expr r))"
proof -
  note f = find_operator_comparison[OF assms]
  have m: "(''<='', Le) \<in> set compare_tokens" "(''>='', Ge) \<in> set compare_tokens" "(''!='', Ne) \<in> set compare_tokens"
    "(''<'', Lt) \<in> set compare_tokens" "(''>'', Gt) \<in> set compare_tokens" "(''=='', Eq) \<in> set compare_tokens"
    by (simp_all add: compare_tokens_def)
  have parts: "trim (take (length (show_expr l) + 1) (show_comparison l op r)) = show_expr l"
    "trim (drop (length (show_op op)) (drop (length (show_expr l) + 1) (show_comparison l op r))) = show_expr r"
    using comparison_parts[OF assms] by blast+
  show ?thesis
    using f[OF m(1), of op] f[OF m(2), of op] f[OF m(3), of op] f[OF m(4), of op] f[OF m(5), of op] f[OF m(6), of op] parts
    unfolding compare_tokens_def by (cases op) simp_all
qed

text \<open>
  C38. A closed predicate printed from two operands and a comparison operator is read back as exactly
  that comparison: the operator is found whatever the operands are (operators inside string literals are
  skipped, \<^verbatim>\<open><=\<close> is not taken for \<^verbatim>\<open><\<close>), and both operands come back with their kind, 64-bit integers
  and text that is not ASCII inside quotes included.
\<close>

theorem closed_predicate_roundtrip:
  assumes "plain_operand l" "plain_operand r"
  shows "parse_closed_predicate (show_comparison l op r) = Ok (Closed (Comparison l op r))"
proof -
  have "show_expr l \<noteq> []" "show_expr r \<noteq> []" using assms show_tight by (auto simp: plain_operand_def tight_def)
  moreover have "expr_from_text (show_expr l) = l" "expr_from_text (show_expr r) = r"
    using assms expr_from_text_show by (auto simp: plain_operand_def)
  ultimately show ?thesis
    unfolding parse_closed_predicate_def comparison_parts(1)[OF assms] comparison_loop_show[OF assms] by simp
qed

theorem closed_predicate_roundtrip_witness:
  "parse_closed_predicate (show_comparison (EPath [''input'', ''age'']) Le (EString ''a < b'')) =
     Ok (Closed (Comparison (EPath [''input'', ''age'']) Le (EString ''a < b'')))"
proof (rule closed_predicate_roundtrip)
  have "path_text [''input'', ''age'']" by code_simp
  then show "plain_operand (EPath [''input'', ''age''])" by (simp add: plain_operand_def)
  show "plain_operand (EString ''a < b'')" by (simp add: plain_operand_def)
qed

section \<open>Panics\<close>

lemma comparison_loop_panics:
  "(\<exists>p. comparison_loop tx compare_tokens = Err p) \<longleftrightarrow> (\<exists>i. split_at tx i \<and> (\<forall>m < i. \<not> op_at ''<='' tx m))"
proof -
  have rest: "\<exists>r. comparison_loop tx ts = Ok r" if whole: "\<And>m. \<not> split_at tx m" for ts
  proof (induction ts)
    case (Cons t ts)
    obtain token op where t: "t = (token, op)" by fastforce
    obtain f where "find_top_level_operator tx token = Ok f"
      by (cases rule: find_top_level_operator_cases[of tx token]) (use whole in blast)+
    with Cons t show ?case by (cases f) auto
  qed simp
  show ?thesis
  proof (cases rule: find_top_level_operator_cases[of tx "''<=''"])
    case (panic i)
    then show ?thesis by (auto simp: compare_tokens_def)
  next
    case (found i)
    have "\<not> (split_at tx j \<and> (\<forall>m < j. \<not> op_at ''<='' tx m))" for j
      using found(2-4) by (metis linorder_cases)
    with found(1) show ?thesis by (simp add: compare_tokens_def)
  next
    case absent
    then show ?thesis using rest[of compare_tokens] by auto
  qed
qed

text \<open>
  C17. Lowering a closed predicate never returns an error of its own, but it panics, exactly when some
  character outside double quotes takes more than one byte and no \<^verbatim>\<open><=\<close> outside quotes comes before it:
  the operator search slices the text at every byte. So \<^verbatim>\<open>nome == ma\<dots>\<close> aborts the compiler while
  \<^verbatim>\<open>nome <= ma\<dots>\<close> and quoted text do not.
\<close>

theorem parse_closed_predicate_panics_iff:
  "(\<exists>p. parse_closed_predicate tx = Err p) \<longleftrightarrow>
     (\<exists>i. split_at (trim tx) i \<and> (\<forall>m < i. \<not> op_at ''<='' (trim tx) m))"
proof -
  have "(\<exists>p. parse_closed_predicate tx = Err p) \<longleftrightarrow> (\<exists>p. comparison_loop (trim tx) compare_tokens = Err p)"
    by (cases "comparison_loop (trim tx) compare_tokens") (simp_all add: parse_closed_predicate_def)
  then show ?thesis using comparison_loop_panics by blast
qed

lemma below_upt: "list_all P [0..<n] \<longleftrightarrow> (\<forall>m < n. P m)"
  by (auto simp: list_all_iff)

theorem parse_closed_predicate_panics_iff_witness:
  "(\<exists>p. parse_closed_predicate (''a == '' @ [CHR 0xC3, CHR 0xA9]) = Err p) \<and>
   (\<nexists>p. parse_closed_predicate (''a == '' @ [dquote, CHR 0xC3, CHR 0xA9, dquote]) = Err p)"
proof -
  have t: "trim (''a == '' @ [CHR 0xC3, CHR 0xA9]) = ''a == '' @ [CHR 0xC3, CHR 0xA9]"
    "trim (''a == '' @ [dquote, CHR 0xC3, CHR 0xA9, dquote]) = ''a == '' @ [dquote, CHR 0xC3, CHR 0xA9, dquote]"
    by code_simp+
  have "split_at (''a == '' @ [CHR 0xC3, CHR 0xA9]) 6" by code_simp
  moreover have "list_all (\<lambda>m. \<not> op_at ''<='' (''a == '' @ [CHR 0xC3, CHR 0xA9]) m) [0..<6]" by code_simp
  then have "\<forall>m < 6. \<not> op_at ''<='' (''a == '' @ [CHR 0xC3, CHR 0xA9]) m"
    unfolding below_upt .
  moreover have "\<not> split_at (''a == '' @ [dquote, CHR 0xC3, CHR 0xA9, dquote]) i" for i
  proof -
    have "list_all (\<lambda>i. \<not> split_at (''a == '' @ [dquote, CHR 0xC3, CHR 0xA9, dquote]) i) [0..<9]" by code_simp
    then have "i < 9 \<Longrightarrow> ?thesis" unfolding below_upt by blast
    moreover have "length (''a == '' @ [dquote, CHR 0xC3, CHR 0xA9, dquote]) = 9" by simp
    ultimately show ?thesis unfolding split_at_def unquoted_def by metis
  qed
  ultimately show ?thesis
    unfolding parse_closed_predicate_panics_iff t by blast
qed

text \<open>Every \<^verbatim>\<open>in\<close> search of an emit predicate returns.\<close>

lemma emit_search_returns: "\<exists>r. find_word tx ''in'' = Some r"
  unfolding find_word_def by (rule find_word_returns) simp

end
