(* ===== verification/Crud_Overlay_Syntax.thy ===== *)
theory Crud_Overlay_Syntax
  imports Source_Text
begin

text \<open>
  The parser of the \<^verbatim>\<open>crud\<close> block of a resource (\<^verbatim>\<open>lzi/resource/crud_overlay.rs\<close>), which adapts the
  commands that \<^verbatim>\<open>conventions [crud]\<close> synthesizes: per effect a policy, validators, fields taken out of
  the input, assignments and events. An index into the lines is a natural number, the locals of a loop are
  its accumulating arguments.

  Shown here: the parser stays inside the file, and a printed block is read back clause by clause, in
  whatever order the effects and clauses come.
\<close>

section \<open>Clauses\<close>

record assignment_decl =
  ad_field :: string
  ad_value :: string
  ad_span :: span

record crud_effect_overlay_ast =
  ce_policy :: "string option"
  ce_validate :: "string list"
  ce_input_excludes :: "string list"
  ce_assigns :: "assignment_decl list"
  ce_emits :: "string list"
  ce_span :: span

record crud_overlay_ast =
  ca_create :: "crud_effect_overlay_ast option"
  ca_update :: "crud_effect_overlay_ast option"
  ca_delete :: "crud_effect_overlay_ast option"
  ca_span :: span

definition overlay_clause ::
  "source_line \<Rightarrow> string \<Rightarrow> crud_effect_overlay_ast \<Rightarrow> (ParseError, crud_effect_overlay_ast) result" where
  "overlay_clause line trimmed effect =
     (case strip_prefix ''policy '' trimmed of
        Some rest \<Rightarrow>
          (let value = trim rest in
           if value = [] then Err (line_error line ''`policy` requires a policy reference'')
           else if ce_policy effect \<noteq> None
           then Err (line_error line ''a `crud` overlay sub-block may declare at most one `policy`'')
           else Ok (effect\<lparr>ce_policy := Some value\<rparr>))
      | None \<Rightarrow>
     (case strip_prefix ''validate '' trimmed of
        Some rest \<Rightarrow>
          (let value = trim rest in
           if value = [] then Err (line_error line ''`validate` requires a validator reference'')
           else Ok (effect\<lparr>ce_validate := ce_validate effect @ [value]\<rparr>))
      | None \<Rightarrow>
     (case strip_prefix ''input '' trimmed of
        Some rest \<Rightarrow>
          (case strip_prefix ''excludes '' (trim rest) of
             None \<Rightarrow> Err (line_error line ''`crud` overlay `input` clause must be `input excludes <field>, ...`'')
           | Some list \<Rightarrow>
               (let names = filter (\<lambda>f. f \<noteq> []) (map trim (split_on CHR '','' list)) in
                if names = [] then Err (line_error line ''`input excludes` requires at least one field name'')
                else Ok (effect\<lparr>ce_input_excludes := ce_input_excludes effect @ names\<rparr>)))
      | None \<Rightarrow>
     (case strip_prefix ''assign '' trimmed of
        Some rest \<Rightarrow>
          (case split_once CHR ''='' (trim rest) of
             None \<Rightarrow> Err (line_error line ''`assign` requires `<field> = <expr>`'')
           | Some (field, value) \<Rightarrow>
               if trim field = [] then Err (line_error line ''`assign` requires a field name before `=`'')
               else if trim value = [] then Err (line_error line ''`assign` requires an expression after `=`'')
               else Ok (effect\<lparr>ce_assigns := ce_assigns effect @
                 [\<lparr>ad_field = trim field, ad_value = trim value, ad_span = Span (sl_start line) (sl_end line)\<rparr>]\<rparr>))
      | None \<Rightarrow>
     (case strip_prefix ''emits '' trimmed of
        Some rest \<Rightarrow>
          (let value = trim rest in
           if value = [] then Err (line_error line ''`emits` requires an event name'')
           else Ok (effect\<lparr>ce_emits := ce_emits effect @
             filter (\<lambda>n. n \<noteq> []) (map trim (split_on CHR '','' value))\<rparr>))
      | None \<Rightarrow> Err (line_error line
          ''`crud` overlay clauses are `policy`, `validate`, `input excludes`, `assign`, or `emits`''))))))"

function overlay_clause_loop ::
  "nat \<Rightarrow> nat \<Rightarrow> source_line list \<Rightarrow> nat \<Rightarrow> crud_effect_overlay_ast \<Rightarrow> nat \<Rightarrow>
   (ParseError, (crud_effect_overlay_ast \<times> nat) \<times> nat) result" where
  "overlay_clause_loop header_indent clause_indent ls i effect last_end =
     (if i < length ls then
        let line = ls ! i; trimmed = trim_start (sl_text line) in
        if is_trivia trimmed then overlay_clause_loop header_indent clause_indent ls (i + 1) effect last_end
        else if sl_indent line \<le> header_indent then Ok ((effect, last_end), i)
        else if sl_indent line \<noteq> clause_indent then Err (line_error line
          ''`crud` overlay clauses use one indentation level deeper than the `create`/`update`/`delete` sub-header'')
        else try_bind (overlay_clause line trimmed effect) (\<lambda>effect'.
          overlay_clause_loop header_indent clause_indent ls (i + 1) effect' (sl_end line))
      else Ok ((effect, last_end), i))"
  by pat_completeness auto
termination by (relation "measure (\<lambda>(h, c, ls, i, e, l). length ls - i)") auto

declare overlay_clause_loop.simps [simp del]

definition empty_effect :: "span \<Rightarrow> crud_effect_overlay_ast" where
  "empty_effect span = \<lparr>ce_policy = None, ce_validate = [], ce_input_excludes = [], ce_assigns = [], ce_emits = [],
     ce_span = span\<rparr>"

definition parse_effect_overlay ::
  "source_line list \<Rightarrow> nat \<Rightarrow> nat \<Rightarrow> (ParseError, crud_effect_overlay_ast \<times> nat) result" where
  "parse_effect_overlay ls start clause_indent =
     (let header = ls ! start in
      try_bind (overlay_clause_loop (sl_indent header) clause_indent ls (start + 1)
          (empty_effect (Span (sl_start header) (sl_end header))) (sl_end header))
        (\<lambda>((effect, last_end), i). Ok (effect\<lparr>ce_span := Span (sl_start header) last_end\<rparr>, i)))"

lemma overlay_clause_loop_bounds:
  "overlay_clause_loop h c ls i e l = Ok (r, n) \<Longrightarrow> i \<le> n \<and> (i \<le> length ls \<longrightarrow> n \<le> length ls)"
proof (induction i arbitrary: c e l rule: index_induct[where n = "length ls"])
  case (step i)
  show ?case
  proof (cases "i < length ls")
    case True
    note IH = step.IH[OF this]
    from step.prems True show ?thesis
      by (subst (asm) overlay_clause_loop.simps) (auto simp: Let_def split: if_splits dest!: IH[rotated])
  next
    case False
    with step.prems show ?thesis by (subst (asm) overlay_clause_loop.simps) auto
  qed
qed

lemma effect_overlay_bounds:
  "parse_effect_overlay ls start c = Ok (e, n) \<Longrightarrow> start < n \<and> (start < length ls \<longrightarrow> n \<le> length ls)"
  by (auto simp: parse_effect_overlay_def Let_def dest!: overlay_clause_loop_bounds)

interpretation effect_overlay_parser: block_parser "\<lambda>ls start. parse_effect_overlay ls start clause_indent"
  by unfold_locales (auto dest: effect_overlay_bounds)

section \<open>The block\<close>

datatype CrudEffectKind = CreateEffect | UpdateEffect | DeleteEffect

fun effect_label :: "CrudEffectKind \<Rightarrow> string" where
  "effect_label CreateEffect = ''create''"
| "effect_label UpdateEffect = ''update''"
| "effect_label DeleteEffect = ''delete''"

definition effect_kind_of :: "string \<Rightarrow> CrudEffectKind option" where
  "effect_kind_of trimmed =
     (if trimmed = ''create'' then Some CreateEffect else if trimmed = ''update'' then Some UpdateEffect
      else if trimmed = ''delete'' then Some DeleteEffect else None)"

fun overlay_slot :: "CrudEffectKind \<Rightarrow> crud_overlay_ast \<Rightarrow> crud_effect_overlay_ast option" where
  "overlay_slot CreateEffect ov = ca_create ov"
| "overlay_slot UpdateEffect ov = ca_update ov"
| "overlay_slot DeleteEffect ov = ca_delete ov"

definition overlay_has :: "crud_overlay_ast \<Rightarrow> CrudEffectKind \<Rightarrow> bool" where
  "overlay_has ov kind \<longleftrightarrow> overlay_slot kind ov \<noteq> None"

fun overlay_set :: "CrudEffectKind \<Rightarrow> crud_effect_overlay_ast \<Rightarrow> crud_overlay_ast \<Rightarrow> crud_overlay_ast" where
  "overlay_set CreateEffect effect ov = ov\<lparr>ca_create := Some effect\<rparr>"
| "overlay_set UpdateEffect effect ov = ov\<lparr>ca_update := Some effect\<rparr>"
| "overlay_set DeleteEffect effect ov = ov\<lparr>ca_delete := Some effect\<rparr>"

function overlay_loop ::
  "nat \<Rightarrow> nat \<Rightarrow> source_line list \<Rightarrow> nat \<Rightarrow> crud_overlay_ast \<Rightarrow> nat \<Rightarrow>
   (ParseError, (crud_overlay_ast \<times> nat) \<times> nat) result" where
  "overlay_loop crud_indent header_indent ls i overlay last_end =
     (if i < length ls then
        let line = ls ! i; trimmed = trim_start (sl_text line) in
        if is_trivia trimmed then overlay_loop crud_indent header_indent ls (i + 1) overlay last_end
        else if sl_indent line \<le> crud_indent then Ok ((overlay, last_end), i)
        else if sl_indent line \<noteq> header_indent + 4 then Err (line_error line
          ''`crud` overlay sub-blocks (`create`/`update`/`delete`) use one indentation level deeper than the `crud` header'')
        else (case effect_kind_of trimmed of
          None \<Rightarrow> Err (line_error_owned line
            (''`crud` overlay sub-blocks are `create`, `update`, or `delete` (got `'' @ trimmed @ ''`)''))
        | Some kind \<Rightarrow>
            if overlay_has overlay kind then Err (line_error_owned line
              (''duplicate `'' @ effect_label kind @ ''` sub-block in the `crud` overlay '' @
               [CHR 0xE2, CHR 0x80, CHR 0x94] @ '' declare each effect at most once''))
            else try_bind (parse_effect_overlay ls i (header_indent + 6)) (\<lambda>(effect, next').
              overlay_loop crud_indent header_indent ls next' (overlay_set kind effect overlay)
                (sl_end (ls ! max (next' - 1) i))))
      else Ok ((overlay, last_end), i))"
  by pat_completeness auto
termination
  by (relation "measure (\<lambda>(c, h, ls, i, ov, l). length ls - i)") (auto dest: effect_overlay_bounds)

declare overlay_loop.simps [simp del]

definition parse_resource_crud_overlay ::
  "source_line list \<Rightarrow> nat \<Rightarrow> nat \<Rightarrow> (ParseError, crud_overlay_ast \<times> nat) result" where
  "parse_resource_crud_overlay ls start header_indent =
     (let header = ls ! start in
      try_bind (overlay_loop (sl_indent header) header_indent ls (start + 1)
          \<lparr>ca_create = None, ca_update = None, ca_delete = None, ca_span = Span (sl_start header) (sl_end header)\<rparr>
          (sl_end header))
        (\<lambda>((overlay, last_end), i).
          if ca_create overlay = None \<and> ca_update overlay = None \<and> ca_delete overlay = None
          then Err (line_error header
            (''`crud` overlay requires at least one `create`/`update`/`delete` sub-block '' @
             [CHR 0xE2, CHR 0x80, CHR 0x94] @
             '' omit the `crud` block entirely if there is no per-effect overlay''))
          else Ok (overlay\<lparr>ca_span := Span (sl_start header) last_end\<rparr>, i)))"

lemma overlay_loop_bounds:
  "overlay_loop c h ls i ov l = Ok (r, n) \<Longrightarrow> i \<le> n \<and> (i \<le> length ls \<longrightarrow> n \<le> length ls)"
proof (induction i arbitrary: ov l rule: index_induct[where n = "length ls"])
  case (step i)
  show ?case
  proof (cases "i < length ls")
    case True
    note IH = step.IH[OF this]
    from step.prems True show ?thesis
      by (subst (asm) overlay_loop.simps)
        (auto simp: Let_def split: if_splits option.splits dest!: IH[rotated] effect_overlay_bounds)
  next
    case False
    with step.prems show ?thesis by (subst (asm) overlay_loop.simps) auto
  qed
qed

lemma crud_overlay_bounds:
  "parse_resource_crud_overlay ls start h = Ok (ov, n) \<Longrightarrow> start < n \<and> (start < length ls \<longrightarrow> n \<le> length ls)"
  by (auto simp: parse_resource_crud_overlay_def Let_def dest!: overlay_loop_bounds split: if_splits)

interpretation crud_overlay_parser: block_parser "\<lambda>ls start. parse_resource_crud_overlay ls start header_indent"
  by unfold_locales (auto dest: crud_overlay_bounds)

section \<open>Printed blocks are read back\<close>

text \<open>What an author writes: per effect a sequence of clauses, in any order.\<close>

datatype overlay_item =
    ItPolicy string | ItValidate string | ItExcludes "string list" | ItAssign string string | ItEmits "string list"

fun show_item :: "overlay_item \<Rightarrow> string" where
  "show_item (ItPolicy p) = ''policy '' @ p"
| "show_item (ItValidate v) = ''validate '' @ v"
| "show_item (ItExcludes fs) = ''input excludes '' @ join '', '' fs"
| "show_item (ItAssign f v) = ''assign '' @ f @ '' = '' @ v"
| "show_item (ItEmits es) = ''emits '' @ join '', '' es"

definition plain_names :: "string list \<Rightarrow> bool" where
  "plain_names ns \<longleftrightarrow> ns \<noteq> [] \<and> list_all (\<lambda>n. tight n \<and> CHR '','' \<notin> set n) ns"

fun wf_item :: "overlay_item \<Rightarrow> bool" where
  "wf_item (ItPolicy p) = tight p"
| "wf_item (ItValidate v) = tight v"
| "wf_item (ItExcludes fs) = plain_names fs"
| "wf_item (ItAssign f v) = (tight f \<and> CHR ''='' \<notin> set f \<and> tight v)"
| "wf_item (ItEmits es) = plain_names es"

record overlay_content =
  oc_policy :: "string option"
  oc_validate :: "string list"
  oc_excludes :: "string list"
  oc_assigns :: "(string \<times> string) list"
  oc_emits :: "string list"

definition content_of :: "crud_effect_overlay_ast \<Rightarrow> overlay_content" where
  "content_of e = \<lparr>oc_policy = ce_policy e, oc_validate = ce_validate e, oc_excludes = ce_input_excludes e,
     oc_assigns = map (\<lambda>a. (ad_field a, ad_value a)) (ce_assigns e), oc_emits = ce_emits e\<rparr>"

fun add_item :: "overlay_item \<Rightarrow> overlay_content \<Rightarrow> overlay_content" where
  "add_item (ItPolicy p) c = c\<lparr>oc_policy := Some p\<rparr>"
| "add_item (ItValidate v) c = c\<lparr>oc_validate := oc_validate c @ [v]\<rparr>"
| "add_item (ItExcludes fs) c = c\<lparr>oc_excludes := oc_excludes c @ fs\<rparr>"
| "add_item (ItAssign f v) c = c\<lparr>oc_assigns := oc_assigns c @ [(f, v)]\<rparr>"
| "add_item (ItEmits es) c = c\<lparr>oc_emits := oc_emits c @ es\<rparr>"

definition items_content :: "overlay_item list \<Rightarrow> overlay_content" where
  "items_content its = fold add_item its
     \<lparr>oc_policy = None, oc_validate = [], oc_excludes = [], oc_assigns = [], oc_emits = []\<rparr>"

definition is_policy_item :: "overlay_item \<Rightarrow> bool" where
  "is_policy_item it \<longleftrightarrow> (case it of ItPolicy _ \<Rightarrow> True | _ \<Rightarrow> False)"

definition wf_items :: "overlay_item list \<Rightarrow> bool" where
  "wf_items its \<longleftrightarrow> list_all wf_item its \<and> length (filter is_policy_item its) \<le> 1"

lemma trim_after_space: "trim (CHR '' '' # s) = trim s" "trim_end (s @ '' '') = trim_end s"
  by (simp_all add: trim_def trim_start_space trim_end_space char_class_defs)

lemma plain_names_read:
  assumes "plain_names ns"
  shows "filter (\<lambda>n. n \<noteq> []) (map trim (split_on CHR '','' (join '', '' ns))) = ns"
proof -
  obtain w ws where ns: "ns = w # ws" using assms by (cases ns) (auto simp: plain_names_def)
  have "split_on CHR '','' (join '', '' ns) = w # map ((#) CHR '' '') ws"
    using assms split_on_join[of "w # map ((#) CHR '' '') ws" "CHR '',''"]
    by (auto simp: ns join_comma_space plain_names_def list_all_iff)
  moreover have "trim (CHR '' '' # v) = v" if "v \<in> set ws" for v
    using assms that tight_trim[of v] by (simp add: ns plain_names_def list_all_iff trim_after_space)
  moreover have "map trim ns = ns"
    using assms tight_trim by (auto simp: plain_names_def list_all_iff intro!: map_idI)
  ultimately have "map trim (split_on CHR '','' (join '', '' ns)) = ns" by (simp add: ns map_idI)
  moreover have "filter (\<lambda>n. n \<noteq> []) ns = ns"
    using assms by (auto simp: plain_names_def list_all_iff tight_def filter_id_conv)
  ultimately show ?thesis by simp
qed

lemma plain_names_tight: "plain_names ns \<Longrightarrow> tight (join '', '' ns)"
  by (rule tight_join) (auto simp: plain_names_def list_all_iff)

lemma overlay_clause_item:
  assumes "wf_item it" "is_policy_item it \<Longrightarrow> ce_policy e = None"
  shows "\<exists>e'. overlay_clause line (show_item it) e = Ok e' \<and> content_of e' = add_item it (content_of e) \<and>
    (ce_policy e' \<noteq> None \<longleftrightarrow> ce_policy e \<noteq> None \<or> is_policy_item it)"
proof (cases it)
  case (ItAssign f v)
  have v: "trim (CHR '' '' # v) = v" "trim v = v"
    using assms(1) ItAssign tight_trim[of v] by (simp_all add: trim_after_space)
  have f: "trim (f @ '' '') = f" using assms(1) ItAssign tight_trim[of f]
    by (cases f) (simp_all add: trim_def tight_def trim_after_space(2)[of "_ # _", simplified])
  have tr: "trim (f @ '' = '' @ v) = f @ '' = '' @ v"
    using assms(1) ItAssign tight_append[of f v "'' = ''"] by (simp add: tight_trim)
  have "split_once CHR ''='' (f @ '' = '' @ v) = Some (f @ '' '', CHR '' '' # v)"
    using assms(1) ItAssign by (auto simp: split_once_Some_iff)
  with v f tr show ?thesis using assms(1) ItAssign
    by (auto simp: overlay_clause_def content_of_def is_policy_item_def tight_def)
next
  case (ItExcludes fs)
  have "tight (''excludes '' @ join '', '' fs)"
    using assms(1) ItExcludes plain_names_tight[of fs] by (auto simp: tight_def graphic_def)
  then show ?thesis using assms(1) ItExcludes tight_trim plain_names_read[of fs]
    by (auto simp: overlay_clause_def content_of_def is_policy_item_def plain_names_def)
next
  case (ItEmits es)
  then show ?thesis using assms(1) tight_trim[OF plain_names_tight[of es]] plain_names_tight[of es] plain_names_read[of es]
    by (auto simp: overlay_clause_def content_of_def is_policy_item_def tight_def)
qed (use assms tight_trim in \<open>auto simp: overlay_clause_def content_of_def is_policy_item_def tight_def\<close>)

definition item_line :: "nat \<Rightarrow> source_line \<Rightarrow> overlay_item \<Rightarrow> bool" where
  "item_line indent line it \<longleftrightarrow> sl_indent line = indent \<and> trim_start (sl_text line) = show_item it"

definition block_ends :: "nat \<Rightarrow> source_line list \<Rightarrow> bool" where
  "block_ends indent post \<longleftrightarrow> post = [] \<or> (sl_indent (hd post) \<le> indent \<and> \<not> is_trivia (trim_start (sl_text (hd post))))"

lemma not_trivia [simp]: "\<not> is_trivia (show_item it)" "\<not> is_trivia (effect_label kind)"
  by (cases it; simp add: is_trivia_def starts_with_def) (cases kind; simp add: is_trivia_def starts_with_def)

lemma clause_loop_items:
  assumes "list_all2 (item_line c) cls its" "list_all wf_item its" "h < c"
    "length (filter is_policy_item its) + (if ce_policy e = None then 0 else 1) \<le> 1"
  shows "\<exists>e' l'. overlay_clause_loop h c (pre @ cls @ post) (length pre) e l =
      overlay_clause_loop h c (pre @ cls @ post) (length pre + length its) e' l' \<and>
    content_of e' = fold add_item its (content_of e)"
  using assms
proof (induction cls its arbitrary: pre e l rule: list_all2_induct)
  case (Cons line cls it its)
  have policy: "ce_policy e = None" if "is_policy_item it" using Cons.prems(3) that by (auto split: if_splits)
  from Cons.prems(1) have "wf_item it" by simp
  from overlay_clause_item[OF this policy, of line] obtain e1 where e1:
    "overlay_clause line (show_item it) e = Ok e1" "content_of e1 = add_item it (content_of e)"
    "ce_policy e1 \<noteq> None \<longleftrightarrow> ce_policy e \<noteq> None \<or> is_policy_item it" by blast
  have "overlay_clause_loop h c (pre @ (line # cls) @ post) (length pre) e l =
      overlay_clause_loop h c (pre @ (line # cls) @ post) (Suc (length pre)) e1 (sl_end line)"
    by (subst overlay_clause_loop.simps) (use Cons.hyps(1) Cons.prems(2) e1(1) in \<open>simp add: item_line_def\<close>)
  moreover have "length (filter is_policy_item its) + (if ce_policy e1 = None then 0 else 1) \<le> 1"
    using Cons.prems(3) e1(3) by (auto split: if_splits)
  from Cons.IH[OF _ Cons.prems(2) this, of "pre @ [line]" "sl_end line"] obtain e' l' where
    "overlay_clause_loop h c (pre @ (line # cls) @ post) (Suc (length pre)) e1 (sl_end line) =
       overlay_clause_loop h c (pre @ (line # cls) @ post) (Suc (length pre) + length its) e' l'"
    "content_of e' = fold add_item its (content_of e1)"
    using Cons.prems(1) by auto
  ultimately show ?case using e1(2) by (intro exI[of _ e'] exI[of _ l']) simp
qed (auto intro!: exI)

lemma clause_loop_ends:
  "block_ends h post \<Longrightarrow> overlay_clause_loop h c (pre @ post) (length pre) e l = Ok ((e, l), length pre)"
  by (subst overlay_clause_loop.simps) (cases post; simp add: block_ends_def)

text \<open>The lines of one effect, and of a block of them.\<close>

definition effect_lines :: "nat \<Rightarrow> source_line list \<Rightarrow> CrudEffectKind \<times> overlay_item list \<Rightarrow> bool" where
  "effect_lines header_indent ls = (\<lambda>(kind, its). \<exists>header cls. ls = header # cls \<and>
     sl_indent header = header_indent + 4 \<and> trim_start (sl_text header) = effect_label kind \<and>
     list_all2 (item_line (header_indent + 6)) cls its)"

lemma effect_kind_label [simp]: "effect_kind_of (effect_label kind) = Some kind"
  by (cases kind) (simp_all add: effect_kind_of_def)

lemma parse_effect_lines:
  assumes "effect_lines h els (kind, its)" "wf_items its" "block_ends (h + 4) post"
  shows "\<exists>e. parse_effect_overlay (pre @ els @ post) (length pre) (h + 6) = Ok (e, length pre + length els) \<and>
    content_of e = items_content its"
proof -
  obtain header cls where els: "els = header # cls" "sl_indent header = h + 4" "list_all2 (item_line (h + 6)) cls its"
    using assms(1) by (auto simp: effect_lines_def)
  let ?e = "empty_effect (Span (sl_start header) (sl_end header))"
  have len: "length cls = length its" using els(3) by (rule list_all2_lengthD)
  from clause_loop_items[OF els(3), of "h + 4" ?e "pre @ [header]" post "sl_end header"] assms(2) obtain e' l' where e':
    "overlay_clause_loop (h + 4) (h + 6) (pre @ els @ post) (Suc (length pre)) ?e (sl_end header) =
     overlay_clause_loop (h + 4) (h + 6) (pre @ els @ post) (length pre + length els) e' l'"
    "content_of e' = fold add_item its (content_of ?e)"
    by (auto simp: wf_items_def empty_effect_def els(1) len)
  have "overlay_clause_loop (h + 4) (h + 6) (pre @ els @ post) (length pre + length els) e' l' =
      Ok ((e', l'), length pre + length els)"
    using clause_loop_ends[OF assms(3), of "h + 6" "pre @ els" e' l'] by simp
  moreover have "content_of (e'\<lparr>ce_span := s\<rparr>) = items_content its" for s
    using e'(2) by (simp add: content_of_def items_content_def empty_effect_def)
  ultimately show ?thesis using e'(1) els by (simp add: parse_effect_overlay_def Let_def)
qed

lemma overlay_slot_set [simp]:
  "overlay_slot k (overlay_set kind e ov) = (if k = kind then Some e else overlay_slot k ov)"
  by (cases k; cases kind) simp_all

lemma effect_lines_end: "list_all2 (effect_lines h) elss effs \<Longrightarrow> block_ends (h + 4) post \<Longrightarrow> block_ends (h + 4) (concat elss @ post)"
  by (cases rule: list.exhaust[of effs]) (auto simp: list_all2_Cons2 effect_lines_def block_ends_def)

lemma overlay_loop_effects:
  assumes "list_all2 (effect_lines h) elss effs" "list_all (\<lambda>(kind, its). wf_items its) effs" "distinct (map fst effs)"
    "\<forall>kind \<in> fst ` set effs. \<not> overlay_has ov kind" "crud_indent < h + 4" "block_ends (h + 4) post"
  shows "\<exists>ov' l'. overlay_loop crud_indent h (pre @ concat elss @ post) (length pre) ov l =
      overlay_loop crud_indent h (pre @ concat elss @ post) (length pre + length (concat elss)) ov' l' \<and>
    (\<forall>kind. map_option content_of (overlay_slot kind ov') =
      (case map_of effs kind of Some its \<Rightarrow> Some (items_content its)
       | None \<Rightarrow> map_option content_of (overlay_slot kind ov)))"
  using assms
proof (induction elss effs arbitrary: pre ov l rule: list_all2_induct)
  case (Cons els elss eff effs)
  obtain kind its where eff: "eff = (kind, its)" by (cases eff)
  obtain header cls where els: "els = header # cls" "sl_indent header = h + 4"
      "trim_start (sl_text header) = effect_label kind"
    using Cons.hyps(1) by (auto simp: effect_lines_def eff)
  from parse_effect_lines[of h els kind its "concat elss @ post" pre] Cons.hyps Cons.prems(1,5) effect_lines_end
  obtain e where e: "parse_effect_overlay (pre @ els @ concat elss @ post) (length pre) (h + 6) =
        Ok (e, length pre + length els)" "content_of e = items_content its"
    unfolding eff by fastforce
  define l1 where "l1 = sl_end ((pre @ els @ concat elss @ post) ! max (length pre + length els - 1) (length pre))"
  have step: "overlay_loop crud_indent h (pre @ concat (els # elss) @ post) (length pre) ov l =
      overlay_loop crud_indent h (pre @ concat (els # elss) @ post) (length pre + length els) (overlay_set kind e ov) l1"
    unfolding l1_def
    by (subst overlay_loop.simps) (use els e(1) Cons.prems(3,4) eff in \<open>simp add: Let_def\<close>)
  have free: "\<forall>k \<in> fst ` set effs. \<not> overlay_has (overlay_set kind e ov) k"
    using Cons.prems(2,3) by (auto simp: overlay_has_def eff rev_image_eqI)
  have rest: "list_all (\<lambda>(kind, its). wf_items its) effs" "distinct (map fst effs)"
    using Cons.prems(1,2) by simp_all
  from Cons.IH[OF rest free Cons.prems(4,5), of "pre @ els" l1] obtain ov' l' where ov':
    "overlay_loop crud_indent h (pre @ concat (els # elss) @ post) (length pre + length els) (overlay_set kind e ov) l1 =
     overlay_loop crud_indent h (pre @ concat (els # elss) @ post) (length pre + length (concat (els # elss))) ov' l'"
    "\<forall>k. map_option content_of (overlay_slot k ov') = (case map_of effs k of Some its \<Rightarrow> Some (items_content its)
       | None \<Rightarrow> map_option content_of (overlay_slot k (overlay_set kind e ov)))"
    by (auto simp: add.assoc)
  have "map_of effs kind = None" using Cons.prems(2) by (simp add: eff map_of_eq_None_iff)
  then have "\<forall>k. map_option content_of (overlay_slot k ov') = (case map_of (eff # effs) k of
      Some its \<Rightarrow> Some (items_content its) | None \<Rightarrow> map_option content_of (overlay_slot k ov))"
    using ov'(2) e(2) by (auto simp: eff split: option.splits)
  with step ov'(1) show ?case by (metis (no_types, lifting))
qed (auto intro!: exI)

lemma overlay_loop_ends:
  "block_ends c post \<Longrightarrow> overlay_loop c h (pre @ post) (length pre) ov l = Ok ((ov, l), length pre)"
  by (subst overlay_loop.simps) (cases post; simp add: block_ends_def)

section \<open>Property\<close>

text \<open>
  C9. A printed \<^verbatim>\<open>crud\<close> block is read back: with its effects and their clauses in any order, every effect
  gets exactly the policy, validators, excluded fields, assignments and events written under it, an effect
  that is not written gets nothing, and the parser stops at the first line that is not part of the block.
\<close>

theorem crud_overlay_roundtrip:
  assumes "effs \<noteq> []" "list_all (\<lambda>(kind, its). wf_items its) effs" "distinct (map fst effs)"
    "sl_indent header = h + 2" "list_all2 (effect_lines h) elss effs" "block_ends (h + 2) post"
  shows "\<exists>ov. parse_resource_crud_overlay (pre @ header # concat elss @ post) (length pre) h =
      Ok (ov, length pre + 1 + length (concat elss)) \<and>
    (\<forall>kind. map_option content_of (overlay_slot kind ov) = map_option items_content (map_of effs kind))"
proof -
  define ov0 where "ov0 = \<lparr>ca_create = None, ca_update = None, ca_delete = None,
    ca_span = Span (sl_start header) (sl_end header)\<rparr>"
  have none: "overlay_slot kind ov0 = None" for kind by (cases kind) (simp_all add: ov0_def)
  then have free: "\<forall>kind \<in> fst ` set effs. \<not> overlay_has ov0 kind" by (simp add: overlay_has_def)
  have ends: "block_ends (h + 4) post" using assms(6) by (auto simp: block_ends_def)
  from overlay_loop_effects[OF assms(5,2,3) free _ ends, of "h + 2" "pre @ [header]" "sl_end header"] obtain ov l where
    ov: "overlay_loop (h + 2) h (pre @ header # concat elss @ post) (Suc (length pre)) ov0 (sl_end header) =
      overlay_loop (h + 2) h (pre @ header # concat elss @ post) (Suc (length pre) + length (concat elss)) ov l"
      "\<forall>kind. map_option content_of (overlay_slot kind ov) = map_option items_content (map_of effs kind)"
    by (auto simp: none option.case_eq_if map_option_case)
  have stop: "overlay_loop (h + 2) h (pre @ header # concat elss @ post) (Suc (length pre) + length (concat elss)) ov l =
      Ok ((ov, l), length pre + 1 + length (concat elss))"
    using overlay_loop_ends[OF assms(6), of h "pre @ header # concat elss" ov l] by simp
  obtain kind its effs' where "effs = (kind, its) # effs'" using assms(1) by (cases effs) auto
  then have "overlay_slot kind ov \<noteq> None" using ov(2) by (metis map_of_Cons_code(2) option.distinct(1) option.map_disc_iff)
  then have some: "\<not> (ca_create ov = None \<and> ca_update ov = None \<and> ca_delete ov = None)" by (cases kind) auto
  have "overlay_slot kind (ov\<lparr>ca_span := s\<rparr>) = overlay_slot kind ov" for kind s by (cases kind) simp_all
  then show ?thesis using ov some stop assms(4)
    by (intro exI[of _ "ov\<lparr>ca_span := Span (sl_start header) l\<rparr>"])
      (simp add: parse_resource_crud_overlay_def Let_def flip: ov0_def)
qed

definition sample_overlay :: string where
  "sample_overlay = concat (map (\<lambda>l. l @ [CHR 0x0A])
     [''  crud'', ''    update'', ''      policy @policy.edit'', ''    create'', ''      input excludes state, score'',
      ''      assign state = open'', ''  fields''])"

theorem crud_overlay_roundtrip_witness:
  "\<exists>ov. parse_resource_crud_overlay (source_lines sample_overlay) 0 0 = Ok (ov, 6) \<and>
     map_option content_of (overlay_slot CreateEffect ov) =
       Some \<lparr>oc_policy = None, oc_validate = [], oc_excludes = [''state'', ''score''],
         oc_assigns = [(''state'', ''open'')], oc_emits = []\<rparr>"
proof -
  define ls where "ls = source_lines sample_overlay"
  have len: "length ls = 7" unfolding ls_def by code_simp
  let ?ls = "[] @ ls ! 0 # concat [[ls ! 1, ls ! 2], [ls ! 3, ls ! 4, ls ! 5]] @ [ls ! 6]"
  let ?effs = "[(UpdateEffect, [ItPolicy ''@policy.edit'']),
    (CreateEffect, [ItExcludes [''state'', ''score''], ItAssign ''state'' ''open''])]"
  have ls: "ls = ?ls" by (rule nth_equalityI) (auto simp: len less_Suc_eq nth_Cons' numeral_eq_Suc)
  have lines: "map sl_indent ls = [2, 4, 6, 4, 6, 6, 2]"
    "map (\<lambda>l. trim_start (sl_text l)) ls = [''crud'', ''update'', ''policy @policy.edit'', ''create'',
       ''input excludes state, score'', ''assign state = open'', ''fields'']"
    unfolding ls_def by code_simp+
  have at: "sl_indent (ls ! 0) = 2" "sl_indent (ls ! 1) = 4" "sl_indent (ls ! 2) = 6" "sl_indent (ls ! 3) = 4"
    "sl_indent (ls ! 4) = 6" "sl_indent (ls ! 5) = 6" "sl_indent (ls ! 6) = 2"
    using arg_cong[OF lines(1), of "\<lambda>xs. xs ! 0"] arg_cong[OF lines(1), of "\<lambda>xs. xs ! 1"]
      arg_cong[OF lines(1), of "\<lambda>xs. xs ! 2"] arg_cong[OF lines(1), of "\<lambda>xs. xs ! 3"]
      arg_cong[OF lines(1), of "\<lambda>xs. xs ! 4"] arg_cong[OF lines(1), of "\<lambda>xs. xs ! 5"]
      arg_cong[OF lines(1), of "\<lambda>xs. xs ! 6"] by (simp_all add: len)
  have tx: "trim_start (sl_text (ls ! 1)) = ''update''" "trim_start (sl_text (ls ! 2)) = ''policy @policy.edit''"
    "trim_start (sl_text (ls ! 3)) = ''create''" "trim_start (sl_text (ls ! 4)) = ''input excludes state, score''"
    "trim_start (sl_text (ls ! 5)) = ''assign state = open''" "trim_start (sl_text (ls ! 6)) = ''fields''"
    using arg_cong[OF lines(2), of "\<lambda>xs. xs ! 1"] arg_cong[OF lines(2), of "\<lambda>xs. xs ! 2"]
      arg_cong[OF lines(2), of "\<lambda>xs. xs ! 3"] arg_cong[OF lines(2), of "\<lambda>xs. xs ! 4"]
      arg_cong[OF lines(2), of "\<lambda>xs. xs ! 5"] arg_cong[OF lines(2), of "\<lambda>xs. xs ! 6"] by (simp_all add: len)
  have "list_all (\<lambda>(kind, its). wf_items its) ?effs" by code_simp
  moreover have "list_all2 (effect_lines 0) [[ls ! 1, ls ! 2], [ls ! 3, ls ! 4, ls ! 5]] ?effs"
    by (simp add: effect_lines_def item_line_def at tx del: One_nat_def)
  moreover have "block_ends (0 + 2) [ls ! 6]" by (simp add: block_ends_def at tx is_trivia_def starts_with_def)
  ultimately obtain ov where ov: "parse_resource_crud_overlay ?ls (length ([] :: source_line list)) 0 =
      Ok (ov, length ([] :: source_line list) + 1 + length (concat [[ls ! 1, ls ! 2], [ls ! 3, ls ! 4, ls ! 5]]))"
      "\<forall>kind. map_option content_of (overlay_slot kind ov) = map_option items_content (map_of ?effs kind)"
    using crud_overlay_roundtrip[of ?effs "ls ! 0" 0 "[[ls ! 1, ls ! 2], [ls ! 3, ls ! 4, ls ! 5]]" "[ls ! 6]" "[]"] at(1)
    by auto
  have "parse_resource_crud_overlay ls 0 0 = Ok (ov, 6)" using ov(1) by (subst ls) simp
  moreover have "map_option content_of (overlay_slot CreateEffect ov) = Some \<lparr>oc_policy = None, oc_validate = [],
      oc_excludes = [''state'', ''score''], oc_assigns = [(''state'', ''open'')], oc_emits = []\<rparr>"
    using spec[OF ov(2), of CreateEffect] by (simp add: items_content_def)
  ultimately show ?thesis unfolding ls_def by blast
qed

end
