(* ===== verification/Lifecycle_Lowering.thy ===== *)
theory Lifecycle_Lowering
  imports Lifecycle_Syntax Lifecycle_Triggers Crud_Overlay_Syntax
begin

text \<open>
  Lowering of resource lifecycles (\<^verbatim>\<open>crates/lazuli_analyzer/src/lifecycle/mod.rs\<close>, test blocks of
  \<^verbatim>\<open>test_lowering.rs\<close>) and the projection of the lowered features that the trigger check reads
  (\<^verbatim>\<open>checks/lifecycle_transition/mod.rs\<close>, \<^verbatim>\<open>input_from_features\<close>). \<^verbatim>\<open>lower_lifecycles\<close> mutates the
  feature resource by resource: here a fold of \<open>lower_one_lifecycle\<close> over the declarations. Names are put
  in Pascal case with \<^verbatim>\<open>char::to_uppercase\<close> and queries named with \<^verbatim>\<open>str::to_lowercase\<close>: ASCII is
  defined, and the Unicode mappings of other text are the parameters \<open>up\<close> and \<open>low\<close>, about which nothing is
  assumed. The records hold the slots of theory \<^verbatim>\<open>Ir_Core\<close>; the slots left out are constants in the
  code. The triggers of a command, which the code reads back from its serialized form, are the slot itself.

  Shown here: lowering twice changes nothing; the lowered resource, enum and commands implement the
  authored state machine; and the diagnostics for a command are about runs of the authored lifecycle.
\<close>

section \<open>Test blocks\<close>

definition lower_test_line :: "string \<Rightarrow> TestAssertion option" where
  "lower_test_line line =
     (let parts = split_whitespace line in
      case parts of
        [verb, key1, state, key2, actor] \<Rightarrow>
          (if verb = ''allows'' \<and> key1 = ''from'' \<and> key2 = ''as'' then Some (AllowsFromAs state actor)
           else if verb = ''denies'' \<and> key1 = ''from'' \<and> key2 = ''as'' then Some (DeniesFromAs state actor)
           else if (verb = ''allows'' \<or> verb = ''denies'') \<and> key1 = ''when'' then Some (RawTest (trim line))
           else None)
      | [verb, key1, x] \<Rightarrow>
          (if verb = ''allows'' \<and> key1 = ''from'' then Some (AllowsFrom x)
           else if verb = ''denies'' \<and> key1 = ''from'' then Some (DeniesFrom x)
           else if verb = ''allows'' \<and> key1 = ''as'' then Some (AllowsAs x)
           else if verb = ''denies'' \<and> key1 = ''as'' then Some (DeniesAs x)
           else if (verb = ''allows'' \<or> verb = ''denies'') \<and> key1 = ''when'' then Some (RawTest (trim line))
           else None)
      | verb # key1 # _ \<Rightarrow>
          (if (verb = ''allows'' \<or> verb = ''denies'') \<and> key1 = ''when'' then Some (RawTest (trim line)) else None)
      | _ \<Rightarrow> None)"

definition span_of :: "span \<Rightarrow> span_ref" where
  "span_of s = (sp_start s, sp_end s)"

definition lower_test_block :: "string list \<Rightarrow> span \<Rightarrow> test_block option" where
  "lower_test_block lines span =
     (let assertions = List.map_filter lower_test_line lines in
      if assertions = [] then None
      else Some \<lparr>tb_assertions = assertions, tb_span_ref = Some (span_of span)\<rparr>)"

section \<open>References\<close>

definition lower_policy_ref :: "string \<Rightarrow> PolicyRef" where
  "lower_policy_ref raw = (case strip_prefix ''@'' (trim raw) of Some rest \<Rightarrow> RefAtom rest | None \<Rightarrow> RefLocal (trim raw))"

definition lower_handler_ref :: "string \<Rightarrow> span \<Rightarrow> handler_ref" where
  "lower_handler_ref raw span =
     (let trimmed = dropWhile (\<lambda>c. c = CHR ''@'') (trim raw);
          (namespace, name) = (case split_once CHR ''.'' trimmed of Some p \<Rightarrow> p | None \<Rightarrow> (''fn'', trimmed)) in
      \<lparr>hr_namespace = namespace, hr_name = name, hr_span_ref = Some (span_of span)\<rparr>)"

definition lower_audit_spec :: "string \<Rightarrow> audit_spec" where
  "lower_audit_spec raw =
     (let tail = trim (case strip_prefix ''audit '' (trim raw) of Some t \<Rightarrow> t | None \<Rightarrow> raw) in
      \<lparr>au_subjects = filter (\<lambda>p. p \<noteq> []) (map trim (split_on CHR '','' tail)), au_emit_to = None, au_data_subject = None,
       au_record_before = False, au_record_after = False, au_retain_for = None, au_materialize = None\<rparr>)"

fun lower_invariant_form :: "LifecycleInvariantForm \<Rightarrow> LifecycleInvariant" where
  "lower_invariant_form TerminalImmutable = InvTerminalImmutable"
| "lower_invariant_form NoJumpMoreThanOne = InvNoJumpMoreThanOne"
| "lower_invariant_form (SingleStatePerScope state scope_field) = InvSingleStatePerScope state scope_field"

section \<open>Names\<close>

text \<open>\<^verbatim>\<open>char::to_uppercase\<close> and \<^verbatim>\<open>str::to_lowercase\<close>.\<close>

definition to_uppercase_char :: "(string \<Rightarrow> string) \<Rightarrow> string \<Rightarrow> string" where
  "to_uppercase_char up ch = (if is_ascii ch then to_ascii_uppercase ch else up ch)"

definition to_lowercase :: "(string \<Rightarrow> string) \<Rightarrow> string \<Rightarrow> string" where
  "to_lowercase low s = (if is_ascii s then to_ascii_lowercase s else low s)"

fun pascal_chars :: "(string \<Rightarrow> string) \<Rightarrow> bool \<Rightarrow> string list \<Rightarrow> string" where
  "pascal_chars up uppercase_next [] = []"
| "pascal_chars up uppercase_next (ch # s) =
     (if ch = ''_'' \<or> ch = ''-'' \<or> ch = '' '' then pascal_chars up True s
      else if uppercase_next then to_uppercase_char up ch @ pascal_chars up False s
      else ch @ pascal_chars up False s)"

definition pascal_case :: "(string \<Rightarrow> string) \<Rightarrow> string \<Rightarrow> string" where
  "pascal_case up value' = pascal_chars up True (utf8_chars value')"

section \<open>The lifecycle\<close>

definition lower_state :: "lifecycle_state \<Rightarrow> lifecycle_state_ir" where
  "lower_state state =
     \<lparr>si_name = ls_name state,
      si_kind = (if ls_kind_keyword state = Some ''initial'' then Initial
        else if ls_kind_keyword state = Some ''terminal'' then Terminal else Intermediate),
      si_span_ref = Some (span_of (ls_span state))\<rparr>"

definition lower_transition :: "lifecycle_transition \<Rightarrow> lifecycle_transition_ir" where
  "lower_transition t =
     \<lparr>ti_name = lt_name t, ti_from = lt_from t, ti_to = lt_to t,
      ti_policy = map_option lower_policy_ref (lt_policy t), ti_audit = map_option lower_audit_spec (lt_audit t),
      ti_timestamps = lt_timestamps t, ti_emits = lt_emits t, ti_requires = map_option lower_policy_ref (lt_requires t),
      ti_tests = lower_test_block (lt_tests t) (lt_span t), ti_previous_names = lt_previously t,
      ti_span_ref = Some (span_of (lt_span t))\<rparr>"

definition lower_lifecycle :: "lifecycle_block \<Rightarrow> string \<Rightarrow> lifecycle_ir" where
  "lower_lifecycle ast generated_enum =
     \<lparr>lc_discriminator_field = lb_discriminator_field ast, lc_generated_enum = generated_enum,
      lc_states = map lower_state (lb_states ast), lc_transitions = map lower_transition (lb_transitions ast),
      lc_invariants = map (\<lambda>inv. lower_invariant_form (li_form inv)) (lb_invariants ast),
      lc_invariant_handlers = map (\<lambda>handler. lower_handler_ref handler (lb_span ast)) (lb_invariant_handlers ast),
      lc_previous_names = [], lc_span_ref = Some (span_of (lb_span ast))\<rparr>"

definition emit_lifecycle_enum :: "(string \<Rightarrow> string) \<Rightarrow> feature_ir \<Rightarrow> lifecycle_block \<Rightarrow> string \<Rightarrow> feature_ir" where
  "emit_lifecycle_enum up feature ast generated_enum =
     (if list_ex (\<lambda>decl. ed_name decl = generated_enum) (fe_enums feature) then feature
      else feature\<lparr>fe_enums := fe_enums feature @
        [\<lparr>ed_name = generated_enum,
          ed_variants = map (\<lambda>state. \<lparr>ev_name = pascal_case up (ls_name state),
            ev_storage_value = Some (StString (ls_name state))\<rparr>) (lb_states ast)\<rparr>]\<rparr>)"

definition synth_field :: "string \<Rightarrow> TypeRef \<Rightarrow> bool \<Rightarrow> field_ir" where
  "synth_field name type_ref required =
     \<lparr>fi_name = name, fi_type_ref = type_ref, fi_required = required, fi_unique = False, fi_default = None,
      fi_derived_from = None, fi_constraints = default_constraints, fi_full_text = False, fi_owner_axis = None, fi_cross_feature_target = None\<rparr>"

definition emit_discriminator_field :: "resource_ir \<Rightarrow> lifecycle_block \<Rightarrow> string \<Rightarrow> resource_ir" where
  "emit_discriminator_field resource ast generated_enum =
     (if list_ex (\<lambda>f. fi_name f = lb_discriminator_field ast) (rs_fields resource) then resource
      else resource\<lparr>rs_fields := rs_fields resource @
        [synth_field (lb_discriminator_field ast) (EnumRef \<lparr>qn_feature = None, qn_name = generated_enum\<rparr>) True]\<rparr>)"

fun timestamp_loop :: "resource_ir \<Rightarrow> lifecycle_transition list \<Rightarrow> resource_ir" where
  "timestamp_loop resource [] = resource"
| "timestamp_loop resource (t # ts) =
     timestamp_loop
       (case lt_timestamps t of
          None \<Rightarrow> resource
        | Some ts_field \<Rightarrow>
            if list_ex (\<lambda>f. fi_name f = ts_field) (rs_fields resource) then resource
            else resource\<lparr>rs_fields := rs_fields resource @ [synth_field ts_field (Builtin BtDateTime) False]\<rparr>) ts"

definition emit_timestamp_fields :: "resource_ir \<Rightarrow> lifecycle_block \<Rightarrow> resource_ir" where
  "emit_timestamp_fields resource ast = timestamp_loop resource (lb_transitions ast)"

definition lower_transition_command ::
  "(string \<Rightarrow> string) \<Rightarrow> (string \<Rightarrow> string) \<Rightarrow> string \<Rightarrow> lifecycle_block \<Rightarrow> lifecycle_transition \<Rightarrow> string \<Rightarrow> command_ir" where
  "lower_transition_command up low resource_name ast t generated_enum =
     (let assignments =
        [\<lparr>asg_field = lb_discriminator_field ast,
          asg_value = EEnum \<lparr>el_type_name = Some \<lparr>qn_feature = None, qn_name = generated_enum\<rparr>,
            el_variant = pascal_case up (lt_to t)\<rparr>\<rparr>] @
        (case lt_timestamps t of None \<Rightarrow> []
         | Some ts_field \<Rightarrow> [\<lparr>asg_field = ts_field, asg_value = EPath [''ctx'', ''now'']\<rparr>]) in
      \<lparr>cm_name = lt_name t, cm_kind = Update,
       cm_route = [\<lparr>rt_name = ''id'', rt_type_ref = Builtin BtId, rt_from = None, rt_kind = PlainSlot\<rparr>],
       cm_input = InEmpty,
       cm_target = Some \<lparr>te_query = \<lparr>qn_feature = None, qn_name = to_lowercase low resource_name @ ''_by_id''\<rparr>,
         te_args = [\<lparr>na_name = ''id'', na_value = EPath [''route'', ''id'']\<rparr>]\<rparr>,
       cm_lets = [],
       cm_effect = UpdatesRow \<lparr>qn_feature = None, qn_name = resource_name\<rparr> assignments [],
       cm_policy = (case (case lt_policy t of Some p \<Rightarrow> Some p | None \<Rightarrow> lt_requires t) of
           Some p \<Rightarrow> lower_policy_ref p | None \<Rightarrow> RefNone),
       cm_emits = lt_emits t, cm_rate_limit = None, cm_invalidates = [], cm_audit = map_option lower_audit_spec (lt_audit t), cm_deprecated = None, cm_handler = None,
       cm_tests = lower_test_block (lt_tests t) (lt_span t), cm_previous_names = lt_previously t,
       cm_span_ref = Some (span_of (lt_span t)), cm_triggers = [], cm_owner_scope_sql = None,
       cm_synthesized_from_cap_file = None, cm_derived_from = Some (FromLifecycle resource_name (lt_name t))\<rparr>)"

definition emit_lifecycle_commands ::
  "(string \<Rightarrow> string) \<Rightarrow> (string \<Rightarrow> string) \<Rightarrow> feature_ir \<Rightarrow> string \<Rightarrow> lifecycle_block \<Rightarrow> string \<Rightarrow> feature_ir" where
  "emit_lifecycle_commands up low feature resource_name ast generated_enum =
     feature\<lparr>fe_commands := fe_commands feature @
       map (\<lambda>t. lower_transition_command up low resource_name ast t generated_enum) (lb_transitions ast)\<rparr>"

record resource_decl =
  rr_name :: string
  rr_lifecycle :: "lifecycle_block option"
  rr_crud_overlay :: "crud_overlay_ast option"

definition generated_enum :: "(string \<Rightarrow> string) \<Rightarrow> string \<Rightarrow> lifecycle_block \<Rightarrow> string" where
  "generated_enum up resource_name ast = pascal_case up resource_name @ pascal_case up (lb_discriminator_field ast)"

definition lower_one_lifecycle :: "(string \<Rightarrow> string) \<Rightarrow> (string \<Rightarrow> string) \<Rightarrow> resource_decl \<Rightarrow> feature_ir \<Rightarrow> feature_ir" where
  "lower_one_lifecycle up low decl feature =
     (case rr_lifecycle decl of
        None \<Rightarrow> feature
      | Some ast \<Rightarrow>
          (case first_index (\<lambda>r. rs_name r = rr_name decl) (fe_resources feature) of
             None \<Rightarrow> feature
           | Some i \<Rightarrow>
               if rs_lifecycle (fe_resources feature ! i) \<noteq> None then feature
               else
                 let resource_name = rs_name (fe_resources feature ! i);
                     en = generated_enum up resource_name ast;
                     feature = emit_lifecycle_enum up feature ast en;
                     feature = emit_lifecycle_commands up low feature resource_name ast en;
                     resource = emit_discriminator_field (fe_resources feature ! i) ast en;
                     resource = emit_timestamp_fields resource ast;
                     resource = resource\<lparr>rs_lifecycle := Some (lower_lifecycle ast en)\<rparr> in
                 feature\<lparr>fe_resources := (fe_resources feature)[i := resource]\<rparr>))"

definition lower_lifecycles :: "(string \<Rightarrow> string) \<Rightarrow> (string \<Rightarrow> string) \<Rightarrow> feature_ir \<Rightarrow> resource_decl list \<Rightarrow> feature_ir" where
  "lower_lifecycles up low feature resources = fold (lower_one_lifecycle up low) resources feature"

section \<open>The projection read by the trigger check\<close>

definition transition_facts_of :: "lifecycle_transition_ir \<Rightarrow> transition_facts" where
  "transition_facts_of t = \<lparr>tf_name = ti_name t, tf_from = ti_from t, tf_to = ti_to t\<rparr>"

definition resource_facts_of :: "resource_ir \<Rightarrow> resource_facts" where
  "resource_facts_of r = \<lparr>rf_name = rs_name r, rf_lifecycle = map_option (\<lambda>lc.
     \<lparr>lf_discriminator_field = lc_discriminator_field lc, lf_transitions = map transition_facts_of (lc_transitions lc)\<rparr>) (rs_lifecycle r)\<rparr>"

definition command_facts_of :: "string \<Rightarrow> command_ir \<Rightarrow> command_facts" where
  "command_facts_of feature c = \<lparr>cf_feature = feature, cf_name = cm_name c, cf_triggers = cm_triggers c,
     cf_effect = (case cm_effect c of UpdatesRow q as _ \<Rightarrow> Updates q (map asg_field as) | _ \<Rightarrow> Other),
     cf_span = cm_span_ref c\<rparr>"

definition feature_facts_of :: "feature_ir \<Rightarrow> feature_facts" where
  "feature_facts_of f = \<lparr>ff_name = fe_name f, ff_uses = fe_uses f, ff_resources = map resource_facts_of (fe_resources f),
     ff_commands = map (command_facts_of (fe_name f)) (fe_commands f)\<rparr>"

definition input_from_features :: "feature_ir list \<Rightarrow> feature_facts list" where
  "input_from_features features = map feature_facts_of features"

definition check_lifecycle_transitions :: "feature_ir list \<Rightarrow> diagnostic list" where
  "check_lifecycle_transitions features = check_input (input_from_features features)"


section \<open>Idempotence\<close>

definition lowered :: "resource_decl \<Rightarrow> feature_ir \<Rightarrow> bool" where
  "lowered decl f \<longleftrightarrow> rr_lifecycle decl = None \<or>
     (case first_index (\<lambda>r. rs_name r = rr_name decl) (fe_resources f) of
        None \<Rightarrow> True | Some i \<Rightarrow> rs_lifecycle (fe_resources f ! i) \<noteq> None)"

lemma lowered_fixed: "lowered decl f \<Longrightarrow> lower_one_lifecycle up low decl f = f"
  by (auto simp: lowered_def lower_one_lifecycle_def split: option.splits)

lemma timestamp_loop_facts: "rs_name (timestamp_loop r ts) = rs_name r \<and> rs_lifecycle (timestamp_loop r ts) = rs_lifecycle r \<and>
    (\<exists>more_fields. rs_fields (timestamp_loop r ts) = rs_fields r @ more_fields \<and>
      (\<forall>t \<in> set ts. \<forall>n. lt_timestamps t = Some n \<longrightarrow> n \<in> fi_name ` set (rs_fields r @ more_fields)))"
proof (induction ts arbitrary: r)
  case (Cons t ts)
  define r' where "r' = (case lt_timestamps t of None \<Rightarrow> r
      | Some n \<Rightarrow> if list_ex (\<lambda>f. fi_name f = n) (rs_fields r) then r
          else r\<lparr>rs_fields := rs_fields r @ [synth_field n (Builtin BtDateTime) False]\<rparr>)"
  have r': "rs_name r' = rs_name r" "rs_lifecycle r' = rs_lifecycle r"
    "\<exists>more_fields. rs_fields r' = rs_fields r @ more_fields"
    "\<And>n. lt_timestamps t = Some n \<Longrightarrow> n \<in> fi_name ` set (rs_fields r')"
    by (auto simp: r'_def list_ex_iff synth_field_def split: option.splits)
  from Cons[of r'] r' show ?case by (simp add: r'_def[symmetric]) (metis UnCI append.assoc image_Un set_append)
qed simp


lemma discriminator_facts: "rs_name (emit_discriminator_field r ast en) = rs_name r \<and>
    rs_lifecycle (emit_discriminator_field r ast en) = rs_lifecycle r \<and>
    (\<exists>more_fields. rs_fields (emit_discriminator_field r ast en) = rs_fields r @ more_fields) \<and>
    lb_discriminator_field ast \<in> fi_name ` set (rs_fields (emit_discriminator_field r ast en))"
  unfolding emit_discriminator_field_def
  by (cases "list_ex (\<lambda>f. fi_name f = lb_discriminator_field ast) (rs_fields r)")
    (auto simp: list_ex_iff synth_field_def rev_image_eqI)

definition lowered_resource :: "resource_ir \<Rightarrow> lifecycle_block \<Rightarrow> string \<Rightarrow> resource_ir" where
  "lowered_resource r ast en =
     (emit_timestamp_fields (emit_discriminator_field r ast en) ast)\<lparr>rs_lifecycle := Some (lower_lifecycle ast en)\<rparr>"

lemma lowered_resource_facts:
  "rs_name (lowered_resource r ast en) = rs_name r"
  "rs_lifecycle (lowered_resource r ast en) = Some (lower_lifecycle ast en)"
  "\<exists>more_fields. rs_fields (lowered_resource r ast en) = rs_fields r @ more_fields"
  "lb_discriminator_field ast \<in> fi_name ` set (rs_fields (lowered_resource r ast en))"
  "\<lbrakk>t \<in> set (lb_transitions ast); lt_timestamps t = Some n\<rbrakk> \<Longrightarrow> n \<in> fi_name ` set (rs_fields (lowered_resource r ast en))"
proof -
  let ?d = "emit_discriminator_field r ast en"
  obtain a where a: "rs_fields ?d = rs_fields r @ a" "lb_discriminator_field ast \<in> fi_name ` set (rs_fields ?d)"
    using discriminator_facts by blast
  obtain b where b: "rs_fields (emit_timestamp_fields ?d ast) = rs_fields ?d @ b"
    "\<And>t n. t \<in> set (lb_transitions ast) \<Longrightarrow> lt_timestamps t = Some n \<Longrightarrow> n \<in> fi_name ` set (rs_fields ?d @ b)"
    using timestamp_loop_facts[of ?d "lb_transitions ast"] unfolding emit_timestamp_fields_def by blast
  show "rs_name (lowered_resource r ast en) = rs_name r"
    using timestamp_loop_facts[of ?d "lb_transitions ast"] discriminator_facts[of r ast en]
    by (simp add: lowered_resource_def emit_timestamp_fields_def)
  show "rs_lifecycle (lowered_resource r ast en) = Some (lower_lifecycle ast en)" by (simp add: lowered_resource_def)
  show "\<exists>more_fields. rs_fields (lowered_resource r ast en) = rs_fields r @ more_fields"
    using a b by (simp add: lowered_resource_def)
  show "lb_discriminator_field ast \<in> fi_name ` set (rs_fields (lowered_resource r ast en))"
    using a(2) b(1) by (auto simp: lowered_resource_def)
  show "n \<in> fi_name ` set (rs_fields (lowered_resource r ast en))"
    if "t \<in> set (lb_transitions ast)" "lt_timestamps t = Some n"
    using b that by (simp add: lowered_resource_def)
qed

lemma emit_enum_slots [simp]:
  "fe_resources (emit_lifecycle_enum up f ast en) = fe_resources f" "fe_commands (emit_lifecycle_enum up f ast en) = fe_commands f"
  "fe_name (emit_lifecycle_enum up f ast en) = fe_name f" "fe_uses (emit_lifecycle_enum up f ast en) = fe_uses f"
  by (simp_all add: emit_lifecycle_enum_def)

lemma lower_one_effect:
  fixes up low :: "string \<Rightarrow> string" and decl :: resource_decl and f :: feature_ir and ast :: lifecycle_block
  assumes "rr_lifecycle decl = Some ast" "first_index (\<lambda>r. rs_name r = rr_name decl) (fe_resources f) = Some i"
    "rs_lifecycle (fe_resources f ! i) = None"
  defines "en \<equiv> generated_enum up (rr_name decl) ast" and "f' \<equiv> lower_one_lifecycle up low decl f"
  shows "fe_resources f' = (fe_resources f)[i := lowered_resource (fe_resources f ! i) ast en]"
    "fe_enums f' = fe_enums (emit_lifecycle_enum up f ast en)"
    "fe_commands f' = fe_commands f @ map (\<lambda>t. lower_transition_command up low (rr_name decl) ast t en) (lb_transitions ast)"
    "fe_name f' = fe_name f" "fe_uses f' = fe_uses f"
proof -
  have name: "rs_name (fe_resources f ! i) = rr_name decl" using assms(2) by (simp add: first_index_Some_iff)
  show "fe_resources f' = (fe_resources f)[i := lowered_resource (fe_resources f ! i) ast en]"
    "fe_enums f' = fe_enums (emit_lifecycle_enum up f ast en)"
    "fe_commands f' = fe_commands f @ map (\<lambda>t. lower_transition_command up low (rr_name decl) ast t en) (lb_transitions ast)"
    "fe_name f' = fe_name f" "fe_uses f' = fe_uses f"
    using assms(1-3) name
    by (simp_all add: f'_def lower_one_lifecycle_def Let_def emit_lifecycle_commands_def en_def lowered_resource_def)
qed

lemma lower_one_cases:
  obtains (skip) "lower_one_lifecycle up low decl f = f"
  | (run) ast i where "rr_lifecycle decl = Some ast" "first_index (\<lambda>r. rs_name r = rr_name decl) (fe_resources f) = Some i"
      "rs_lifecycle (fe_resources f ! i) = None"
proof (cases "lowered decl f")
  case True
  then show ?thesis using skip lowered_fixed by blast
next
  case False
  then show ?thesis using run by (auto simp: lowered_def split: option.splits)
qed

lemma lower_one_names: "map rs_name (fe_resources (lower_one_lifecycle up low decl f)) = map rs_name (fe_resources f)"
proof (cases rule: lower_one_cases[of up low decl f])
  case (run ast i)
  then have "i < length (fe_resources f)" by (simp add: first_index_Some_iff)
  then show ?thesis
    using lower_one_effect(1)[OF run] lowered_resource_facts(1)
    by (simp add: map_update list_update_same_conv)
qed simp

lemma lower_one_keeps:
  assumes "j < length (fe_resources f)" "rs_lifecycle (fe_resources f ! j) \<noteq> None"
  shows "fe_resources (lower_one_lifecycle up low decl f) ! j = fe_resources f ! j"
proof (cases rule: lower_one_cases[of up low decl f])
  case (run ast i)
  then have "i \<noteq> j" using assms(2) by auto
  then show ?thesis using lower_one_effect(1)[OF run] by simp
qed simp

lemma same_index:
  assumes "map rs_name rs = map rs_name rs'"
  shows "first_index (\<lambda>r. rs_name r = n) rs = first_index (\<lambda>r. rs_name r = n) rs'"
  using first_index_map[of "\<lambda>m. m = n" rs_name rs] first_index_map[of "\<lambda>m. m = n" rs_name rs'] assms by simp

lemma lowered_lower_one:
  shows "lowered decl (lower_one_lifecycle up low decl f)"
    and "lowered d f \<Longrightarrow> lowered d (lower_one_lifecycle up low decl f)"
proof -
  let ?f = "lower_one_lifecycle up low decl f"
  have idx: "first_index (\<lambda>r. rs_name r = n) (fe_resources ?f) = first_index (\<lambda>r. rs_name r = n) (fe_resources f)" for n
    by (rule same_index) (rule lower_one_names)
  show "lowered decl ?f"
  proof (cases "lowered decl f")
    case True
    then show ?thesis using lowered_fixed by simp
  next
    case False
    then obtain ast i where run: "rr_lifecycle decl = Some ast"
      "first_index (\<lambda>r. rs_name r = rr_name decl) (fe_resources f) = Some i" "rs_lifecycle (fe_resources f ! i) = None"
      by (auto simp: lowered_def split: option.splits)
    then have "i < length (fe_resources f)" by (simp add: first_index_Some_iff)
    then have "rs_lifecycle (fe_resources ?f ! i) \<noteq> None"
      using lower_one_effect(1)[OF run] lowered_resource_facts(2) by simp
    then show ?thesis unfolding lowered_def idx run(2) by simp
  qed
  show "lowered d ?f" if "lowered d f"
  proof (cases "first_index (\<lambda>r. rs_name r = rr_name d) (fe_resources f)")
    case None
    then show ?thesis by (simp add: lowered_def idx)
  next
    case (Some j)
    then have "j < length (fe_resources f)" by (simp add: first_index_Some_iff)
    then show ?thesis using that Some lower_one_keeps[of j f up low decl] by (auto simp: lowered_def idx)
  qed
qed

lemma lowered_all: "d \<in> set ds \<or> lowered d f \<Longrightarrow> lowered d (lower_lifecycles up low f ds)"
  unfolding lower_lifecycles_def
proof (induction ds arbitrary: f)
  case (Cons a ds)
  have "d \<in> set ds \<or> lowered d (lower_one_lifecycle up low a f)" using Cons.prems lowered_lower_one by auto
  then show ?case using Cons.IH by simp
qed simp

lemma lower_lifecycles_idem: "lower_lifecycles up low (lower_lifecycles up low f ds) ds = lower_lifecycles up low f ds"
proof -
  have "fold (lower_one_lifecycle up low) ds g = g" if "\<forall>d \<in> set ds. lowered d g" for g
    using that by (induction ds) (simp_all add: lowered_fixed)
  then show ?thesis using lowered_all unfolding lower_lifecycles_def by blast
qed

section \<open>Stored states\<close>

definition stored_value :: "feature_ir \<Rightarrow> enum_literal \<Rightarrow> StorageValue option" where
  "stored_value f lit = (case el_type_name lit of None \<Rightarrow> None
     | Some q \<Rightarrow> (case find (\<lambda>d. ed_name d = qn_name q) (fe_enums f) of None \<Rightarrow> None
         | Some d \<Rightarrow> (case find (\<lambda>v. ev_name v = el_variant lit) (ed_variants d) of None \<Rightarrow> None
             | Some v \<Rightarrow> ev_storage_value v)))"


text \<open>The two assignments and the effect of a synthesized command.\<close>

lemma transition_command_facts:
  "cm_name (lower_transition_command up low r ast t en) = lt_name t"
  "cm_triggers (lower_transition_command up low r ast t en) = []"
  "cm_derived_from (lower_transition_command up low r ast t en) = Some (FromLifecycle r (lt_name t))"
  "\<exists>stamps. cm_effect (lower_transition_command up low r ast t en) =
     UpdatesRow \<lparr>qn_feature = None, qn_name = r\<rparr>
       (\<lparr>asg_field = lb_discriminator_field ast,
         asg_value = EEnum \<lparr>el_type_name = Some \<lparr>qn_feature = None, qn_name = en\<rparr>, el_variant = pascal_case up (lt_to t)\<rparr>\<rparr> # stamps) []"
  by (auto simp: lower_transition_command_def Let_def)

lemma find_first_variant:
  assumes "s \<in> set names" "inj_on g (set names)"
  shows "find (\<lambda>v. ev_name v = g s) (map (\<lambda>n. \<lparr>ev_name = g n, ev_storage_value = Some (StString n)\<rparr>) names) =
    Some \<lparr>ev_name = g s, ev_storage_value = Some (StString s)\<rparr>"
  using assms
proof (induction names)
  case (Cons n names)
  show ?case
  proof (cases "n = s")
    case False
    then have "g n \<noteq> g s" using Cons.prems by (auto dest: inj_onD)
    with False Cons show ?thesis by (auto simp: inj_on_def)
  qed simp
qed simp

lemma stored_target:
  assumes "\<not> list_ex (\<lambda>d. ed_name d = en) (fe_enums f)" "s \<in> set (map ls_name (lb_states ast))"
    "inj_on (pascal_case up) (set (map ls_name (lb_states ast)))"
    "fe_enums f' = fe_enums (emit_lifecycle_enum up f ast en)"
  shows "stored_value f' \<lparr>el_type_name = Some \<lparr>qn_feature = None, qn_name = en\<rparr>, el_variant = pascal_case up s\<rparr> = Some (StString s)"
proof -
  let ?d = "\<lparr>ed_name = en, ed_variants = map (\<lambda>n. \<lparr>ev_name = pascal_case up n, ev_storage_value = Some (StString n)\<rparr>) (map ls_name (lb_states ast))\<rparr>"
  have en: "fe_enums f' = fe_enums f @ [?d]"
    using assms(1,4) by (simp add: emit_lifecycle_enum_def comp_def)
  have none: "find (\<lambda>d. ed_name d = en) (fe_enums f) = None"
    using assms(1) by (auto simp: find_None_iff list_ex_iff)
  have app: "find P (xs @ ys) = (case find P xs of None \<Rightarrow> find P ys | Some x \<Rightarrow> Some x)" for P and xs ys :: "enum_decl list"
    by (induction xs) auto
  have "find (\<lambda>d. ed_name d = en) (fe_enums f') = Some ?d"
    unfolding en app none by simp
  moreover have "find (\<lambda>v. ev_name v = pascal_case up s) (ed_variants ?d) =
      Some \<lparr>ev_name = pascal_case up s, ev_storage_value = Some (StString s)\<rparr>"
    unfolding enum_decl.simps by (rule find_first_variant[OF assms(2,3)])
  ultimately show ?thesis by (simp add: stored_value_def)
qed

definition authored_facts :: "lifecycle_block \<Rightarrow> lifecycle_facts" where
  "authored_facts ast = \<lparr>lf_discriminator_field = lb_discriminator_field ast,
     lf_transitions = map (\<lambda>t. \<lparr>tf_name = lt_name t, tf_from = lt_from t, tf_to = lt_to t\<rparr>) (lb_transitions ast)\<rparr>"

lemma projected_lifecycle:
  "rf_lifecycle (resource_facts_of (lowered_resource r ast en)) = Some (authored_facts ast)"
  by (simp add: resource_facts_of_def lowered_resource_def lower_lifecycle_def authored_facts_def comp_def
    transition_facts_of_def lower_transition_def)

text \<open>
  C16. Lowering a lifecycle block implements it. The resource gets a lifecycle whose transitions (as the
  trigger check reads them) are the authored ones; its own fields stay, in order, before the synthesized
  ones, and it has the discriminator; no other resource changes; one command per transition is appended,
  in order; and the command of a transition whose target is a declared state stores exactly that state:
  the enum variant it assigns resolves, in the enum the lowering declares, to the authored state name.
  (State names must stay different in Pascal case, and the enum name must be free.)
\<close>

theorem lifecycle_lowering_refines:
  assumes "rr_lifecycle decl = Some ast" "first_index (\<lambda>r. rs_name r = rr_name decl) (fe_resources f) = Some i"
    "rs_lifecycle (fe_resources f ! i) = None"
    "\<not> list_ex (\<lambda>d. ed_name d = generated_enum up (rr_name decl) ast) (fe_enums f)"
    "inj_on (pascal_case up) (set (map ls_name (lb_states ast)))"
    "f' = lower_lifecycles up low f [decl]"
  shows "rf_lifecycle (resource_facts_of (fe_resources f' ! i)) = Some (authored_facts ast) \<and>
    (\<exists>more_fields. rs_fields (fe_resources f' ! i) = rs_fields (fe_resources f ! i) @ more_fields) \<and>
    lb_discriminator_field ast \<in> fi_name ` set (rs_fields (fe_resources f' ! i)) \<and>
    (\<forall>j. j \<noteq> i \<longrightarrow> fe_resources f' ! j = fe_resources f ! j) \<and>
    (\<exists>cmds. fe_commands f' = fe_commands f @ cmds \<and> map cm_name cmds = map lt_name (lb_transitions ast)) \<and>
    (\<forall>t \<in> set (lb_transitions ast). lt_to t \<in> set (map ls_name (lb_states ast)) \<longrightarrow>
      (\<exists>c lit stamps. c \<in> set (fe_commands f') \<and> cm_name c = lt_name t \<and>
        cm_effect c = UpdatesRow \<lparr>qn_feature = None, qn_name = rr_name decl\<rparr>
          (\<lparr>asg_field = lb_discriminator_field ast, asg_value = EEnum lit\<rparr> # stamps) [] \<and>
        stored_value f' lit = Some (StString (lt_to t))))"
proof -
  let ?en = "generated_enum up (rr_name decl) ast"
  have f': "f' = lower_one_lifecycle up low decl f" using assms(6) by (simp add: lower_lifecycles_def)
  have i: "i < length (fe_resources f)" using assms(2) by (simp add: first_index_Some_iff)
  note eff = lower_one_effect[OF assms(1-3), of up low, folded f']
  have ri: "fe_resources f' ! i = lowered_resource (fe_resources f ! i) ast ?en" using eff(1) i by simp
  have cmd: "\<exists>c lit stamps. c \<in> set (fe_commands f') \<and> cm_name c = lt_name t \<and>
        cm_effect c = UpdatesRow \<lparr>qn_feature = None, qn_name = rr_name decl\<rparr>
          (\<lparr>asg_field = lb_discriminator_field ast, asg_value = EEnum lit\<rparr> # stamps) [] \<and>
        stored_value f' lit = Some (StString (lt_to t))"
    if "t \<in> set (lb_transitions ast)" "lt_to t \<in> set (map ls_name (lb_states ast))" for t
  proof -
    let ?c = "lower_transition_command up low (rr_name decl) ast t ?en"
    have "?c \<in> set (fe_commands f')" using that(1) eff(3) by simp
    moreover have "stored_value f' \<lparr>el_type_name = Some \<lparr>qn_feature = None, qn_name = ?en\<rparr>, el_variant = pascal_case up (lt_to t)\<rparr> =
        Some (StString (lt_to t))"
      using stored_target[OF assms(4) that(2) assms(5) eff(2)] .
    ultimately show ?thesis using transition_command_facts[of up low "rr_name decl" ast t ?en] by blast
  qed
  have names: "map cm_name (map (\<lambda>t. lower_transition_command up low (rr_name decl) ast t ?en) (lb_transitions ast)) =
      map lt_name (lb_transitions ast)"
    by (simp add: transition_command_facts(1))
  show ?thesis
    unfolding ri using projected_lifecycle lowered_resource_facts(3,4) eff(1,3) names cmd by (intro conjI) auto
qed


text \<open>The example: the parsed lifecycle of theory \<^verbatim>\<open>Lifecycle_Syntax\<close>, on an empty resource.\<close>

definition sample_block :: lifecycle_block where
  "sample_block = \<lparr>lb_discriminator_field = ''status'',
     lb_states = [\<lparr>ls_name = ''draft'', ls_kind_keyword = Some ''initial'', ls_span = Span 17 38\<rparr>,
       \<lparr>ls_name = ''done'', ls_kind_keyword = Some ''terminal'', ls_span = Span 39 60\<rparr>],
     lb_transitions = [\<lparr>lt_name = ''finish'', lt_from = [''draft''], lt_to = ''done'', lt_policy = None, lt_audit = None,
       lt_timestamps = None, lt_emits = [], lt_requires = None, lt_tests = [''finish.ok''], lt_previously = [],
       lt_span = Span 61 133\<rparr>],
     lb_invariants = [\<lparr>li_form = TerminalImmutable, li_span = Span 134 164\<rparr>],
     lb_invariant_handlers = [], lb_span = Span 0 164\<rparr>"

definition sample_decl :: resource_decl where
  "sample_decl = \<lparr>rr_name = ''Doc'', rr_lifecycle = Some sample_block, rr_crud_overlay = None\<rparr>"

definition empty_resource :: "string \<Rightarrow> resource_ir" where
  "empty_resource name = \<lparr>rs_name = name, rs_tenancy = None, rs_soft_delete = False, rs_soft_delete_actor = False,
     rs_timestamps = None, rs_fields = [], rs_constraints = [], rs_retention = None, rs_composite_key = None, rs_polymorphic_refs = [],
     rs_lifecycle = None, rs_conventions = []\<rparr>"

definition docs_feature :: feature_ir where
  "docs_feature = \<lparr>fe_name = ''docs'', fe_uses = [], fe_defaults = \<lparr>df_tenancy = None, df_timestamps = False, df_rate_limit = None, df_audit = None\<rparr>,
     fe_sessions = None, fe_resources = [empty_resource ''Doc''], fe_records = [], fe_enums = [], fe_commands = [],
     fe_queries = [], fe_policy_categories = [], fe_events = [], fe_event_groups = [], fe_synth_origins = []\<rparr>"

lemma sample_parsed: "parse_lifecycle_block (source_lines sample_lifecycle) 0 = Ok (sample_block, 9)"
  by code_simp

lemma docs_facts:
  "rr_lifecycle sample_decl = Some sample_block"
  "first_index (\<lambda>r. rs_name r = rr_name sample_decl) (fe_resources docs_feature) = Some 0"
  "rs_lifecycle (fe_resources docs_feature ! 0) = None" "fe_enums docs_feature = []"
  "distinct (map rs_name (fe_resources docs_feature))"
  by (simp_all add: sample_decl_def docs_feature_def empty_resource_def)

theorem lifecycle_lowering_refines_witness:
  "rf_lifecycle (resource_facts_of (fe_resources (lower_lifecycles id id docs_feature [sample_decl]) ! 0)) = Some (authored_facts sample_block) \<and>
   (\<exists>c lit stamps. c \<in> set (fe_commands (lower_lifecycles id id docs_feature [sample_decl])) \<and> cm_name c = ''finish'' \<and>
      cm_effect c = UpdatesRow \<lparr>qn_feature = None, qn_name = ''Doc''\<rparr> (\<lparr>asg_field = ''status'', asg_value = EEnum lit\<rparr> # stamps) [] \<and>
      stored_value (lower_lifecycles id id docs_feature [sample_decl]) lit = Some (StString ''done''))"
proof -
  have "pascal_case id ''draft'' = ''Draft''" "pascal_case id ''done'' = ''Done''" by code_simp+
  then have inj: "inj_on (pascal_case id) (set (map ls_name (lb_states sample_block)))"
    by (auto simp: sample_block_def inj_on_def)
  have free: "\<not> list_ex (\<lambda>d. ed_name d = generated_enum id (rr_name sample_decl) sample_block) (fe_enums docs_feature)"
    by (simp add: docs_facts(4))
  define t where "t = hd (lb_transitions sample_block)"
  have t: "t \<in> set (lb_transitions sample_block)" "lt_to t \<in> set (map ls_name (lb_states sample_block))" "lt_to t = ''done''"
    "lt_name t = ''finish''" "lb_discriminator_field sample_block = ''status''" "rr_name sample_decl = ''Doc''"
    by (simp_all add: t_def sample_block_def sample_decl_def)
  note whole = lifecycle_lowering_refines[OF docs_facts(1-3) free inj HOL.refl, of id]
  have "\<forall>t \<in> set (lb_transitions sample_block). lt_to t \<in> set (map ls_name (lb_states sample_block)) \<longrightarrow>
      (\<exists>c lit stamps. c \<in> set (fe_commands (lower_lifecycles id id docs_feature [sample_decl])) \<and> cm_name c = lt_name t \<and>
        cm_effect c = UpdatesRow \<lparr>qn_feature = None, qn_name = rr_name sample_decl\<rparr>
          (\<lparr>asg_field = lb_discriminator_field sample_block, asg_value = EEnum lit\<rparr> # stamps) [] \<and>
        stored_value (lower_lifecycles id id docs_feature [sample_decl]) lit = Some (StString (lt_to t)))"
    using whole by (elim conjE)
  from this[THEN bspec, OF t(1), THEN mp, OF t(2)] show ?thesis
    unfolding t(3-6) using whole by (intro conjI; elim conjE)
qed

section \<open>From the authored block to the trigger check\<close>

lemma map_of_rev_unique:
  assumes "(k, v) \<in> set xs" "\<And>v'. (k, v') \<in> set xs \<Longrightarrow> v' = v"
  shows "map_of (rev xs) k = Some v"
proof -
  obtain v' where v': "map_of (rev xs) k = Some v'"
    using assms(1) by (cases "map_of (rev xs) k") (auto simp: map_of_eq_None_iff image_iff)
  then have "(k, v') \<in> set xs" using map_of_SomeD by fastforce
  with assms(2) v' show ?thesis by blast
qed

lemma distinct_map_eq: "distinct (map g xs) \<Longrightarrow> x \<in> set xs \<Longrightarrow> y \<in> set xs \<Longrightarrow> g x = g y \<Longrightarrow> x = y"
  by (auto simp: distinct_map dest: inj_onD)

lemma pair_in_index: "g \<in> set fs \<Longrightarrow> x \<in> set (ff_resources g) \<Longrightarrow>
    ((ff_name g, rf_name x), x) \<in> set (concat (map (\<lambda>g. map (\<lambda>x. ((ff_name g, rf_name x), x)) (ff_resources g)) fs))"
  by (auto intro!: bexI[of _ g])

lemma index_resource_local:
  assumes "f \<in> set features" "distinct (map fe_name features)" "r \<in> set (fe_resources f)" "distinct (map rs_name (fe_resources f))"
  shows "index_resource (index_new (input_from_features features)) (fe_name f) \<lparr>qn_feature = None, qn_name = rs_name r\<rparr> =
    Some (resource_facts_of r)"
proof -
  let ?fs = "input_from_features features"
  let ?ix = "index_new ?fs"
  have mem: "feature_facts_of f \<in> set ?fs" using assms(1) by (simp add: input_from_features_def)
  have "map_of (ix_features ?ix) (fe_name f) = Some (feature_facts_of f)"
    unfolding index_new_def index.simps lookup_bmap_of
  proof (rule map_of_rev_unique)
    show "(fe_name f, feature_facts_of f) \<in> set (map (\<lambda>g. (ff_name g, g)) ?fs)"
      using mem by (auto simp: feature_facts_of_def image_iff)
    fix v assume "(fe_name f, v) \<in> set (map (\<lambda>g. (ff_name g, g)) ?fs)"
    then obtain g where "g \<in> set features" "v = feature_facts_of g" "fe_name g = fe_name f"
      by (auto simp: input_from_features_def feature_facts_of_def)
    then show "v = feature_facts_of f" using distinct_map_eq[OF assms(2)] assms(1) by blast
  qed
  then obtain rest where reach: "reachable ?ix (fe_name f) = feature_facts_of f # rest"
    by (simp add: reachable_def)
  have "map_of (ix_resources ?ix) (fe_name f, rs_name r) = Some (resource_facts_of r)"
    unfolding index_new_def index.simps lookup_bmap_of
  proof (rule map_of_rev_unique)
    let ?pairs = "concat (map (\<lambda>g. map (\<lambda>x. ((ff_name g, rf_name x), x)) (ff_resources g)) ?fs)"
    have m: "resource_facts_of r \<in> set (ff_resources (feature_facts_of f))" using assms(3) by (simp add: feature_facts_of_def)
    have n: "ff_name (feature_facts_of f) = fe_name f" "rf_name (resource_facts_of r) = rs_name r"
      by (simp_all add: feature_facts_of_def resource_facts_of_def)
    show "((fe_name f, rs_name r), resource_facts_of r) \<in> set ?pairs"
      using pair_in_index[OF mem m] unfolding n .
    fix v assume "((fe_name f, rs_name r), v) \<in> set ?pairs"
    then obtain g x where "g \<in> set features" "fe_name g = fe_name f" "x \<in> set (fe_resources g)" "v = resource_facts_of x"
      "rs_name x = rs_name r"
      by (auto simp: input_from_features_def feature_facts_of_def resource_facts_of_def)
    then show "v = resource_facts_of r"
      using distinct_map_eq[OF assms(2), of g f] assms(1,3) distinct_map_eq[OF assms(4), of x r] by blast
  qed
  then show ?thesis using reach by (simp add: index_resource_def feature_facts_of_def)
qed

text \<open>
  C22. From source text to diagnostics: for a parsed lifecycle block, lowered into a feature of a module
  whose feature and resource names are unique, the trigger check says nothing about a command that updates
  the resource exactly when the command leaves the discriminator alone and its triggers, fired in order,
  are a run of the lifecycle as authored, from some state.
\<close>

theorem triggers_run_authored_lifecycle:
  assumes "parse_lifecycle_block ls start = Ok (ast, n)" "rr_lifecycle decl = Some ast"
    "first_index (\<lambda>r. rs_name r = rr_name decl) (fe_resources f) = Some i" "rs_lifecycle (fe_resources f ! i) = None"
    "distinct (map rs_name (fe_resources f))"
    "lower_lifecycles up low f [decl] \<in> set features" "distinct (map fe_name features)"
    "cm_triggers c \<noteq> []" "cm_effect c = UpdatesRow \<lparr>qn_feature = None, qn_name = rr_name decl\<rparr> assigned scope"
  shows "check_command (command_facts_of (fe_name f) c) (index_new (input_from_features features)) = [] \<longleftrightarrow>
    list_all (\<lambda>a. asg_field a \<noteq> ''lifecycle_state'' \<and> asg_field a \<noteq> lb_discriminator_field ast) assigned \<and>
    (\<exists>s s'. lifecycle_run (transition_map (authored_facts ast)) s (cm_triggers c) s')"
proof -
  let ?f = "lower_lifecycles up low f [decl]"
  have f': "?f = lower_one_lifecycle up low decl f" by (simp add: lower_lifecycles_def)
  note eff = lower_one_effect[OF assms(2-4), of up low, folded f']
  have i: "i < length (fe_resources f)" "rs_name (fe_resources f ! i) = rr_name decl"
    using assms(3) by (simp_all add: first_index_Some_iff)
  define r where "r = fe_resources ?f ! i"
  have r: "r = lowered_resource (fe_resources f ! i) ast (generated_enum up (rr_name decl) ast)"
    "r \<in> set (fe_resources ?f)" "rs_name r = rr_name decl"
    using eff(1) i lowered_resource_facts(1) by (simp_all add: r_def set_update_memI)
  have names: "distinct (map rs_name (fe_resources ?f))" using assms(5) lower_one_names unfolding f' by simp
  have idx: "index_resource (index_new (input_from_features features)) (fe_name f) \<lparr>qn_feature = None, qn_name = rr_name decl\<rparr> =
      Some (resource_facts_of r)"
    using index_resource_local[OF assms(6,7) r(2) names] r(3) eff(4) by simp
  have life: "rf_lifecycle (resource_facts_of r) = Some (authored_facts ast)"
    unfolding r(1) by (rule projected_lifecycle)
  have src: "\<forall>t \<in> set (lf_transitions (authored_facts ast)). tf_from t \<noteq> []"
    using lifecycle_block_parts[OF assms(1)] by (auto simp: authored_facts_def list_all_iff wf_transition_def)
  let ?c = "command_facts_of (fe_name f) c"
  have c: "cf_triggers ?c \<noteq> []" "cf_effect ?c = Updates \<lparr>qn_feature = None, qn_name = rr_name decl\<rparr> (map asg_field assigned)"
    "cf_feature ?c = fe_name f" "cf_triggers ?c = cm_triggers c"
    using assms(8,9) by (simp_all add: command_facts_of_def)
  have idx': "index_resource (index_new (input_from_features features)) (cf_feature ?c) \<lparr>qn_feature = None, qn_name = rr_name decl\<rparr> =
      Some (resource_facts_of r)"
    unfolding c(3) by (rule idx)
  have run: "check_command ?c (index_new (input_from_features features)) = [] \<longleftrightarrow>
      \<not> assigns_lifecycle_field (map asg_field assigned) (Some (authored_facts ast)) \<and>
      (\<exists>s s'. lifecycle_run (transition_map (authored_facts ast)) s (cf_triggers ?c) s')"
    by (rule check_command_run_iff[OF c(1) c(2) idx' life src])
  have assigns: "assigns_lifecycle_field (map asg_field assigned) (Some (authored_facts ast)) \<longleftrightarrow>
      \<not> list_all (\<lambda>a. asg_field a \<noteq> ''lifecycle_state'' \<and> asg_field a \<noteq> lb_discriminator_field ast) assigned"
    by (auto simp: assigns_lifecycle_field_def authored_facts_def list_ex_iff list_all_iff)
  show ?thesis unfolding run assigns c(4) not_not ..
qed


definition finish_command :: command_ir where
  "finish_command = (lower_transition_command id id ''Doc'' sample_block (hd (lb_transitions sample_block)) ''DocStatus'')
     \<lparr>cm_triggers := [''finish''], cm_effect := UpdatesRow \<lparr>qn_feature = None, qn_name = ''Doc''\<rparr> [] []\<rparr>"

theorem triggers_run_authored_lifecycle_witness:
  "check_command (command_facts_of ''docs'' finish_command)
     (index_new (input_from_features [lower_lifecycles id id docs_feature [sample_decl]])) = [] \<longleftrightarrow>
   (\<exists>s s'. lifecycle_run (transition_map (authored_facts sample_block)) s [''finish''] s')"
proof -
  have c: "cm_triggers finish_command \<noteq> []" "cm_triggers finish_command = [''finish'']"
    "cm_effect finish_command = UpdatesRow \<lparr>qn_feature = None, qn_name = rr_name sample_decl\<rparr> [] []"
    by (simp_all add: finish_command_def sample_decl_def)
  have m: "lower_lifecycles id id docs_feature [sample_decl] \<in> set [lower_lifecycles id id docs_feature [sample_decl]]"
    "distinct (map fe_name [lower_lifecycles id id docs_feature [sample_decl]])" by simp_all
  have n: "fe_name docs_feature = ''docs''" by (simp add: docs_feature_def)
  show ?thesis
    using triggers_run_authored_lifecycle[OF sample_parsed docs_facts(1-3,5) m c(1,3)] unfolding n c(2) by simp
qed

end
