(* ===== verification/Owner_Scope.thy ===== *)
theory Owner_Scope
  imports Edit_Distance Text_Helpers
begin

text \<open>
  The ownership rules of the resource conventions (\<^verbatim>\<open>conventions/owner_scope.rs\<close>,
  \<^verbatim>\<open>conventions/diagnostics.rs\<close>). A field annotated \<^verbatim>\<open>@owner_axis(through: col)\<close> says that a row belongs
  to the user that \<^verbatim>\<open>col\<close> of the referenced resource names; the analyzer turns the first annotation that
  resolves into an SQL predicate. A vector of diagnostics that is passed along is a list that is extended.

  Shown here: which annotation is chosen, and exactly which diagnostics are reported.
\<close>

section \<open>Diagnostics\<close>

datatype ConventionSynthDiagnostic =
    PolicyNotFound string
  | NoRequiredFields string
  | SignatureMismatch string string string
  | MeNoActorResolution string
  | MeSignatureMismatch string string string
  | OwnerAxisUnknownThrough string string string string "string option"
  | OwnerAxisThroughNotUserKeyed string string string string
  | OwnerAxisCollidesWithUniqueUser string string

fun diagnostic_code :: "ConventionSynthDiagnostic \<Rightarrow> string" where
  "diagnostic_code (SignatureMismatch _ _ _) = ''@correctness.crud_synth_author_signature_mismatch''"
| "diagnostic_code (PolicyNotFound _) = ''crud_synth_policy_not_found''"
| "diagnostic_code (NoRequiredFields _) = ''crud_synth_no_required_fields''"
| "diagnostic_code (MeNoActorResolution _) = ''me_synth_no_actor_resolution''"
| "diagnostic_code (MeSignatureMismatch _ _ _) = ''me_synth_signature_mismatch''"
| "diagnostic_code (OwnerAxisUnknownThrough _ _ _ _ _) = ''owner_axis_unknown_through''"
| "diagnostic_code (OwnerAxisThroughNotUserKeyed _ _ _ _) = ''owner_axis_through_not_user_keyed''"
| "diagnostic_code (OwnerAxisCollidesWithUniqueUser _ _) = ''owner_axis_collides_with_unique_user''"

fun convention_severity :: "ConventionSynthDiagnostic \<Rightarrow> string" where
  "convention_severity (SignatureMismatch _ _ _) = ''warning''"
| "convention_severity _ = ''error''"

section \<open>Resolution\<close>

definition refers_to :: "string \<Rightarrow> TypeRef \<Rightarrow> bool" where
  "refers_to name t \<longleftrightarrow> (case t of UserDefined q \<Rightarrow> qn_name q = name | _ \<Rightarrow> False)"

definition has_user_unique :: "resource_ir \<Rightarrow> bool" where
  "has_user_unique resource \<longleftrightarrow> list_ex (\<lambda>f. fi_name f = ''user'' \<and> fi_required f \<and> fi_unique f \<and>
     refers_to ''User'' (fi_type_ref f)) (rs_fields resource)"

datatype OwnerScopeResolution = Scoped owner_scope_sql | TenantScope

definition owner_scope_where :: "string \<Rightarrow> string \<Rightarrow> string \<Rightarrow> string" where
  "owner_scope_where fk_col fk_target through =
     fk_col @ '' IN (SELECT id FROM '' @ quoted_table fk_target @ '' WHERE '' @ quoted_ident through @ '' = ctx.User.ID)''"

definition owner_scope_cte_prefix :: "string \<Rightarrow> string \<Rightarrow> string \<Rightarrow> string" where
  "owner_scope_cte_prefix fk_col fk_target through =
     ''WITH owner_check AS (SELECT 1 FROM '' @ quoted_table fk_target @ '' WHERE id = $'' @ fk_col @ '' AND '' @
     quoted_ident through @ '' = ctx.User.ID)''"

record axis_state =
  ax_emitted_collision :: bool
  ax_chosen :: "owner_scope_sql option"
  ax_diagnostics :: "ConventionSynthDiagnostic list"

definition axis_scope :: "string \<Rightarrow> string \<Rightarrow> string \<Rightarrow> owner_scope_sql" where
  "axis_scope field_name fk_target through =
     \<lparr>os_field_name = field_name, os_fk_target = fk_target, os_through_column = through,
      os_where_predicate = owner_scope_where field_name fk_target through,
      os_cte_owner_check = Some (owner_scope_cte_prefix field_name fk_target through)\<rparr>"

definition choose_axis :: "owner_scope_sql \<Rightarrow> axis_state \<Rightarrow> axis_state" where
  "choose_axis scope st = (if ax_chosen st = None then st\<lparr>ax_chosen := Some scope\<rparr> else st)"

definition push_diag :: "ConventionSynthDiagnostic \<Rightarrow> axis_state \<Rightarrow> axis_state" where
  "push_diag d st = st\<lparr>ax_diagnostics := ax_diagnostics st @ [d]\<rparr>"

definition axis_step :: "feature_ir \<Rightarrow> resource_ir \<Rightarrow> bool \<Rightarrow> field_ir \<Rightarrow> axis_state \<Rightarrow> axis_state" where
  "axis_step feature resource user_unique field st =
     (case fi_owner_axis field of None \<Rightarrow> st
      | Some through \<Rightarrow>
          if user_unique then
            (if ax_emitted_collision st then st
             else push_diag (OwnerAxisCollidesWithUniqueUser (rs_name resource) (fi_name field)) st
               \<lparr>ax_emitted_collision := True\<rparr>)
          else (case fi_type_ref field of
              UserDefined fk_qname \<Rightarrow>
                (let fk_target = qn_name fk_qname;
                     scope = axis_scope (fi_name field) fk_target through in
                 case find (\<lambda>r. rs_name r = fk_target) (fe_resources feature) of
                   None \<Rightarrow> choose_axis scope st
                 | Some fk_resource \<Rightarrow>
                     (case find (\<lambda>f. fi_name f = through) (rs_fields fk_resource) of
                        None \<Rightarrow> push_diag (OwnerAxisUnknownThrough (rs_name resource) (fi_name field) through fk_target
                          (nearest_field_name through (rs_fields fk_resource))) st
                      | Some through_field \<Rightarrow>
                          choose_axis scope
                            (if refers_to ''User'' (fi_type_ref through_field) then st
                             else push_diag (OwnerAxisThroughNotUserKeyed (rs_name resource) (fi_name field) through
                               fk_target) st)))
            | _ \<Rightarrow> st))"

definition resolve_owner_scope ::
  "feature_ir \<Rightarrow> resource_ir \<Rightarrow> ConventionSynthDiagnostic list \<Rightarrow> OwnerScopeResolution \<times> ConventionSynthDiagnostic list" where
  "resolve_owner_scope feature resource diagnostics_out =
     (let st = fold (axis_step feature resource (has_user_unique resource)) (rs_fields resource)
        \<lparr>ax_emitted_collision = False, ax_chosen = None, ax_diagnostics = diagnostics_out\<rparr> in
      (case ax_chosen st of Some scope \<Rightarrow> Scoped scope | None \<Rightarrow> TenantScope, ax_diagnostics st))"

section \<open>Which annotation is chosen\<close>

text \<open>An annotation resolves when its field is a reference and the column it goes through is a column of
  the target, as far as the target is declared in this feature.\<close>

definition axis_column :: "feature_ir \<Rightarrow> string \<Rightarrow> string \<Rightarrow> field_ir option option" where
  "axis_column feature fk_target through =
     map_option (\<lambda>r. find (\<lambda>f. fi_name f = through) (rs_fields r))
       (find (\<lambda>r. rs_name r = fk_target) (fe_resources feature))"

definition axis_resolution :: "feature_ir \<Rightarrow> field_ir \<Rightarrow> owner_scope_sql option" where
  "axis_resolution feature field =
     (case (fi_owner_axis field, fi_type_ref field) of
        (Some through, UserDefined q) \<Rightarrow>
          if axis_column feature (qn_name q) through = Some None then None
          else Some (axis_scope (fi_name field) (qn_name q) through)
      | _ \<Rightarrow> None)"

definition axis_diagnostics :: "feature_ir \<Rightarrow> resource_ir \<Rightarrow> field_ir \<Rightarrow> ConventionSynthDiagnostic list" where
  "axis_diagnostics feature resource field =
     (case (fi_owner_axis field, fi_type_ref field) of
        (Some through, UserDefined q) \<Rightarrow>
          (case find (\<lambda>r. rs_name r = qn_name q) (fe_resources feature) of
             None \<Rightarrow> []
           | Some target \<Rightarrow> (case find (\<lambda>f. fi_name f = through) (rs_fields target) of
               None \<Rightarrow> [OwnerAxisUnknownThrough (rs_name resource) (fi_name field) through (qn_name q)
                 (nearest_field_name through (rs_fields target))]
             | Some c \<Rightarrow> if refers_to ''User'' (fi_type_ref c) then []
                 else [OwnerAxisThroughNotUserKeyed (rs_name resource) (fi_name field) through (qn_name q)]))
      | _ \<Rightarrow> [])"

definition first_some :: "'a option \<Rightarrow> 'a option \<Rightarrow> 'a option" where
  "first_some a b = (case a of Some x \<Rightarrow> Some x | None \<Rightarrow> b)"

lemma first_some_simps [simp]: "first_some (Some x) b = Some x" "first_some None b = b" "first_some a None = a"
  by (simp_all add: first_some_def split: option.splits)

lemma axis_step_free:
  "axis_step feature resource False field st =
     st\<lparr>ax_chosen := first_some (ax_chosen st) (axis_resolution feature field),
        ax_diagnostics := ax_diagnostics st @ axis_diagnostics feature resource field\<rparr>"
  by (cases st) (auto simp: axis_step_def axis_resolution_def axis_diagnostics_def axis_column_def choose_axis_def
      push_diag_def Let_def first_some_def split: option.splits TypeRef.splits)

lemma axis_steps_free:
  "fold (axis_step feature resource False) fs st =
     st\<lparr>ax_chosen := first_some (ax_chosen st) (Option.bind (find (\<lambda>f. axis_resolution feature f \<noteq> None) fs)
          (axis_resolution feature)),
        ax_diagnostics := ax_diagnostics st @ concat (map (axis_diagnostics feature resource) fs)\<rparr>"
proof (induction fs arbitrary: st)
  case (Cons f fs)
  then show ?case
    by (cases "ax_chosen st"; cases "axis_resolution feature f") (simp_all add: axis_step_free)
qed simp

lemma axis_steps_collide:
  "ax_chosen (fold (axis_step feature resource True) fs st) = ax_chosen st \<and>
   ax_diagnostics (fold (axis_step feature resource True) fs st) =
     ax_diagnostics st @
       (case find (\<lambda>f. fi_owner_axis f \<noteq> None) fs of
          Some f \<Rightarrow> if ax_emitted_collision st then [] else [OwnerAxisCollidesWithUniqueUser (rs_name resource) (fi_name f)]
        | None \<Rightarrow> [])"
proof (induction fs arbitrary: st)
  case (Cons f fs)
  show ?case
  proof (cases "fi_owner_axis f")
    case None
    then show ?thesis using Cons[of st] by (simp add: axis_step_def)
  next
    case (Some through)
    then show ?thesis using Cons[of "axis_step feature resource True f st"]
      by (auto simp: axis_step_def push_diag_def split: option.splits)
  qed
qed simp

lemma resolve_owner_scope_eq:
  "resolve_owner_scope feature resource ds =
     (if has_user_unique resource then
        (TenantScope, ds @ (case find (\<lambda>f. fi_owner_axis f \<noteq> None) (rs_fields resource) of
           Some f \<Rightarrow> [OwnerAxisCollidesWithUniqueUser (rs_name resource) (fi_name f)] | None \<Rightarrow> []))
      else
        (case Option.bind (find (\<lambda>f. axis_resolution feature f \<noteq> None) (rs_fields resource)) (axis_resolution feature) of
           Some scope \<Rightarrow> Scoped scope | None \<Rightarrow> TenantScope,
         ds @ concat (map (axis_diagnostics feature resource) (rs_fields resource))))"
  using axis_steps_collide[of feature resource "rs_fields resource"
      "\<lparr>ax_emitted_collision = False, ax_chosen = None, ax_diagnostics = ds\<rparr>"]
  by (auto simp: resolve_owner_scope_def Let_def axis_steps_free split: option.splits)

lemma resolve_owner_scope_extends:
  "\<exists>new. \<forall>ds. snd (resolve_owner_scope feature resource ds) = ds @ new"
  by (auto simp: resolve_owner_scope_eq)

lemma resolve_owner_scope_fst:
  "fst (resolve_owner_scope feature resource ds) = fst (resolve_owner_scope feature resource [])"
  by (auto simp: resolve_owner_scope_eq)

end
