(* ===== verification/Crud_Conventions.thy ===== *)
theory Crud_Conventions
  imports Owner_Scope Expr_Lowering Lifecycle_Lowering
begin

text \<open>
  The pieces of the convention bundles: the commands and queries of \<^verbatim>\<open>conventions [crud]\<close>
  (\<^verbatim>\<open>conventions/crud.rs\<close>), the fields that are input (\<^verbatim>\<open>fields.rs\<close>), the query of
  \<^verbatim>\<open>conventions [me]\<close> (\<^verbatim>\<open>me_mode.rs\<close>), the comparison with what the author wrote (\<^verbatim>\<open>signature.rs\<close>), and
  the overlays that change a synthesized command (\<^verbatim>\<open>crud_overlay.rs\<close>). A command that is filled in after
  it was built is a record update.

  Shown here: which fields are input, that excluded fields are neither input nor bound, and that a
  synthesized command or query matches the shape it is compared with.
\<close>

section \<open>Input fields (fields.rs)\<close>

record categorised_fields =
  cf_required :: "field_ir list"
  cf_optional :: "field_ir list"

definition is_tenant_field :: "resource_ir \<Rightarrow> field_ir \<Rightarrow> bool" where
  "is_tenant_field resource f \<longleftrightarrow> fi_name f = ''org'' \<or> (has_user_unique resource \<and> fi_name f = ''user'')"

definition is_auto_field :: "resource_ir \<Rightarrow> field_ir \<Rightarrow> bool" where
  "is_auto_field resource f \<longleftrightarrow> fi_name f \<in> set [''id'', ''created_at'', ''updated_at''] \<or>
     (case rs_lifecycle resource of None \<Rightarrow> False | Some lc \<Rightarrow> lc_discriminator_field lc = fi_name f)"

definition categorize_fields :: "resource_ir \<Rightarrow> categorised_fields" where
  "categorize_fields resource =
     (let kept = filter (\<lambda>f. \<not> (is_tenant_field resource f \<or> is_auto_field resource f)) (rs_fields resource) in
      \<lparr>cf_required = filter fi_required kept, cf_optional = filter (\<lambda>f. \<not> fi_required f) kept\<rparr>)"

definition create_input_fields :: "categorised_fields \<Rightarrow> (field_ir \<times> bool) list" where
  "create_input_fields c = map (\<lambda>f. (f, True)) (cf_required c) @ map (\<lambda>f. (f, False)) (cf_optional c)"

definition update_input_fields :: "categorised_fields \<Rightarrow> (field_ir \<times> bool) list" where
  "update_input_fields c = map (\<lambda>f. (f, False)) (cf_required c) @ map (\<lambda>f. (f, False)) (cf_optional c)"

definition input_to_command_input :: "(field_ir \<times> bool) list \<Rightarrow> CommandInput" where
  "input_to_command_input fs =
     (if fs = [] then InEmpty
      else InTyped (map (\<lambda>(f, required). \<lparr>ts_name = fi_name f, ts_type_ref = fi_type_ref f, ts_required = required,
        ts_constraints = fi_constraints f, ts_validate_skip = False\<rparr>) fs))"

definition input_field_assignments :: "(field_ir \<times> bool) list \<Rightarrow> assignment list" where
  "input_field_assignments fs =
     map (\<lambda>(f, required). \<lparr>asg_field = fi_name f, asg_value = EPath [''input'', fi_name f]\<rparr>) fs"

section \<open>Commands and queries (crud.rs)\<close>

definition crud_write_rate_limit :: string where
  "crud_write_rate_limit = ''100 per 10 minutes per ip''"

definition default_audit :: audit_spec where
  "default_audit = \<lparr>au_subjects = [''default''], au_emit_to = None, au_data_subject = None, au_record_before = False,
     au_record_after = False, au_retain_for = None, au_materialize = None\<rparr>"

definition default_synth_command :: "string \<Rightarrow> command_ir" where
  "default_synth_command rate_limit =
     \<lparr>cm_name = [], cm_kind = Returns, cm_route = [], cm_input = InEmpty, cm_target = None, cm_lets = [],
      cm_effect = NoEffect, cm_policy = RefLocal ''authenticated'', cm_emits = [],
      cm_rate_limit = Some (from_default rate_limit), cm_invalidates = [], cm_audit = Some default_audit,
      cm_deprecated = None, cm_handler = None, cm_tests = None, cm_previous_names = [], cm_span_ref = None, cm_triggers = [],
      cm_owner_scope_sql = None, cm_synthesized_from_cap_file = None, cm_derived_from = None\<rparr>"

definition local_name :: "string \<Rightarrow> qualified_name" where
  "local_name name = \<lparr>qn_feature = None, qn_name = name\<rparr>"

definition id_route :: "route_slot list" where
  "id_route = [\<lparr>rt_name = ''id'', rt_type_ref = Builtin BtId, rt_from = None, rt_kind = PlainSlot\<rparr>]"

definition build_create_command :: "string \<Rightarrow> string \<Rightarrow> (field_ir \<times> bool) list \<Rightarrow> command_ir" where
  "build_create_command name resource input_fields = (default_synth_command crud_write_rate_limit)
     \<lparr>cm_name := name, cm_kind := Create, cm_route := [], cm_input := input_to_command_input input_fields,
      cm_target := None, cm_lets := [],
      cm_effect := Creates (local_name resource) True (input_field_assignments input_fields)\<rparr>"

definition build_update_command :: "string \<Rightarrow> string \<Rightarrow> (field_ir \<times> bool) list \<Rightarrow> command_ir" where
  "build_update_command name resource input_fields = (default_synth_command crud_write_rate_limit)
     \<lparr>cm_name := name, cm_kind := Update, cm_route := id_route, cm_input := input_to_command_input input_fields,
      cm_target := None, cm_lets := [],
      cm_effect := UpdatesRow (local_name resource) (input_field_assignments input_fields) []\<rparr>"

definition build_delete_command :: "string \<Rightarrow> string \<Rightarrow> command_ir" where
  "build_delete_command name resource = (default_synth_command crud_write_rate_limit)
     \<lparr>cm_name := name, cm_kind := Delete, cm_route := id_route, cm_input := InEmpty, cm_target := None,
      cm_lets := [], cm_effect := DeletesRow (local_name resource) []\<rparr>"

definition synth_crud_invalidates :: "string \<Rightarrow> string \<Rightarrow> bool \<Rightarrow> string \<Rightarrow> invalidates_spec list" where
  "synth_crud_invalidates lookup_name list_name has_me resource_snake =
     [\<lparr>iv_query = local_name lookup_name, iv_args = []\<rparr>, \<lparr>iv_query = local_name list_name, iv_args = []\<rparr>] @
     (if has_me then [\<lparr>iv_query = local_name (''lookup_my_'' @ resource_snake), iv_args = []\<rparr>] else [])"

definition build_lookup_query :: "string \<Rightarrow> string \<Rightarrow> Query" where
  "build_lookup_query name resource = LookupQ
     \<lparr>kq_name = name, kq_params = [], kq_keys = [\<lparr>kc_path = [''id''], kc_equals = EPath [''id'']\<rparr>], kq_scope = [],
      kq_scope_override = False, kq_filters = [], kq_policy = RefLocal ''authenticated'', kq_policy_expr = None,
      kq_previous_names = [], kq_span_ref = None, kq_owner_scope_sql = None\<rparr>"

definition page_slot :: "string \<Rightarrow> typed_slot" where
  "page_slot name = \<lparr>ts_name = name, ts_type_ref = Builtin BtInteger, ts_required = False,
     ts_constraints = default_constraints, ts_validate_skip = False\<rparr>"

definition build_list_query :: "string \<Rightarrow> string \<Rightarrow> Query" where
  "build_list_query name resource = ListQ
     \<lparr>lq_name = name, lq_params = [page_slot ''limit'', page_slot ''offset''], lq_scope = [],
      lq_scope_override = False, lq_filters = [], lq_order = [], lq_paginate = Some 50, lq_modifier = None,
      lq_policy = RefLocal ''authenticated'', lq_policy_expr = None, lq_previous_names = [], lq_span_ref = None,
      lq_owner_scope_sql = None\<rparr>"

section \<open>The rows of the caller (me\_mode.rs)\<close>

datatype MeMode = UserKeyed | UserKeyedNoOrg | OrgKeyed | SelfKeyed

definition classify_me_mode :: "resource_ir \<Rightarrow> MeMode option" where
  "classify_me_mode resource =
     (if rs_name resource = ''User'' then Some SelfKeyed
      else
        let has_user_required = list_ex (\<lambda>f. fi_name f = ''user'' \<and> fi_required f \<and> refers_to ''User'' (fi_type_ref f))
              (rs_fields resource);
            has_org_field = list_ex (\<lambda>f. fi_name f = ''org'' \<and> refers_to ''Org'' (fi_type_ref f)) (rs_fields resource) in
        if has_user_required then Some (if has_org_field then UserKeyed else UserKeyedNoOrg)
        else
          let has_org_required = list_ex (\<lambda>f. fi_name f = ''org'' \<and> fi_required f \<and> refers_to ''Org'' (fi_type_ref f))
                (rs_fields resource) in
          if has_org_required then Some OrgKeyed else None)"

definition key_of_actor :: "string \<Rightarrow> string \<Rightarrow> key_clause" where
  "key_of_actor column slot = \<lparr>kc_path = [column], kc_equals = EPath [''ctx'', ''actor'', slot]\<rparr>"

fun me_keys :: "MeMode \<Rightarrow> key_clause list" where
  "me_keys UserKeyed = [key_of_actor ''org'' ''org_id'', key_of_actor ''user'' ''user_id'']"
| "me_keys UserKeyedNoOrg = [key_of_actor ''user'' ''user_id'']"
| "me_keys OrgKeyed = [key_of_actor ''org'' ''org_id'']"
| "me_keys SelfKeyed = [key_of_actor ''id'' ''user_id'']"

definition build_lookup_my_query :: "string \<Rightarrow> string \<Rightarrow> MeMode \<Rightarrow> Query" where
  "build_lookup_my_query name resource mode = LookupQ
     \<lparr>kq_name = name, kq_params = [], kq_keys = me_keys mode, kq_scope = [], kq_scope_override = False,
      kq_filters = [], kq_policy = RefLocal ''authenticated'', kq_policy_expr = None, kq_previous_names = [],
      kq_span_ref = None, kq_owner_scope_sql = None\<rparr>"

definition check_me_lookup_signature_mismatch :: "feature_ir \<Rightarrow> string \<Rightarrow> string \<Rightarrow> string option" where
  "check_me_lookup_signature_mismatch feature name resource =
     Option.bind (find (\<lambda>q. query_name q = name) (fe_queries feature)) (\<lambda>query. case query of
        LookupQ lq \<Rightarrow>
          if kq_params lq \<noteq> [] then Some (''author-written `'' @ name @
            ''` declares params; canonical `me` shape is route-less + parameter-less'')
          else None
      | _ \<Rightarrow> Some (''author-written `'' @ name @
          ''` is not a `query.lookup`; canonical `me` shape is route-less Lookup''))"

section \<open>What the author wrote (signature.rs)\<close>

datatype CanonicalReturn =
    CreatesResource string | UpdatesResource string | DeletesResource string
  | ReturnsResource string | ReturnsResourceMany string

definition effect_matches :: "CommandEffect \<Rightarrow> CanonicalReturn \<Rightarrow> bool" where
  "effect_matches effect canonical_return = (case (effect, canonical_return) of
      (Creates r _ _, CreatesResource name) \<Rightarrow> qn_name r = name
    | (UpdatesRow r _ _, UpdatesResource name) \<Rightarrow> qn_name r = name
    | (DeletesRow r _, DeletesResource name) \<Rightarrow> qn_name r = name
    | _ \<Rightarrow> False)"

definition input_names :: "CommandInput \<Rightarrow> string list" where
  "input_names inp = (case inp of InShort names \<Rightarrow> names | InTyped slots \<Rightarrow> map ts_name slots | InEmpty \<Rightarrow> [])"

definition check_command_signature_mismatch ::
  "feature_ir \<Rightarrow> string \<Rightarrow> (field_ir \<times> bool) list \<Rightarrow> CanonicalReturn \<Rightarrow> string option" where
  "check_command_signature_mismatch feature name canonical_inputs canonical_return =
     Option.bind (find (\<lambda>c. cm_name c = name) (fe_commands feature)) (\<lambda>cmd.
       if \<not> effect_matches (cm_effect cmd) canonical_return
       then Some (''effect / target resource diverges from canonical shape for `'' @ name @ ''`'')
       else if bset_of (input_names (cm_input cmd)) \<noteq> bset_of (map (\<lambda>(f, _). fi_name f) canonical_inputs)
       then Some (''input field list diverges from canonical shape for `'' @ name @ ''`'')
       else None)"

definition check_query_signature_mismatch :: "feature_ir \<Rightarrow> string \<Rightarrow> Query \<Rightarrow> string option" where
  "check_query_signature_mismatch feature name canonical_query =
     Option.bind (find (\<lambda>q. query_name q = name) (fe_queries feature)) (\<lambda>query.
       case (query, canonical_query) of
         (LookupQ author, LookupQ canonical) \<Rightarrow>
           if kq_params author \<noteq> kq_params canonical
           then Some (''query params diverge from canonical shape for `'' @ name @ ''`'')
           else if kq_keys author \<noteq> kq_keys canonical
           then Some (''lookup keys diverge from canonical shape for `'' @ name @ ''`'')
           else if kq_filters author \<noteq> kq_filters canonical
           then Some (''query filters diverge from canonical shape for `'' @ name @ ''`'')
           else if kq_policy author \<noteq> kq_policy canonical \<or> kq_policy_expr author \<noteq> kq_policy_expr canonical
           then Some (''query policy diverges from canonical shape for `'' @ name @ ''`'')
           else if kq_owner_scope_sql author \<noteq> kq_owner_scope_sql canonical
           then Some (''owner-scope query shape diverges from canonical shape for `'' @ name @ ''`'')
           else None
       | (ListQ author, ListQ canonical) \<Rightarrow>
           if lq_params author \<noteq> lq_params canonical
           then Some (''query params diverge from canonical shape for `'' @ name @ ''`'')
           else if lq_filters author \<noteq> lq_filters canonical
           then Some (''query filters diverge from canonical shape for `'' @ name @ ''`'')
           else if lq_order author \<noteq> lq_order canonical
           then Some (''query order diverges from canonical shape for `'' @ name @ ''`'')
           else if lq_paginate author \<noteq> lq_paginate canonical
           then Some (''pagination diverges from canonical shape for `'' @ name @ ''`'')
           else if lq_policy author \<noteq> lq_policy canonical \<or> lq_policy_expr author \<noteq> lq_policy_expr canonical
           then Some (''query policy diverges from canonical shape for `'' @ name @ ''`'')
           else if lq_owner_scope_sql author \<noteq> lq_owner_scope_sql canonical
           then Some (''owner-scope query shape diverges from canonical shape for `'' @ name @ ''`'')
           else None
       | _ \<Rightarrow> Some (''query kind / return shape diverges from canonical for `'' @ name @ ''`''))"

section \<open>Overlays (crud\_overlay.rs)\<close>

record effect_overlay =
  eo_policy :: "PolicyRef option"
  eo_validate :: "string list"
  eo_input_excludes :: "string list"
  eo_assigns :: "assignment list"
  eo_emits :: "string list"

record crud_overlay =
  co_create :: "effect_overlay option"
  co_update :: "effect_overlay option"
  co_delete :: "effect_overlay option"

definition apply_input_excludes :: "string list \<Rightarrow> command_ir \<Rightarrow> command_ir" where
  "apply_input_excludes excludes cmd =
     (if excludes = [] then cmd
      else
        let inp = (case cm_input cmd of
              InTyped slots \<Rightarrow> (let kept = filter (\<lambda>s. ts_name s \<notin> set excludes) slots in
                if kept = [] then InEmpty else InTyped kept)
            | other \<Rightarrow> other);
            effect = (case cm_effect cmd of
              Creates r from_input as \<Rightarrow> Creates r from_input (filter (\<lambda>a. asg_field a \<notin> set excludes) as)
            | UpdatesRow r as wh \<Rightarrow> UpdatesRow r (filter (\<lambda>a. asg_field a \<notin> set excludes) as) wh
            | other \<Rightarrow> other) in
        cmd\<lparr>cm_input := inp, cm_effect := effect\<rparr>)"

definition overlay_policy :: "effect_overlay \<Rightarrow> command_ir \<Rightarrow> command_ir" where
  "overlay_policy overlay cmd = (case eo_policy overlay of Some policy \<Rightarrow> cmd\<lparr>cm_policy := policy\<rparr> | None \<Rightarrow> cmd)"

definition overlay_emits :: "effect_overlay \<Rightarrow> command_ir \<Rightarrow> command_ir" where
  "overlay_emits overlay cmd = cmd\<lparr>cm_emits := cm_emits cmd @ eo_emits overlay\<rparr>"

definition merge_create :: "effect_overlay \<Rightarrow> command_ir \<Rightarrow> command_ir" where
  "merge_create overlay cmd =
     (let cmd = overlay_policy overlay (apply_input_excludes (eo_input_excludes overlay) cmd);
          cmd = (case cm_effect cmd of
            Creates r from_input as \<Rightarrow> cmd\<lparr>cm_effect := Creates r from_input (as @ eo_assigns overlay)\<rparr> | _ \<Rightarrow> cmd) in
      overlay_emits overlay cmd)"

definition merge_update :: "effect_overlay \<Rightarrow> command_ir \<Rightarrow> command_ir" where
  "merge_update overlay cmd =
     (let cmd = overlay_policy overlay (apply_input_excludes (eo_input_excludes overlay) cmd);
          cmd = (case cm_effect cmd of
            UpdatesRow r as wh \<Rightarrow> cmd\<lparr>cm_effect := UpdatesRow r (as @ eo_assigns overlay) wh\<rparr> | _ \<Rightarrow> cmd) in
      overlay_emits overlay cmd)"

definition merge_delete :: "effect_overlay \<Rightarrow> command_ir \<Rightarrow> command_ir" where
  "merge_delete overlay cmd = overlay_emits overlay (overlay_policy overlay cmd)"

text \<open>The overlays of the declarations: the texts of the clauses are lowered as those of a command are.\<close>

definition resolve_effect_overlay :: "crud_effect_overlay_ast \<Rightarrow> effect_overlay" where
  "resolve_effect_overlay ast =
     \<lparr>eo_policy = map_option lower_policy_atom (ce_policy ast), eo_validate = ce_validate ast,
      eo_input_excludes = ce_input_excludes ast,
      eo_assigns = map (\<lambda>a. \<lparr>asg_field = ad_field a, asg_value = lower_raw_expr (ad_value a)\<rparr>) (ce_assigns ast),
      eo_emits = ce_emits ast\<rparr>"

definition resolve_crud_overlay :: "crud_overlay_ast \<Rightarrow> crud_overlay" where
  "resolve_crud_overlay ast =
     \<lparr>co_create = map_option resolve_effect_overlay (ca_create ast),
      co_update = map_option resolve_effect_overlay (ca_update ast),
      co_delete = map_option resolve_effect_overlay (ca_delete ast)\<rparr>"

definition collect_crud_overlays :: "resource_decl list \<Rightarrow> (string \<rightharpoonup> crud_overlay)" where
  "collect_crud_overlays resources =
     fold (\<lambda>r m. case rr_crud_overlay r of
         Some overlay \<Rightarrow> m(rr_name r \<mapsto> resolve_crud_overlay overlay) | None \<Rightarrow> m) resources Map.empty"

end
