(* ===== verification/Convention_Synthesis.thy ===== *)
theory Convention_Synthesis
  imports Crud_Conventions
begin

text \<open>
  The pass that expands \<^verbatim>\<open>conventions [crud, me]\<close> (\<^verbatim>\<open>conventions/mod.rs\<close>): for every resource three
  commands and up to three queries, each unless the author wrote one of the same name. The vectors the
  pass fills are the slots of \<open>synth_state\<close>; the five blocks of the \<^verbatim>\<open>crud\<close> bundle and the \<^verbatim>\<open>me\<close> block
  are the calls of \<open>place_command\<close> and \<open>place_query\<close>, in the order of the code. The overlays, a
  \<^verbatim>\<open>HashMap\<close> by resource name, are a map.

  Shown here: which names the pass adds, when two of them clash, that every synthesized command is scoped
  to the owner and cannot write protected columns, and that a second run changes nothing.
\<close>

section \<open>The pass\<close>

record synth_state =
  sy_diagnostics :: "ConventionSynthDiagnostic list"
  sy_commands :: "command_ir list"
  sy_queries :: "Query list"
  sy_origins :: "(string \<times> ConventionOrigin) list"

definition sy_push :: "ConventionSynthDiagnostic \<Rightarrow> synth_state \<Rightarrow> synth_state" where
  "sy_push d st = st\<lparr>sy_diagnostics := sy_diagnostics st @ [d]\<rparr>"

definition sy_origin :: "string \<Rightarrow> ConventionOrigin \<Rightarrow> synth_state \<Rightarrow> synth_state" where
  "sy_origin name origin st = st\<lparr>sy_origins := sy_origins st @ [(name, origin)]\<rparr>"

definition existing_command_names :: "feature_ir \<Rightarrow> string set" where
  "existing_command_names feature = set (map cm_name (fe_commands feature))"

definition existing_query_names :: "feature_ir \<Rightarrow> string set" where
  "existing_query_names feature = set (map query_name (fe_queries feature))"

definition place_command ::
  "feature_ir \<Rightarrow> string \<Rightarrow> string \<Rightarrow> (field_ir \<times> bool) list \<Rightarrow> CanonicalReturn \<Rightarrow> command_ir \<Rightarrow> synth_state \<Rightarrow> synth_state" where
  "place_command feature resource name inputs canonical_return cmd st =
     (if name \<in> existing_command_names feature then
        sy_origin name (AuthorOverride Crud)
          (case check_command_signature_mismatch feature name inputs canonical_return of
             Some reason \<Rightarrow> sy_push (SignatureMismatch resource name reason) st | None \<Rightarrow> st)
      else sy_origin name (Synthesized Crud) (st\<lparr>sy_commands := sy_commands st @ [cmd]\<rparr>))"

definition place_query :: "feature_ir \<Rightarrow> string \<Rightarrow> string \<Rightarrow> Query \<Rightarrow> synth_state \<Rightarrow> synth_state" where
  "place_query feature resource name canonical st =
     (if name \<in> existing_query_names feature then
        sy_origin name (AuthorOverride Crud)
          (case check_query_signature_mismatch feature name canonical of
             Some reason \<Rightarrow> sy_push (SignatureMismatch resource name reason) st | None \<Rightarrow> st)
      else sy_origin name (Synthesized Crud) (st\<lparr>sy_queries := sy_queries st @ [canonical]\<rparr>))"

definition full_scope :: "OwnerScopeResolution \<Rightarrow> owner_scope_sql option" where
  "full_scope owner_scope = (case owner_scope of Scoped scope \<Rightarrow> Some scope | TenantScope \<Rightarrow> None)"

definition where_scope :: "OwnerScopeResolution \<Rightarrow> owner_scope_sql option" where
  "where_scope owner_scope = (case owner_scope of Scoped scope \<Rightarrow> Some (scope\<lparr>os_cte_owner_check := None\<rparr>) | TenantScope \<Rightarrow> None)"

definition scope_command :: "owner_scope_sql option \<Rightarrow> command_ir \<Rightarrow> command_ir" where
  "scope_command scope cmd = (case scope of Some s \<Rightarrow> cmd\<lparr>cm_owner_scope_sql := Some s\<rparr> | None \<Rightarrow> cmd)"

fun scope_query :: "owner_scope_sql option \<Rightarrow> Query \<Rightarrow> Query" where
  "scope_query (Some s) (LookupQ q) = LookupQ (q\<lparr>kq_owner_scope_sql := Some s\<rparr>)"
| "scope_query (Some s) (ListQ q) = ListQ (q\<lparr>lq_owner_scope_sql := Some s\<rparr>)"
| "scope_query scope q = q"

definition merge_overlay :: "(effect_overlay \<Rightarrow> command_ir \<Rightarrow> command_ir) \<Rightarrow> effect_overlay option \<Rightarrow> command_ir \<Rightarrow> command_ir" where
  "merge_overlay merge overlay cmd = (case overlay of Some eff \<Rightarrow> merge eff cmd | None \<Rightarrow> cmd)"

definition create_name :: "resource_ir \<Rightarrow> string" where
  "create_name resource = ''create_'' @ pascal_to_snake (rs_name resource)"
definition update_name :: "resource_ir \<Rightarrow> string" where
  "update_name resource = ''update_'' @ pascal_to_snake (rs_name resource)"
definition delete_name :: "resource_ir \<Rightarrow> string" where
  "delete_name resource = ''delete_'' @ pascal_to_snake (rs_name resource)"
definition lookup_name :: "resource_ir \<Rightarrow> string" where
  "lookup_name resource = ''lookup_'' @ pascal_to_snake (rs_name resource)"
definition list_name :: "resource_ir \<Rightarrow> string" where
  "list_name resource = ''list_'' @ pascal_to_snake (rs_name resource) @ ''s''"
definition lookup_my_name :: "resource_ir \<Rightarrow> string" where
  "lookup_my_name resource = ''lookup_my_'' @ pascal_to_snake (rs_name resource)"

definition invalidated :: "resource_ir \<Rightarrow> invalidates_spec list" where
  "invalidated resource = synth_crud_invalidates (lookup_name resource) (list_name resource)
     (Me \<in> set (rs_conventions resource)) (pascal_to_snake (rs_name resource))"

definition synth_create :: "(string \<rightharpoonup> crud_overlay) \<Rightarrow> OwnerScopeResolution \<Rightarrow> resource_ir \<Rightarrow> command_ir" where
  "synth_create overlays owner_scope resource =
     merge_overlay merge_create (Option.bind (overlays (rs_name resource)) co_create)
       ((scope_command (full_scope owner_scope)
           (build_create_command (create_name resource) (rs_name resource) (create_input_fields (categorize_fields resource))))
        \<lparr>cm_invalidates := invalidated resource\<rparr>)"

definition synth_update :: "(string \<rightharpoonup> crud_overlay) \<Rightarrow> OwnerScopeResolution \<Rightarrow> resource_ir \<Rightarrow> command_ir" where
  "synth_update overlays owner_scope resource =
     merge_overlay merge_update (Option.bind (overlays (rs_name resource)) co_update)
       ((scope_command (where_scope owner_scope)
           (build_update_command (update_name resource) (rs_name resource) (update_input_fields (categorize_fields resource))))
        \<lparr>cm_invalidates := invalidated resource\<rparr>)"

definition synth_delete :: "(string \<rightharpoonup> crud_overlay) \<Rightarrow> OwnerScopeResolution \<Rightarrow> resource_ir \<Rightarrow> command_ir" where
  "synth_delete overlays owner_scope resource =
     merge_overlay merge_delete (Option.bind (overlays (rs_name resource)) co_delete)
       ((scope_command (where_scope owner_scope) (build_delete_command (delete_name resource) (rs_name resource)))
        \<lparr>cm_invalidates := invalidated resource\<rparr>)"

definition crud_bundle ::
  "(string \<rightharpoonup> crud_overlay) \<Rightarrow> feature_ir \<Rightarrow> bool \<Rightarrow> OwnerScopeResolution \<Rightarrow> resource_ir \<Rightarrow> synth_state \<Rightarrow> synth_state" where
  "crud_bundle overlays feature has_authenticated owner_scope resource st =
     (let name = rs_name resource;
          categorised = categorize_fields resource;
          create_inputs = create_input_fields categorised;
          st = (if has_authenticated then st else sy_push (PolicyNotFound name) st);
          st = (if create_inputs = [] then sy_push (NoRequiredFields name) st else st);
          st = place_command feature name (create_name resource) create_inputs (CreatesResource name)
            (synth_create overlays owner_scope resource) st;
          st = place_command feature name (update_name resource) (update_input_fields categorised) (UpdatesResource name)
            (synth_update overlays owner_scope resource) st;
          st = place_command feature name (delete_name resource) [] (DeletesResource name)
            (synth_delete overlays owner_scope resource) st;
          st = place_query feature name (lookup_name resource)
            (scope_query (where_scope owner_scope) (build_lookup_query (lookup_name resource) name)) st in
      place_query feature name (list_name resource)
        (scope_query (where_scope owner_scope) (build_list_query (list_name resource) name)) st)"

definition me_bundle ::
  "feature_ir \<Rightarrow> bool \<Rightarrow> OwnerScopeResolution \<Rightarrow> resource_ir \<Rightarrow> synth_state \<Rightarrow> synth_state" where
  "me_bundle feature has_authenticated owner_scope resource st =
     (let name = rs_name resource;
          st = (if \<not> has_authenticated \<and> PolicyNotFound name \<notin> set (sy_diagnostics st)
                then sy_push (PolicyNotFound name) st else st);
          my_name = lookup_my_name resource in
      case classify_me_mode resource of
        Some m \<Rightarrow>
          if my_name \<in> existing_query_names feature then
            sy_origin my_name (AuthorOverride Me)
              (case check_me_lookup_signature_mismatch feature my_name name of
                 Some reason \<Rightarrow> sy_push (MeSignatureMismatch name my_name reason) st | None \<Rightarrow> st)
          else sy_origin my_name (Synthesized Me)
            (st\<lparr>sy_queries := sy_queries st @ [scope_query (where_scope owner_scope) (build_lookup_my_query my_name name m)]\<rparr>)
      | None \<Rightarrow> sy_push (MeNoActorResolution name) st)"

definition synth_resource ::
  "(string \<rightharpoonup> crud_overlay) \<Rightarrow> feature_ir \<Rightarrow> bool \<Rightarrow> resource_ir \<Rightarrow> synth_state \<Rightarrow> synth_state" where
  "synth_resource overlays feature has_authenticated resource st =
     (let has_crud = Crud \<in> set (rs_conventions resource); has_me = Me \<in> set (rs_conventions resource) in
      if \<not> has_crud \<and> \<not> has_me then st
      else
        let (owner_scope, diagnostics) = resolve_owner_scope feature resource (sy_diagnostics st);
            st = st\<lparr>sy_diagnostics := diagnostics\<rparr>;
            st = (if has_crud then crud_bundle overlays feature has_authenticated owner_scope resource st else st) in
        if has_me then me_bundle feature has_authenticated owner_scope resource st else st)"

definition has_authenticated_policy :: "feature_ir \<Rightarrow> bool" where
  "has_authenticated_policy feature \<longleftrightarrow> list_ex (\<lambda>p. pg_name p = ''authenticated'') (fe_policy_categories feature)"

definition synth_final :: "(string \<rightharpoonup> crud_overlay) \<Rightarrow> feature_ir \<Rightarrow> synth_state" where
  "synth_final overlays feature =
     fold (synth_resource overlays feature (has_authenticated_policy feature)) (fe_resources feature)
       \<lparr>sy_diagnostics = [], sy_commands = [], sy_queries = [], sy_origins = []\<rparr>"

definition synthesize_conventions_with_overlays ::
  "(string \<rightharpoonup> crud_overlay) \<Rightarrow> feature_ir \<Rightarrow> feature_ir \<times> ConventionSynthDiagnostic list" where
  "synthesize_conventions_with_overlays overlays feature =
     (let st = synth_final overlays feature in
      (feature\<lparr>fe_commands := fe_commands feature @ sy_commands st, fe_queries := fe_queries feature @ sy_queries st,
         fe_synth_origins := fold (\<lambda>(k, v). bmap_insert k v) (sy_origins st) (fe_synth_origins feature)\<rparr>,
       sy_diagnostics st))"

definition synthesize_conventions :: "feature_ir \<Rightarrow> feature_ir \<times> ConventionSynthDiagnostic list" where
  "synthesize_conventions feature = synthesize_conventions_with_overlays Map.empty feature"

section \<open>What a resource adds\<close>

definition commands_of :: "(string \<rightharpoonup> crud_overlay) \<Rightarrow> feature_ir \<Rightarrow> resource_ir \<Rightarrow> command_ir list" where
  "commands_of overlays feature resource =
     (if Crud \<in> set (rs_conventions resource) then
        let owner_scope = fst (resolve_owner_scope feature resource []) in
        filter (\<lambda>c. cm_name c \<notin> existing_command_names feature)
          [synth_create overlays owner_scope resource, synth_update overlays owner_scope resource,
           synth_delete overlays owner_scope resource]
      else [])"

definition queries_of :: "feature_ir \<Rightarrow> resource_ir \<Rightarrow> Query list" where
  "queries_of feature resource =
     (let owner_scope = fst (resolve_owner_scope feature resource []) in
      filter (\<lambda>q. query_name q \<notin> existing_query_names feature)
        (map (scope_query (where_scope owner_scope))
          ((if Crud \<in> set (rs_conventions resource) then
              [build_lookup_query (lookup_name resource) (rs_name resource), build_list_query (list_name resource) (rs_name resource)]
            else []) @
           (if Me \<in> set (rs_conventions resource) then
              (case classify_me_mode resource of
                 Some m \<Rightarrow> [build_lookup_my_query (lookup_my_name resource) (rs_name resource) m] | None \<Rightarrow> [])
            else []))))"

lemma merged_names [simp]:
  "cm_name (scope_command s c) = cm_name c" "cm_name (apply_input_excludes ex c) = cm_name c"
  "cm_name (overlay_policy o' c) = cm_name c" "cm_name (overlay_emits o' c) = cm_name c"
  "cm_name (merge_create o' c) = cm_name c" "cm_name (merge_update o' c) = cm_name c" "cm_name (merge_delete o' c) = cm_name c"
  by (simp_all add: scope_command_def apply_input_excludes_def overlay_policy_def overlay_emits_def merge_create_def
      merge_update_def merge_delete_def Let_def split: option.splits CommandEffect.splits)

lemma synth_command_names [simp]:
  "cm_name (synth_create overlays os r) = create_name r" "cm_name (synth_update overlays os r) = update_name r"
  "cm_name (synth_delete overlays os r) = delete_name r"
  by (simp_all add: synth_create_def synth_update_def synth_delete_def merge_overlay_def build_create_command_def
      build_update_command_def build_delete_command_def split: option.splits)

lemma query_names [simp]:
  "query_name (scope_query s q) = query_name q" "query_name (build_lookup_query n r) = n"
  "query_name (build_list_query n r) = n" "query_name (build_lookup_my_query n r m) = n"
  by (cases s; cases q; simp) (simp_all add: build_lookup_query_def build_list_query_def build_lookup_my_query_def)

lemma sy_simps [simp]:
  "sy_commands (sy_push d st) = sy_commands st" "sy_queries (sy_push d st) = sy_queries st"
  "sy_commands (sy_origin n o' st) = sy_commands st" "sy_queries (sy_origin n o' st) = sy_queries st"
  "sy_diagnostics (sy_origin n o' st) = sy_diagnostics st" "sy_origins (sy_push d st) = sy_origins st"
  "sy_origins (sy_origin n o' st) = sy_origins st @ [(n, o')]"
  by (simp_all add: sy_push_def sy_origin_def)

lemma place_command_adds [simp]:
  "sy_commands (place_command f r n ins ret cmd st) =
     sy_commands st @ (if n \<in> existing_command_names f then [] else [cmd])"
  "sy_queries (place_command f r n ins ret cmd st) = sy_queries st"
  by (simp_all add: place_command_def split: option.splits)

lemma place_query_adds [simp]:
  "sy_queries (place_query f r n q st) = sy_queries st @ (if n \<in> existing_query_names f then [] else [q])"
  "sy_commands (place_query f r n q st) = sy_commands st"
  by (simp_all add: place_query_def split: option.splits)

lemma bundle_adds:
  "sy_commands (crud_bundle overlays f auth os r st) = sy_commands st @
     filter (\<lambda>c. cm_name c \<notin> existing_command_names f) [synth_create overlays os r, synth_update overlays os r, synth_delete overlays os r]"
  "sy_queries (crud_bundle overlays f auth os r st) = sy_queries st @
     filter (\<lambda>q. query_name q \<notin> existing_query_names f) (map (scope_query (where_scope os))
       [build_lookup_query (lookup_name r) (rs_name r), build_list_query (list_name r) (rs_name r)])"
  "sy_commands (me_bundle f auth os r st) = sy_commands st"
  "sy_queries (me_bundle f auth os r st) = sy_queries st @
     filter (\<lambda>q. query_name q \<notin> existing_query_names f) (map (scope_query (where_scope os))
       (case classify_me_mode r of Some m \<Rightarrow> [build_lookup_my_query (lookup_my_name r) (rs_name r) m] | None \<Rightarrow> []))"
  by (simp_all add: crud_bundle_def me_bundle_def Let_def split: option.splits)

lemma synth_resource_adds:
  "sy_commands (synth_resource overlays f auth r st) = sy_commands st @ commands_of overlays f r \<and>
   sy_queries (synth_resource overlays f auth r st) = sy_queries st @ queries_of f r"
proof -
  obtain ds where resolved: "resolve_owner_scope f r (sy_diagnostics st) = (fst (resolve_owner_scope f r []), ds)"
    using resolve_owner_scope_fst[of f r "sy_diagnostics st"] by (metis prod.collapse)
  show ?thesis unfolding synth_resource_def commands_of_def queries_of_def Let_def resolved prod.case
    by (cases "Crud \<in> set (rs_conventions r)"; cases "Me \<in> set (rs_conventions r)") (simp_all add: bundle_adds)
qed

lemma synth_fold_adds:
  "sy_commands (fold (synth_resource overlays f auth) rs st) = sy_commands st @ concat (map (commands_of overlays f) rs) \<and>
   sy_queries (fold (synth_resource overlays f auth) rs st) = sy_queries st @ concat (map (queries_of f) rs)"
  by (induction rs arbitrary: st) (simp_all add: synth_resource_adds)

lemma synthesize_eq:
  "fe_commands (fst (synthesize_conventions_with_overlays overlays f)) =
     fe_commands f @ concat (map (commands_of overlays f) (fe_resources f))"
  "fe_queries (fst (synthesize_conventions_with_overlays overlays f)) =
     fe_queries f @ concat (map (queries_of f) (fe_resources f))"
  by (simp_all add: synthesize_conventions_with_overlays_def synth_final_def Let_def synth_fold_adds)

lemma commands_of_names:
  "map cm_name (commands_of overlays f r) = filter (\<lambda>n. n \<notin> existing_command_names f)
     (if Crud \<in> set (rs_conventions r) then [create_name r, update_name r, delete_name r] else [])"
  by (simp add: commands_of_def Let_def)

definition query_names_of :: "resource_ir \<Rightarrow> string list" where
  "query_names_of r = (if Crud \<in> set (rs_conventions r) then [lookup_name r, list_name r] else []) @
     (if Me \<in> set (rs_conventions r) \<and> classify_me_mode r \<noteq> None then [lookup_my_name r] else [])"

lemma queries_of_names:
  "map query_name (queries_of f r) = filter (\<lambda>n. n \<notin> existing_query_names f) (query_names_of r)"
  by (cases "Crud \<in> set (rs_conventions r)"; cases "Me \<in> set (rs_conventions r)"; cases "classify_me_mode r")
    (simp_all add: queries_of_def query_names_of_def Let_def)

lemma map_concat_names: "(\<And>r. map nm (g r) = filter P (h r)) \<Longrightarrow> map nm (concat (map g rs)) = filter P (concat (map h rs))"
  by (induction rs) simp_all

lemma synthesized_command_names:
  "map cm_name (concat (map (commands_of overlays f) rs)) = filter (\<lambda>n. n \<notin> existing_command_names f)
     (concat (map (\<lambda>r. if Crud \<in> set (rs_conventions r) then [create_name r, update_name r, delete_name r] else []) rs))"
  by (rule map_concat_names) (rule commands_of_names)

lemma synthesized_query_names:
  "map query_name (concat (map (queries_of f) rs)) = filter (\<lambda>n. n \<notin> existing_query_names f) (concat (map query_names_of rs))"
  by (rule map_concat_names) (rule queries_of_names)

section \<open>Names that clash\<close>

lemma distinct_concat_map_iff:
  "distinct rs \<Longrightarrow> distinct (concat (map g rs)) \<longleftrightarrow>
     (\<forall>r \<in> set rs. distinct (g r)) \<and> (\<forall>r \<in> set rs. \<forall>r' \<in> set rs. r \<noteq> r' \<longrightarrow> set (g r) \<inter> set (g r') = {})"
proof (induction rs)
  case (Cons r rs)
  have d: "set (g r) \<inter> (\<Union>r'\<in>set rs. set (g r')) = {} \<longleftrightarrow> (\<forall>r' \<in> set rs. r \<noteq> r' \<longrightarrow> set (g r) \<inter> set (g r') = {})"
    using Cons.prems by auto
  have sym: "(\<forall>a \<in> set rs. a \<noteq> r \<longrightarrow> set (g r) \<inter> set (g a) = {}) \<longleftrightarrow> (\<forall>a \<in> set rs. r \<noteq> a \<longrightarrow> set (g r) \<inter> set (g a) = {})"
    by auto
  show ?case using Cons by (simp add: d sym Int_commute[of "set (g _)" "set (g r)"] ball_conj_distrib conj_ac)
qed simp

lemma name_simps [simp]:
  "lookup_name r \<noteq> list_name r'" "list_name r' \<noteq> lookup_name r" "lookup_my_name r \<noteq> list_name r'"
  "list_name r' \<noteq> lookup_my_name r"
  "lookup_name r = lookup_name r' \<longleftrightarrow> pascal_to_snake (rs_name r) = pascal_to_snake (rs_name r')"
  "list_name r = list_name r' \<longleftrightarrow> pascal_to_snake (rs_name r) = pascal_to_snake (rs_name r')"
  "lookup_my_name r = lookup_my_name r' \<longleftrightarrow> pascal_to_snake (rs_name r) = pascal_to_snake (rs_name r')"
  by (simp_all add: lookup_name_def list_name_def lookup_my_name_def)

lemma lookup_names_meet [simp]:
  "lookup_name r = lookup_my_name r' \<longleftrightarrow> pascal_to_snake (rs_name r) = ''my_'' @ pascal_to_snake (rs_name r')"
  by (simp add: lookup_name_def lookup_my_name_def)

text \<open>Two bundles clash when \<^verbatim>\<open>crud\<close> on one resource and \<^verbatim>\<open>me\<close> on another make the same name, and the
  author did not write it.\<close>

definition bundles_clash :: "feature_ir \<Rightarrow> resource_ir \<Rightarrow> resource_ir \<Rightarrow> bool" where
  "bundles_clash f a b \<longleftrightarrow> Crud \<in> set (rs_conventions a) \<and> Me \<in> set (rs_conventions b) \<and> classify_me_mode b \<noteq> None \<and>
     pascal_to_snake (rs_name a) = ''my_'' @ pascal_to_snake (rs_name b) \<and>
     lookup_my_name b \<notin> existing_query_names f"

definition same_name :: "resource_ir \<Rightarrow> resource_ir \<Rightarrow> bool" where
  "same_name a b \<longleftrightarrow> Crud \<in> set (rs_conventions a) \<and> Me \<in> set (rs_conventions b) \<and> classify_me_mode b \<noteq> None \<and>
     lookup_name a = lookup_my_name b"

lemma shared_query_name:
  assumes "pascal_to_snake (rs_name a) \<noteq> pascal_to_snake (rs_name b)"
  shows "x \<in> set (query_names_of a) \<and> x \<in> set (query_names_of b) \<longleftrightarrow>
    same_name a b \<and> x = lookup_my_name b \<or> same_name b a \<and> x = lookup_my_name a"
proof -
  have ne: "lookup_name a \<noteq> lookup_name b" "list_name a \<noteq> list_name b" "lookup_my_name a \<noteq> lookup_my_name b"
    "lookup_name a \<noteq> list_name b" "list_name a \<noteq> lookup_name b" "list_name a \<noteq> lookup_my_name b"
    "lookup_my_name a \<noteq> list_name b" using assms by simp_all
  show ?thesis using ne unfolding query_names_of_def same_name_def
    by (auto simp del: name_simps lookup_names_meet)
qed

lemma bundles_clash_iff: "bundles_clash f a b \<longleftrightarrow> same_name a b \<and> lookup_my_name b \<notin> existing_query_names f"
  by (simp add: bundles_clash_def same_name_def)

lemma synthesized_queries_distinct:
  assumes "distinct (map (\<lambda>r. pascal_to_snake (rs_name r)) rs)"
  shows "distinct (filter (\<lambda>n. n \<notin> existing_query_names f) (concat (map query_names_of rs))) \<longleftrightarrow>
    (\<forall>a \<in> set rs. \<forall>b \<in> set rs. \<not> bundles_clash f a b)"
proof -
  let ?P = "\<lambda>n. n \<notin> existing_query_names f"
  let ?g = "\<lambda>r. filter ?P (query_names_of r)"
  have inj: "pascal_to_snake (rs_name a) \<noteq> pascal_to_snake (rs_name b)" if "a \<in> set rs" "b \<in> set rs" "a \<noteq> b" for a b
    using assms that by (auto simp: distinct_map dest: inj_onD)
  have own: "pascal_to_snake (rs_name r) \<noteq> ''my_'' @ pascal_to_snake (rs_name r)" for r
    by (metis append_self_conv2 list.distinct(1))
  have within: "distinct (?g r)" for r using own[of r] lookup_names_meet[of r r]
    by (auto simp: query_names_of_def simp del: lookup_names_meet)
  have self: "\<not> bundles_clash f r r" for r using own[of r] by (simp add: bundles_clash_def)
  have between: "set (?g a) \<inter> set (?g b) = {} \<longleftrightarrow> \<not> bundles_clash f a b \<and> \<not> bundles_clash f b a"
    if "a \<in> set rs" "b \<in> set rs" "a \<noteq> b" for a b
  proof -
    have "set (?g a) \<inter> set (?g b) = {} \<longleftrightarrow> (\<forall>x. x \<in> set (query_names_of a) \<and> x \<in> set (query_names_of b) \<longrightarrow> \<not> ?P x)"
      by auto
    also have "\<dots> \<longleftrightarrow> (\<forall>x. same_name a b \<and> x = lookup_my_name b \<or> same_name b a \<and> x = lookup_my_name a \<longrightarrow> \<not> ?P x)"
      by (simp only: shared_query_name[OF inj[OF that]])
    also have "\<dots> \<longleftrightarrow> \<not> bundles_clash f a b \<and> \<not> bundles_clash f b a"
      unfolding bundles_clash_iff by blast
    finally show ?thesis .
  qed
  have "distinct rs" using assms by (simp add: distinct_map)
  have "distinct (concat (map ?g rs)) \<longleftrightarrow> (\<forall>a \<in> set rs. \<forall>b \<in> set rs. \<not> bundles_clash f a b)"
  proof -
    have "(\<forall>a \<in> set rs. \<forall>b \<in> set rs. a \<noteq> b \<longrightarrow> set (?g a) \<inter> set (?g b) = {}) \<longleftrightarrow>
        (\<forall>a \<in> set rs. \<forall>b \<in> set rs. a \<noteq> b \<longrightarrow> \<not> bundles_clash f a b \<and> \<not> bundles_clash f b a)"
      by (intro ball_cong refl imp_cong between) auto
    also have "\<dots> \<longleftrightarrow> (\<forall>a \<in> set rs. \<forall>b \<in> set rs. \<not> bundles_clash f a b)" using self by metis
    finally show ?thesis unfolding distinct_concat_map_iff[OF \<open>distinct rs\<close>] using within by blast
  qed
  then show ?thesis by (simp add: filter_concat o_def)
qed

section \<open>What a synthesized command may touch\<close>

fun effect_resource :: "CommandEffect \<Rightarrow> string option" where
  "effect_resource (Creates r _ _) = Some (qn_name r)"
| "effect_resource (UpdatesRow r _ _) = Some (qn_name r)"
| "effect_resource (DeletesRow r _) = Some (qn_name r)"
| "effect_resource _ = None"

fun effect_assigns :: "CommandEffect \<Rightarrow> assignment list" where
  "effect_assigns (Creates _ _ as) = as"
| "effect_assigns (UpdatesRow _ as _) = as"
| "effect_assigns _ = []"

definition query_scope :: "Query \<Rightarrow> owner_scope_sql option" where
  "query_scope q = (case q of ListQ l \<Rightarrow> lq_owner_scope_sql l | LookupQ l \<Rightarrow> kq_owner_scope_sql l | SqlQ _ \<Rightarrow> None)"

lemma excluded_facts:
  "cm_kind (apply_input_excludes ex c) = cm_kind c"
  "cm_owner_scope_sql (apply_input_excludes ex c) = cm_owner_scope_sql c"
  "cm_policy (apply_input_excludes ex c) = cm_policy c" "cm_rate_limit (apply_input_excludes ex c) = cm_rate_limit c"
  "effect_resource (cm_effect (apply_input_excludes ex c)) = effect_resource (cm_effect c)"
  "effect_assigns (cm_effect (apply_input_excludes ex c)) =
     filter (\<lambda>a. asg_field a \<notin> set ex) (effect_assigns (cm_effect c))"
  "(\<nexists>ns. cm_input c = InShort ns) \<Longrightarrow>
     input_names (cm_input (apply_input_excludes ex c)) = filter (\<lambda>n. n \<notin> set ex) (input_names (cm_input c))"
  by (auto simp: apply_input_excludes_def Let_def input_names_def filter_map o_def filter_empty_conv
      split: CommandEffect.splits CommandInput.splits)

lemma overlaid_facts:
  "cm_kind (overlay_policy eo c) = cm_kind c" "cm_kind (overlay_emits eo c) = cm_kind c"
  "cm_owner_scope_sql (overlay_policy eo c) = cm_owner_scope_sql c"
  "cm_owner_scope_sql (overlay_emits eo c) = cm_owner_scope_sql c"
  "cm_effect (overlay_policy eo c) = cm_effect c" "cm_effect (overlay_emits eo c) = cm_effect c"
  "cm_input (overlay_policy eo c) = cm_input c" "cm_input (overlay_emits eo c) = cm_input c"
  "cm_policy (overlay_emits eo c) = cm_policy c" "cm_rate_limit (overlay_policy eo c) = cm_rate_limit c"
  "cm_rate_limit (overlay_emits eo c) = cm_rate_limit c"
  "cm_policy (overlay_policy eo c) = (case eo_policy eo of Some p \<Rightarrow> p | None \<Rightarrow> cm_policy c)"
  by (simp_all add: overlay_policy_def overlay_emits_def split: option.splits)

lemmas overlay_facts = excluded_facts overlaid_facts

definition plain_overlay :: effect_overlay where
  "plain_overlay = \<lparr>eo_policy = None, eo_validate = [], eo_input_excludes = [], eo_assigns = [], eo_emits = []\<rparr>"

text \<open>The overlay that a command of some kind gets; a resource without one, or an overlay without the
  effect, changes nothing. A delete has neither input nor assignments to change.\<close>

definition overlay_for :: "(string \<rightharpoonup> crud_overlay) \<Rightarrow> resource_ir \<Rightarrow> CommandKind \<Rightarrow> effect_overlay" where
  "overlay_for overlays resource kind =
     (case Option.bind (overlays (rs_name resource))
        (case kind of Create \<Rightarrow> co_create | Update \<Rightarrow> co_update | Delete \<Rightarrow> co_delete | _ \<Rightarrow> (\<lambda>_. None)) of
        Some eff \<Rightarrow> eff | None \<Rightarrow> plain_overlay)"

definition client_fields :: "resource_ir \<Rightarrow> string set" where
  "client_fields r = fi_name ` {f \<in> set (rs_fields r). \<not> is_tenant_field r f \<and> \<not> is_auto_field r f}"

lemma input_fields_names:
  "fst ` set (create_input_fields (categorize_fields r)) = {f \<in> set (rs_fields r). \<not> is_tenant_field r f \<and> \<not> is_auto_field r f}"
  "fst ` set (update_input_fields (categorize_fields r)) = {f \<in> set (rs_fields r). \<not> is_tenant_field r f \<and> \<not> is_auto_field r f}"
  by (auto simp: create_input_fields_def update_input_fields_def categorize_fields_def Let_def image_Un image_image)

lemma input_to_command_input_names: "input_names (input_to_command_input fs) = map (\<lambda>(f, _). fi_name f) fs"
  by (auto simp: input_to_command_input_def input_names_def)

lemma input_to_command_input_typed: "input_to_command_input fs \<noteq> InShort ns"
  by (simp add: input_to_command_input_def)

definition synthesized_as :: "(string \<rightharpoonup> crud_overlay) \<Rightarrow> feature_ir \<Rightarrow> resource_ir \<Rightarrow> command_ir \<Rightarrow> bool" where
  "synthesized_as overlays f r c \<longleftrightarrow>
     (let ov = overlay_for overlays r (cm_kind c);
          scope = fst (resolve_owner_scope f r []);
          open_fields = (if cm_kind c = Delete then {} else client_fields r - set (eo_input_excludes ov)) in
      effect_resource (cm_effect c) = Some (rs_name r) \<and>
      cm_owner_scope_sql c = (if cm_kind c = Create then full_scope scope else where_scope scope) \<and>
      cm_policy c = (case eo_policy ov of Some p \<Rightarrow> p | None \<Rightarrow> RefLocal ''authenticated'') \<and>
      cm_rate_limit c = Some (from_default crud_write_rate_limit) \<and>
      set (input_names (cm_input c)) = open_fields \<and>
      asg_field ` set (effect_assigns (cm_effect c)) =
        open_fields \<union> (if cm_kind c = Delete then {} else asg_field ` set (eo_assigns ov)))"

lemma scope_command_facts:
  "cm_owner_scope_sql c = None \<Longrightarrow> cm_owner_scope_sql (scope_command s c) = s"
  "cm_kind (scope_command s c) = cm_kind c" "cm_effect (scope_command s c) = cm_effect c"
  "cm_input (scope_command s c) = cm_input c" "cm_policy (scope_command s c) = cm_policy c"
  "cm_rate_limit (scope_command s c) = cm_rate_limit c"
  by (simp_all add: scope_command_def split: option.splits)

lemmas built_simps = build_create_command_def build_update_command_def build_delete_command_def default_synth_command_def

lemma excluded_effect:
  "cm_effect c = Creates q fi as \<Longrightarrow>
     cm_effect (apply_input_excludes ex c) = Creates q fi (filter (\<lambda>a. asg_field a \<notin> set ex) as)"
  "cm_effect c = UpdatesRow q as wh \<Longrightarrow>
     cm_effect (apply_input_excludes ex c) = UpdatesRow q (filter (\<lambda>a. asg_field a \<notin> set ex) as) wh"
  by (simp_all add: apply_input_excludes_def Let_def)

lemma merge_create_facts:
  assumes "cm_effect c = Creates q fi as"
  shows "cm_kind (merge_create eo c) = cm_kind c" "cm_owner_scope_sql (merge_create eo c) = cm_owner_scope_sql c"
    "cm_policy (merge_create eo c) = (case eo_policy eo of Some p \<Rightarrow> p | None \<Rightarrow> cm_policy c)"
    "cm_rate_limit (merge_create eo c) = cm_rate_limit c"
    "cm_input (merge_create eo c) = cm_input (apply_input_excludes (eo_input_excludes eo) c)"
    "cm_effect (merge_create eo c) = Creates q fi (filter (\<lambda>a. asg_field a \<notin> set (eo_input_excludes eo)) as @ eo_assigns eo)"
  using excluded_effect(1)[OF assms] by (simp_all add: merge_create_def Let_def overlay_facts split: option.split)

lemma merge_update_facts:
  assumes "cm_effect c = UpdatesRow q as wh"
  shows "cm_kind (merge_update eo c) = cm_kind c" "cm_owner_scope_sql (merge_update eo c) = cm_owner_scope_sql c"
    "cm_policy (merge_update eo c) = (case eo_policy eo of Some p \<Rightarrow> p | None \<Rightarrow> cm_policy c)"
    "cm_rate_limit (merge_update eo c) = cm_rate_limit c"
    "cm_input (merge_update eo c) = cm_input (apply_input_excludes (eo_input_excludes eo) c)"
    "cm_effect (merge_update eo c) = UpdatesRow q (filter (\<lambda>a. asg_field a \<notin> set (eo_input_excludes eo)) as @ eo_assigns eo) wh"
  using excluded_effect(2)[OF assms] by (simp_all add: merge_update_def Let_def overlay_facts split: option.split)

lemma merge_delete_facts:
  "cm_kind (merge_delete eo c) = cm_kind c" "cm_owner_scope_sql (merge_delete eo c) = cm_owner_scope_sql c"
  "cm_policy (merge_delete eo c) = (case eo_policy eo of Some p \<Rightarrow> p | None \<Rightarrow> cm_policy c)"
  "cm_rate_limit (merge_delete eo c) = cm_rate_limit c" "cm_input (merge_delete eo c) = cm_input c"
  "cm_effect (merge_delete eo c) = cm_effect c"
  by (simp_all add: merge_delete_def overlay_facts)

text \<open>A missing overlay is the plain one: it merges to the command itself.\<close>

lemma merge_plain:
  "merge_create plain_overlay c = c" "merge_update plain_overlay c = c" "merge_delete plain_overlay c = c"
  by (simp_all add: merge_create_def merge_update_def merge_delete_def plain_overlay_def Let_def apply_input_excludes_def
      overlay_policy_def overlay_emits_def split: CommandEffect.split)

lemma merge_overlay_for:
  "merge_overlay merge_create (Option.bind (overlays (rs_name r)) co_create) c = merge_create (overlay_for overlays r Create) c"
  "merge_overlay merge_update (Option.bind (overlays (rs_name r)) co_update) c = merge_update (overlay_for overlays r Update) c"
  "merge_overlay merge_delete (Option.bind (overlays (rs_name r)) co_delete) c = merge_delete (overlay_for overlays r Delete) c"
  by (simp_all add: merge_overlay_def overlay_for_def merge_plain split: option.split)

lemma bound_fields:
  "set (map (\<lambda>(f, _). fi_name f) fs) = fi_name ` fst ` set fs"
  "asg_field ` set (filter (\<lambda>a. asg_field a \<notin> X) (input_field_assignments fs)) = fi_name ` fst ` set fs - X"
  by (force simp: input_field_assignments_def image_iff)+

lemma synth_create_as: "synthesized_as overlays f r (synth_create overlays (fst (resolve_owner_scope f r [])) r)"
proof -
  let ?fs = "create_input_fields (categorize_fields r)" and ?eo = "overlay_for overlays r Create"
  define c where "c = (scope_command (full_scope (fst (resolve_owner_scope f r [])))
      (build_create_command (create_name r) (rs_name r) ?fs))\<lparr>cm_invalidates := invalidated r\<rparr>"
  have c: "cm_effect c = Creates (local_name (rs_name r)) True (input_field_assignments ?fs)" "cm_kind c = Create"
    "cm_owner_scope_sql c = full_scope (fst (resolve_owner_scope f r []))" "cm_policy c = RefLocal ''authenticated''"
    "cm_rate_limit c = Some (from_default crud_write_rate_limit)" "cm_input c = input_to_command_input ?fs"
    by (simp_all add: c_def scope_command_facts built_simps)
  have names: "fi_name ` fst ` set ?fs = client_fields r" by (simp add: input_fields_names client_fields_def)
  have inp: "set (input_names (cm_input (apply_input_excludes X c))) = client_fields r - X'" if "X' = set X" for X X'
    using excluded_facts(7)[of c X] input_to_command_input_typed[of ?fs]
    by (auto simp: c input_to_command_input_names that bound_fields(1)[of ?fs, simplified] simp flip: names)
  have "synthesized_as overlays f r (merge_create ?eo c)"
    unfolding synthesized_as_def Let_def merge_create_facts[OF c(1)] c inp[OF refl]
    by (simp add: image_Un bound_fields(2)[simplified] names local_name_def c split: option.split)
  then show ?thesis by (simp add: synth_create_def merge_overlay_for c_def)
qed

lemma synth_update_as: "synthesized_as overlays f r (synth_update overlays (fst (resolve_owner_scope f r [])) r)"
proof -
  let ?fs = "update_input_fields (categorize_fields r)" and ?eo = "overlay_for overlays r Update"
  define c where "c = (scope_command (where_scope (fst (resolve_owner_scope f r [])))
      (build_update_command (update_name r) (rs_name r) ?fs))\<lparr>cm_invalidates := invalidated r\<rparr>"
  have c: "cm_effect c = UpdatesRow (local_name (rs_name r)) (input_field_assignments ?fs) []" "cm_kind c = Update"
    "cm_owner_scope_sql c = where_scope (fst (resolve_owner_scope f r []))" "cm_policy c = RefLocal ''authenticated''"
    "cm_rate_limit c = Some (from_default crud_write_rate_limit)" "cm_input c = input_to_command_input ?fs"
    by (simp_all add: c_def scope_command_facts built_simps)
  have names: "fi_name ` fst ` set ?fs = client_fields r" by (simp add: input_fields_names client_fields_def)
  have inp: "set (input_names (cm_input (apply_input_excludes X c))) = client_fields r - X'" if "X' = set X" for X X'
    using excluded_facts(7)[of c X] input_to_command_input_typed[of ?fs]
    by (auto simp: c input_to_command_input_names that bound_fields(1)[of ?fs, simplified] simp flip: names)
  have "synthesized_as overlays f r (merge_update ?eo c)"
    unfolding synthesized_as_def Let_def merge_update_facts[OF c(1)] c inp[OF refl]
    by (simp add: image_Un bound_fields(2)[simplified] names local_name_def c split: option.split)
  then show ?thesis by (simp add: synth_update_def merge_overlay_for c_def)
qed

lemma synth_delete_as: "synthesized_as overlays f r (synth_delete overlays (fst (resolve_owner_scope f r [])) r)"
  by (auto simp: synth_delete_def merge_overlay_for synthesized_as_def Let_def merge_delete_facts scope_command_facts
      built_simps local_name_def input_names_def split: option.split)

lemma commands_of_synthesized: "c \<in> set (commands_of overlays f r) \<Longrightarrow> Crud \<in> set (rs_conventions r) \<and> synthesized_as overlays f r c"
  using synth_create_as[of overlays f r] synth_update_as[of overlays f r] synth_delete_as[of overlays f r]
  by (auto simp: commands_of_def Let_def split: if_splits)

definition unscoped :: "Query \<Rightarrow> bool" where
  "unscoped q \<longleftrightarrow> query_scope q = None \<and> (case q of SqlQ _ \<Rightarrow> False | _ \<Rightarrow> True)"

lemma unscoped_built:
  "unscoped (build_lookup_query n r)" "unscoped (build_list_query n r)" "unscoped (build_lookup_my_query n r m)"
  by (simp_all add: unscoped_def query_scope_def build_lookup_query_def build_list_query_def build_lookup_my_query_def)

lemma scope_unscoped: "unscoped q \<Longrightarrow> query_scope (scope_query s q) = s"
  by (cases s; cases q) (simp_all add: unscoped_def query_scope_def)

lemma queries_of_scoped:
  assumes "q \<in> set (queries_of f r)"
  shows "query_scope q = where_scope (fst (resolve_owner_scope f r []))"
proof -
  define built where "built = (if Crud \<in> set (rs_conventions r) then
       [build_lookup_query (lookup_name r) (rs_name r), build_list_query (list_name r) (rs_name r)] else []) @
     (if Me \<in> set (rs_conventions r) then
       (case classify_me_mode r of Some m \<Rightarrow> [build_lookup_my_query (lookup_my_name r) (rs_name r) m] | None \<Rightarrow> []) else [])"
  have "list_all unscoped built" by (simp add: built_def unscoped_built split: option.split)
  moreover obtain b where "b \<in> set built" "q = scope_query (where_scope (fst (resolve_owner_scope f r []))) b"
    using assms unfolding queries_of_def Let_def built_def[symmetric] by (force simp only: set_filter set_map image_iff mem_Collect_eq)
  ultimately show ?thesis by (simp add: list_all_iff scope_unscoped)
qed

section \<open>A second run\<close>

lemma synthesized_slots [simp]:
  "fe_resources (fst (synthesize_conventions_with_overlays overlays f)) = fe_resources f"
  "fe_name (fst (synthesize_conventions_with_overlays overlays f)) = fe_name f"
  "fe_enums (fst (synthesize_conventions_with_overlays overlays f)) = fe_enums f"
  "fe_policy_categories (fst (synthesize_conventions_with_overlays overlays f)) = fe_policy_categories f"
  by (simp_all add: synthesize_conventions_with_overlays_def Let_def)

lemma resolve_owner_scope_cong:
  assumes "fe_resources f = fe_resources g"
  shows "resolve_owner_scope f r ds = resolve_owner_scope g r ds"
proof -
  have "axis_step f = axis_step g" by (intro ext) (simp only: axis_step_def assms)
  then show ?thesis by (simp add: resolve_owner_scope_def)
qed

lemma synthesized_existing:
  "existing_command_names (fst (synthesize_conventions_with_overlays overlays f)) =
     existing_command_names f \<union> cm_name ` (\<Union>r \<in> set (fe_resources f). set (commands_of overlays f r))"
  "existing_query_names (fst (synthesize_conventions_with_overlays overlays f)) =
     existing_query_names f \<union> query_name ` (\<Union>r \<in> set (fe_resources f). set (queries_of f r))"
  unfolding existing_command_names_def existing_query_names_def synthesize_eq by auto

lemma names_exist_after:
  assumes "r \<in> set (fe_resources f)"
  shows "Crud \<in> set (rs_conventions r) \<Longrightarrow>
      {create_name r, update_name r, delete_name r} \<subseteq> existing_command_names (fst (synthesize_conventions_with_overlays overlays f))"
    "set (query_names_of r) \<subseteq> existing_query_names (fst (synthesize_conventions_with_overlays overlays f))"
proof -
  show "{create_name r, update_name r, delete_name r} \<subseteq> existing_command_names (fst (synthesize_conventions_with_overlays overlays f))"
    if crud: "Crud \<in> set (rs_conventions r)"
  proof -
    have "cm_name ` set (commands_of overlays f r) =
        {n \<in> {create_name r, update_name r, delete_name r}. n \<notin> existing_command_names f}"
      using arg_cong[OF commands_of_names[of overlays f r], of set] crud by (simp only: set_map set_filter if_True list.set)
    then have "{create_name r, update_name r, delete_name r} \<subseteq> existing_command_names f \<union> cm_name ` set (commands_of overlays f r)"
      by blast
    then show ?thesis using assms unfolding synthesized_existing by blast
  qed
  have "query_name ` set (queries_of f r) = {n \<in> set (query_names_of r). n \<notin> existing_query_names f}"
    using arg_cong[OF queries_of_names[of f r], of set] by (simp only: set_map set_filter)
  then have "set (query_names_of r) \<subseteq> existing_query_names f \<union> query_name ` set (queries_of f r)" by blast
  then show "set (query_names_of r) \<subseteq> existing_query_names (fst (synthesize_conventions_with_overlays overlays f))"
    using assms unfolding synthesized_existing by blast
qed

lemma second_run_empty:
  assumes "r \<in> set (fe_resources f)"
  shows "commands_of overlays' (fst (synthesize_conventions_with_overlays overlays f)) r = []"
    "queries_of (fst (synthesize_conventions_with_overlays overlays f)) r = []"
proof -
  let ?g = "fst (synthesize_conventions_with_overlays overlays f)"
  have "map cm_name (commands_of overlays' ?g r) = []"
    unfolding commands_of_names using names_exist_after(1)[OF assms, of overlays] by (auto simp: filter_empty_conv)
  then show "commands_of overlays' ?g r = []" by simp
  have "map query_name (queries_of ?g r) = []"
    unfolding queries_of_names using names_exist_after(2)[OF assms, of overlays] by (auto simp: filter_empty_conv)
  then show "queries_of ?g r = []" by simp
qed

lemma find_distinct_name: "distinct (map nm xs) \<Longrightarrow> x \<in> set xs \<Longrightarrow> find (\<lambda>y. nm y = nm x) xs = Some x"
  by (induction xs) auto

lemma synthesized_commands_match:
  assumes "distinct (map cm_name (fe_commands (fst (synthesize_conventions_with_overlays overlays f))))"
    "r \<in> set (fe_resources f)" "Crud \<in> set (rs_conventions r)" "overlays (rs_name r) = None"
  shows "create_name r \<notin> existing_command_names f \<Longrightarrow> check_command_signature_mismatch
      (fst (synthesize_conventions_with_overlays overlays f)) (create_name r) (create_input_fields (categorize_fields r))
      (CreatesResource (rs_name r)) = None"
    "update_name r \<notin> existing_command_names f \<Longrightarrow> check_command_signature_mismatch
      (fst (synthesize_conventions_with_overlays overlays f)) (update_name r) (update_input_fields (categorize_fields r))
      (UpdatesResource (rs_name r)) = None"
    "delete_name r \<notin> existing_command_names f \<Longrightarrow> check_command_signature_mismatch
      (fst (synthesize_conventions_with_overlays overlays f)) (delete_name r) [] (DeletesResource (rs_name r)) = None"
proof -
  let ?g = "fst (synthesize_conventions_with_overlays overlays f)" and ?os = "fst (resolve_owner_scope f r [])"
  have mem: "c \<in> set (fe_commands ?g)" if "c \<in> set (commands_of overlays f r)" for c
    using that assms(2) unfolding synthesize_eq by auto
  have found: "find (\<lambda>d. cm_name d = cm_name c) (fe_commands ?g) = Some c" if "c \<in> set (commands_of overlays f r)" for c
    using find_distinct_name[OF assms(1) mem[OF that]] .
  have typed: "input_names (cm_input (c\<lparr>cm_invalidates := iv\<rparr>)) = input_names (cm_input c)" for c iv by simp
  note facts = check_command_signature_mismatch_def effect_matches_def synth_create_def synth_update_def synth_delete_def
    merge_overlay_def assms(4) scope_command_facts built_simps local_name_def input_to_command_input_names
  show "check_command_signature_mismatch ?g (create_name r) (create_input_fields (categorize_fields r))
      (CreatesResource (rs_name r)) = None" if "create_name r \<notin> existing_command_names f"
  proof -
    have "synth_create overlays ?os r \<in> set (commands_of overlays f r)" using that assms(3)
      by (simp add: commands_of_def Let_def set_filter del: filter.simps)
    from found[OF this] show ?thesis by (simp add: facts)
  qed
  show "check_command_signature_mismatch ?g (update_name r) (update_input_fields (categorize_fields r))
      (UpdatesResource (rs_name r)) = None" if "update_name r \<notin> existing_command_names f"
  proof -
    have "synth_update overlays ?os r \<in> set (commands_of overlays f r)" using that assms(3)
      by (simp add: commands_of_def Let_def set_filter del: filter.simps)
    from found[OF this] show ?thesis by (simp add: facts)
  qed
  show "check_command_signature_mismatch ?g (delete_name r) [] (DeletesResource (rs_name r)) = None"
    if "delete_name r \<notin> existing_command_names f"
  proof -
    have "synth_delete overlays ?os r \<in> set (commands_of overlays f r)" using that assms(3)
      by (simp add: commands_of_def Let_def set_filter del: filter.simps)
    from found[OF this] show ?thesis by (simp add: facts input_names_def)
  qed
qed

section \<open>Properties\<close>

text \<open>
  C10. The pass keeps everything the author wrote, in place, and appends exactly the missing names: for
  every resource with \<^verbatim>\<open>crud\<close>, in order, the commands \<^verbatim>\<open>create\<close>, \<^verbatim>\<open>update\<close>, \<^verbatim>\<open>delete\<close> and the queries \<^verbatim>\<open>lookup\<close>
  and \<^verbatim>\<open>list\<close>, for every resource with \<^verbatim>\<open>me\<close> that has an actor the query \<^verbatim>\<open>lookup_my\<close>, each unless the
  author already has the name. Besides commands, queries and origins nothing changes.
\<close>

theorem synthesized_names:
  "let g = fst (synthesize_conventions_with_overlays overlays f) in
     map cm_name (fe_commands g) = map cm_name (fe_commands f) @ filter (\<lambda>n. n \<notin> existing_command_names f)
       (concat (map (\<lambda>r. if Crud \<in> set (rs_conventions r) then [create_name r, update_name r, delete_name r] else [])
         (fe_resources f))) \<and>
     map query_name (fe_queries g) = map query_name (fe_queries f) @ filter (\<lambda>n. n \<notin> existing_query_names f)
       (concat (map query_names_of (fe_resources f))) \<and>
     take (length (fe_commands f)) (fe_commands g) = fe_commands f \<and>
     take (length (fe_queries f)) (fe_queries g) = fe_queries f \<and>
     g = f\<lparr>fe_commands := fe_commands g, fe_queries := fe_queries g, fe_synth_origins := fe_synth_origins g\<rparr>"
proof -
  let ?g = "fst (synthesize_conventions_with_overlays overlays f)"
  have "\<exists>cs qs os. ?g = f\<lparr>fe_commands := cs, fe_queries := qs, fe_synth_origins := os\<rparr>"
    unfolding synthesize_conventions_with_overlays_def Let_def fst_conv by (rule exI)+ (rule refl)
  then have "?g = f\<lparr>fe_commands := fe_commands ?g, fe_queries := fe_queries ?g, fe_synth_origins := fe_synth_origins ?g\<rparr>"
    by auto
  then show ?thesis
    using synthesized_command_names[of overlays f "fe_resources f"] synthesized_query_names[of f "fe_resources f"]
    unfolding Let_def by (intro conjI) (simp_all only: synthesize_eq map_append append_eq_conv_conj[THEN iffD1, THEN conjunct1]
        append_Nil2 take_append take_all_iff diff_self_eq_0 take_0 le_refl)
qed


text \<open>
  C23. The names of the queries stay different exactly when the two bundles do not meet: with different
  resource names, and query names that were different before, two queries share a name after the pass if and
  only if some resource with \<^verbatim>\<open>crud\<close> is called \<^verbatim>\<open>My...\<close> after a resource with \<^verbatim>\<open>me\<close>, and the author did not
  write that query. (\<^verbatim>\<open>lookup_\<close> of \<^verbatim>\<open>MyPost\<close> is \<^verbatim>\<open>lookup_my_\<close> of \<^verbatim>\<open>Post\<close>.)
\<close>

theorem synthesized_queries_distinct_iff:
  assumes "distinct (map query_name (fe_queries f))"
    "distinct (map (\<lambda>r. pascal_to_snake (rs_name r)) (fe_resources f))"
  shows "distinct (map query_name (fe_queries (fst (synthesize_conventions_with_overlays overlays f)))) \<longleftrightarrow>
    \<not> list_ex (\<lambda>a. list_ex (\<lambda>b. bundles_clash f a b) (fe_resources f)) (fe_resources f)"
proof -
  have new: "map query_name (fe_queries (fst (synthesize_conventions_with_overlays overlays f))) =
      map query_name (fe_queries f) @ filter (\<lambda>n. n \<notin> existing_query_names f) (concat (map query_names_of (fe_resources f)))"
    using synthesized_query_names[of f "fe_resources f"] by (simp add: synthesize_eq)
  show ?thesis unfolding new distinct_append synthesized_queries_distinct[OF assms(2)]
    using assms(1) by (auto simp: existing_query_names_def list_ex_iff)
qed

definition crud_field :: "string \<Rightarrow> TypeRef \<Rightarrow> bool \<Rightarrow> string option \<Rightarrow> field_ir" where
  "crud_field name ty required axis =
     \<lparr>fi_name = name, fi_type_ref = ty, fi_required = required, fi_unique = False, fi_default = None,
      fi_derived_from = None, fi_constraints = default_constraints, fi_full_text = False, fi_owner_axis = axis,
      fi_cross_feature_target = None\<rparr>"

definition crud_resource :: "string \<Rightarrow> field_ir list \<Rightarrow> ConventionRef list \<Rightarrow> resource_ir" where
  "crud_resource name fs conventions =
     \<lparr>rs_name = name, rs_tenancy = None, rs_soft_delete = False, rs_soft_delete_actor = False, rs_timestamps = None,
      rs_fields = fs, rs_constraints = [], rs_retention = None, rs_composite_key = None, rs_polymorphic_refs = [], rs_lifecycle = None,
      rs_conventions = conventions\<rparr>"

definition crud_feature :: "resource_ir list \<Rightarrow> feature_ir" where
  "crud_feature rs =
     \<lparr>fe_name = ''blog'', fe_uses = [], fe_defaults = \<lparr>df_tenancy = None, df_timestamps = False, df_rate_limit = None, df_audit = None\<rparr>, fe_sessions = None,
      fe_resources = rs, fe_records = [], fe_enums = [], fe_commands = [], fe_queries = [],
      fe_policy_categories = [\<lparr>pg_name = ''authenticated'', pg_atoms = []\<rparr>], fe_events = [], fe_event_groups = [],
      fe_synth_origins = []\<rparr>"

definition post_resource :: resource_ir where
  "post_resource = crud_resource ''Post'' [crud_field ''user'' (UserDefined (local_name ''User'')) True None] [Me]"

definition my_post_resource :: resource_ir where
  "my_post_resource = crud_resource ''MyPost'' [crud_field ''title'' (Builtin BtText) True None] [Crud]"

theorem synthesized_queries_distinct_iff_witness:
  "\<not> distinct (map query_name (fe_queries (fst (synthesize_conventions_with_overlays Map.empty
      (crud_feature [post_resource, my_post_resource])))))"
proof -
  have f: "fe_queries (crud_feature rs) = []" "fe_resources (crud_feature rs) = rs" for rs by (simp_all add: crud_feature_def)
  have names: "pascal_to_snake (rs_name post_resource) = ''post''" "pascal_to_snake (rs_name my_post_resource) = ''my_post''"
    by code_simp+
  have "classify_me_mode post_resource \<noteq> None" by code_simp
  then have "bundles_clash (crud_feature [post_resource, my_post_resource]) my_post_resource post_resource"
    by (simp add: bundles_clash_def names existing_query_names_def f) (simp add: post_resource_def my_post_resource_def crud_resource_def)
  moreover have "distinct (map query_name (fe_queries (crud_feature [post_resource, my_post_resource])))"
    "distinct (map (\<lambda>r. pascal_to_snake (rs_name r)) (fe_resources (crud_feature [post_resource, my_post_resource])))"
    by (simp_all add: f names)
  ultimately show ?thesis using synthesized_queries_distinct_iff[of "crud_feature [post_resource, my_post_resource]" Map.empty]
    by (auto simp: f)
qed

text \<open>
  The pass is stable. Run on its own result it adds no command and no query, whatever overlays are in
  force; and a command it synthesized without an overlay passes the signature check that commands of
  the author undergo, so a second run does not report the first one.
\<close>

lemma synthesis_stable:
  assumes "g = fst (synthesize_conventions_with_overlays overlays f)" "distinct (map cm_name (fe_commands g))"
    "r \<in> set (fe_resources f)" "Crud \<in> set (rs_conventions r)" "overlays (rs_name r) = None"
    "create_name r \<notin> existing_command_names f" "update_name r \<notin> existing_command_names f"
    "delete_name r \<notin> existing_command_names f"
  shows "fe_commands (fst (synthesize_conventions_with_overlays overlays' g)) = fe_commands g \<and>
    fe_queries (fst (synthesize_conventions_with_overlays overlays' g)) = fe_queries g \<and>
    check_command_signature_mismatch g (create_name r) (create_input_fields (categorize_fields r)) (CreatesResource (rs_name r)) = None \<and>
    check_command_signature_mismatch g (update_name r) (update_input_fields (categorize_fields r)) (UpdatesResource (rs_name r)) = None \<and>
    check_command_signature_mismatch g (delete_name r) [] (DeletesResource (rs_name r)) = None"
  using synthesized_commands_match[OF assms(2)[unfolded assms(1)] assms(3-5)] assms(6-8) second_run_empty(1)[of _ f overlays' overlays]
    second_run_empty(2)[of _ f overlays]
  unfolding assms(1) by (simp add: synthesize_eq[of overlays' "fst (synthesize_conventions_with_overlays overlays f)"])

lemma synthesis_stable_example:
  "fe_commands (fst (synthesize_conventions (fst (synthesize_conventions_with_overlays Map.empty (crud_feature [my_post_resource]))))) =
   fe_commands (fst (synthesize_conventions_with_overlays Map.empty (crud_feature [my_post_resource])))"
proof -
  let ?f = "crud_feature [my_post_resource]"
  have f: "fe_commands ?f = []" "fe_resources ?f = [my_post_resource]" "Crud \<in> set (rs_conventions my_post_resource)"
    by (simp_all add: crud_feature_def my_post_resource_def crud_resource_def)
  have "map cm_name (fe_commands (fst (synthesize_conventions_with_overlays Map.empty ?f))) =
      [create_name my_post_resource, update_name my_post_resource, delete_name my_post_resource]"
    by (simp add: synthesize_eq f commands_of_names existing_command_names_def)
  then have "distinct (map cm_name (fe_commands (fst (synthesize_conventions_with_overlays Map.empty ?f))))"
    by (simp add: create_name_def update_name_def delete_name_def)
  from synthesis_stable[OF refl this, of my_post_resource Map.empty] show ?thesis
    by (simp add: f existing_command_names_def synthesize_conventions_def)
qed

end
