(* ===== verification/Auto_Photo.thy ===== *)
theory Auto_Photo
  imports Convention_Synthesis
begin

text \<open>
  The upload commands of file fields (\<^verbatim>\<open>auto_photo.rs\<close>): for every resource keyed by its user and every
  optional \<^verbatim>\<open>@cap.File\<close> field of it, four commands and two records, each unless the feature has one of the
  same name. The two vectors the pass fills are the slots of \<open>photo_state\<close>. What the author wrote is read
  once, before the loops.

  Shown here: which commands and records are added, that each of them carries a policy the author chose or
  declared, and when two of them share a name: the names are made of the field alone, so two resources with
  a file field of the same name get the same commands twice.
\<close>

section \<open>Names and shapes\<close>

fun auto_photo_command_name :: "string \<Rightarrow> AutoPhotoCommandRole \<Rightarrow> string" where
  "auto_photo_command_name field RoleRequest = ''request_'' @ field @ ''_upload''"
| "auto_photo_command_name field RoleConfirm = ''confirm_'' @ field @ ''_upload''"
| "auto_photo_command_name field RoleClear = ''clear_'' @ field"
| "auto_photo_command_name field RoleGetUrl = ''get_'' @ field @ ''_url''"

definition simple_field :: "string \<Rightarrow> TypeRef \<Rightarrow> bool \<Rightarrow> field_ir" where
  "simple_field name type_ref required =
     \<lparr>fi_name = name, fi_type_ref = type_ref, fi_required = required, fi_unique = False, fi_default = None,
      fi_derived_from = None, fi_constraints = default_constraints, fi_full_text = False, fi_owner_axis = None,
      fi_cross_feature_target = None\<rparr>"

definition simple_required_field :: "string \<Rightarrow> TypeRef \<Rightarrow> field_ir" where
  "simple_required_field name type_ref = simple_field name type_ref True"

definition simple_optional_field :: "string \<Rightarrow> TypeRef \<Rightarrow> field_ir" where
  "simple_optional_field name type_ref = simple_field name type_ref False"

definition auto_photo_intent_record :: "string \<Rightarrow> record_decl" where
  "auto_photo_intent_record name = \<lparr>rd_name = name, rd_fields =
     [simple_required_field ''url'' (Builtin BtText), simple_required_field ''method'' (Builtin BtText),
      simple_required_field ''headers_content_type'' (Builtin BtText), simple_required_field ''key'' (Builtin BtText),
      simple_required_field ''expires_at'' (Builtin BtDateTime)]\<rparr>"

definition auto_photo_display_record :: "string \<Rightarrow> record_decl" where
  "auto_photo_display_record name = \<lparr>rd_name = name, rd_fields =
     [simple_optional_field ''url'' (Builtin BtText), simple_optional_field ''expires_at'' (Builtin BtDateTime)]\<rparr>"

definition photo_slot :: "string \<Rightarrow> TypeRef \<Rightarrow> typed_slot" where
  "photo_slot name type_ref = \<lparr>ts_name = name, ts_type_ref = type_ref, ts_required = True,
     ts_constraints = default_constraints, ts_validate_skip = False\<rparr>"

fun photo_shape :: "AutoPhotoCommandRole \<Rightarrow> string \<Rightarrow> string \<Rightarrow> CommandInput \<times> CommandEffect \<times> string" where
  "photo_shape RoleRequest intent_name display_name =
     (InTyped [photo_slot ''content_type'' (Builtin BtText), photo_slot ''size_bytes'' (Builtin BtInteger)],
      ReturnsType (UserDefined \<lparr>qn_feature = None, qn_name = intent_name\<rparr>), ''30 per 10 minutes per ip'')"
| "photo_shape RoleConfirm intent_name display_name =
     (InTyped [photo_slot ''key'' (Builtin BtText)], NoEffect, ''30 per 10 minutes per ip'')"
| "photo_shape RoleClear intent_name display_name = (InEmpty, NoEffect, ''10 per 10 minutes per ip'')"
| "photo_shape RoleGetUrl intent_name display_name =
     (InEmpty, ReturnsType (UserDefined \<lparr>qn_feature = None, qn_name = display_name\<rparr>), ''60 per 10 minutes per ip'')"

definition build_auto_photo_command ::
  "string \<Rightarrow> string \<Rightarrow> string \<Rightarrow> AutoPhotoCommandRole \<Rightarrow> string \<Rightarrow> string \<Rightarrow> string \<Rightarrow> command_ir" where
  "build_auto_photo_command name resource field role intent_name display_name policy_name =
     (let (inp, effect, rate_limit) = photo_shape role intent_name display_name in
      \<lparr>cm_name = name, cm_kind = Returns, cm_route = [], cm_input = inp, cm_target = None, cm_lets = [],
       cm_effect = effect, cm_policy = RefLocal policy_name, cm_emits = [],
       cm_rate_limit = Some (from_default rate_limit), cm_invalidates = [],
       cm_audit = Some \<lparr>au_subjects = [''default''], au_emit_to = None, au_data_subject = None, au_record_before = False,
         au_record_after = False, au_retain_for = None, au_materialize = None\<rparr>,
       cm_deprecated = None, cm_handler = None, cm_tests = None, cm_previous_names = [], cm_span_ref = None, cm_triggers = [],
       cm_owner_scope_sql = None,
       cm_synthesized_from_cap_file = Some \<lparr>sf_resource = resource, sf_field = field, sf_role = role\<rparr>,
       cm_derived_from = None\<rparr>)"

section \<open>The pass\<close>

record photo_state =
  ph_commands :: "command_ir list"
  ph_records :: "record_decl list"

definition declares_policy :: "feature_ir \<Rightarrow> string \<Rightarrow> bool" where
  "declares_policy feature name \<longleftrightarrow> list_ex (\<lambda>p. pg_name p = name) (fe_policy_categories feature)"

definition policy_name_for :: "feature_ir \<Rightarrow> string \<Rightarrow> string option" where
  "policy_name_for feature resource =
     (let target = pascal_to_snake resource @ ''_only'' in
      if declares_policy feature target then Some target
      else
        let compact_target = to_ascii_lowercase resource @ ''_only'' in
        if declares_policy feature compact_target then Some compact_target
        else if declares_policy feature ''authenticated'' then Some ''authenticated''
        else None)"

definition photo_policy :: "feature_ir \<Rightarrow> resource_ir \<Rightarrow> file_capability \<Rightarrow> string option" where
  "photo_policy feature resource cap_file =
     (case fc_auto_photo_policy cap_file of
        Some raw \<Rightarrow> (case strip_prefix ''@policy.'' raw of Some rest \<Rightarrow> Some rest | None \<Rightarrow> Some raw)
      | None \<Rightarrow> policy_name_for feature (rs_name resource))"

definition add_photo_record :: "feature_ir \<Rightarrow> record_decl \<Rightarrow> photo_state \<Rightarrow> photo_state" where
  "add_photo_record feature r st =
     (if rd_name r \<in> set (map rd_name (fe_records feature)) then st else st\<lparr>ph_records := ph_records st @ [r]\<rparr>)"

definition photo_roles :: "AutoPhotoCommandRole list" where
  "photo_roles = [RoleRequest, RoleConfirm, RoleClear, RoleGetUrl]"

definition photo_role_step ::
  "feature_ir \<Rightarrow> resource_ir \<Rightarrow> field_ir \<Rightarrow> string \<Rightarrow> string \<Rightarrow> string \<Rightarrow> AutoPhotoCommandRole \<Rightarrow> photo_state \<Rightarrow> photo_state" where
  "photo_role_step feature resource field intent_name display_name policy_name role st =
     (let cmd_name = auto_photo_command_name (fi_name field) role in
      if cmd_name \<in> set (map cm_name (fe_commands feature)) then st
      else st\<lparr>ph_commands := ph_commands st @
        [build_auto_photo_command cmd_name (rs_name resource) (fi_name field) role intent_name display_name policy_name]\<rparr>)"

definition photo_field_step :: "feature_ir \<Rightarrow> resource_ir \<Rightarrow> field_ir \<Rightarrow> photo_state \<Rightarrow> photo_state" where
  "photo_field_step feature resource field st =
     (if fi_required field then st
      else case fi_type_ref field of
        Capability (File cap_file) \<Rightarrow>
          (let pascal_field = snake_to_pascal (fi_name field);
               intent_name = pascal_field @ ''UploadIntent'';
               display_name = pascal_field @ ''DisplayUrl'' in
           case photo_policy feature resource cap_file of
             None \<Rightarrow> st
           | Some policy_name \<Rightarrow>
               let st = add_photo_record feature (auto_photo_intent_record intent_name) st;
                   st = add_photo_record feature (auto_photo_display_record display_name) st in
               fold (photo_role_step feature resource field intent_name display_name policy_name) photo_roles st)
      | _ \<Rightarrow> st)"

definition photo_resource_step :: "feature_ir \<Rightarrow> resource_ir \<Rightarrow> photo_state \<Rightarrow> photo_state" where
  "photo_resource_step feature resource st =
     (if \<not> has_user_unique resource then st else fold (photo_field_step feature resource) (rs_fields resource) st)"

definition synthesize_auto_photo :: "feature_ir \<Rightarrow> feature_ir" where
  "synthesize_auto_photo feature =
     (let st = fold (photo_resource_step feature) (fe_resources feature) \<lparr>ph_commands = [], ph_records = []\<rparr> in
      feature\<lparr>fe_commands := fe_commands feature @ ph_commands st, fe_records := fe_records feature @ ph_records st\<rparr>)"

section \<open>What a field adds\<close>

text \<open>The policy a field uploads under, when the field takes part.\<close>

definition upload_policy :: "feature_ir \<Rightarrow> resource_ir \<Rightarrow> field_ir \<Rightarrow> string option" where
  "upload_policy feature resource field =
     (if \<not> has_user_unique resource \<or> fi_required field then None
      else case fi_type_ref field of Capability (File cap_file) \<Rightarrow> photo_policy feature resource cap_file | _ \<Rightarrow> None)"

definition intent_name :: "field_ir \<Rightarrow> string" where
  "intent_name field = snake_to_pascal (fi_name field) @ ''UploadIntent''"

definition display_name :: "field_ir \<Rightarrow> string" where
  "display_name field = snake_to_pascal (fi_name field) @ ''DisplayUrl''"

definition upload_command :: "resource_ir \<Rightarrow> field_ir \<Rightarrow> string \<Rightarrow> AutoPhotoCommandRole \<Rightarrow> command_ir" where
  "upload_command resource field policy role =
     build_auto_photo_command (auto_photo_command_name (fi_name field) role) (rs_name resource) (fi_name field) role
       (intent_name field) (display_name field) policy"

definition field_commands :: "feature_ir \<Rightarrow> resource_ir \<Rightarrow> field_ir \<Rightarrow> command_ir list" where
  "field_commands feature resource field = (case upload_policy feature resource field of None \<Rightarrow> []
     | Some policy \<Rightarrow> filter (\<lambda>c. cm_name c \<notin> existing_command_names feature) (map (upload_command resource field policy) photo_roles))"

definition field_records :: "feature_ir \<Rightarrow> resource_ir \<Rightarrow> field_ir \<Rightarrow> record_decl list" where
  "field_records feature resource field = (case upload_policy feature resource field of None \<Rightarrow> []
     | Some policy \<Rightarrow> filter (\<lambda>r. rd_name r \<notin> set (map rd_name (fe_records feature)))
         [auto_photo_intent_record (intent_name field), auto_photo_display_record (display_name field)])"

lemma build_auto_photo_facts [simp]:
  "cm_name (build_auto_photo_command n r f role i d p) = n"
  "cm_policy (build_auto_photo_command n r f role i d p) = RefLocal p"
  "cm_synthesized_from_cap_file (build_auto_photo_command n r f role i d p) =
     Some \<lparr>sf_resource = r, sf_field = f, sf_role = role\<rparr>"
  "cm_lets (build_auto_photo_command n r f role i d p) = []"
  "cm_effect (build_auto_photo_command n r f role i d p) = fst (snd (photo_shape role i d))"
  "cm_input (build_auto_photo_command n r f role i d p) = fst (photo_shape role i d)"
  "cm_rate_limit (build_auto_photo_command n r f role i d p) = Some (from_default (snd (snd (photo_shape role i d))))"
  by (simp_all add: build_auto_photo_command_def split: prod.splits)

lemma upload_command_name [simp]: "cm_name (upload_command r f p role) = auto_photo_command_name (fi_name f) role"
  by (simp add: upload_command_def)

lemma role_fold_adds:
  "ph_commands (fold (photo_role_step f r fi (intent_name fi) (display_name fi) p) roles st) = ph_commands st @
     filter (\<lambda>c. cm_name c \<notin> existing_command_names f) (map (upload_command r fi p) roles) \<and>
   ph_records (fold (photo_role_step f r fi (intent_name fi) (display_name fi) p) roles st) = ph_records st"
  by (induction roles arbitrary: st)
    (auto simp: photo_role_step_def Let_def existing_command_names_def upload_command_def)

lemma field_step_adds:
  assumes "has_user_unique r"
  shows "ph_commands (photo_field_step f r fi st) = ph_commands st @ field_commands f r fi \<and>
    ph_records (photo_field_step f r fi st) = ph_records st @ field_records f r fi"
  using assms role_fold_adds
  by (simp add: photo_field_step_def field_commands_def field_records_def upload_policy_def Let_def
      add_photo_record_def intent_name_def[symmetric] display_name_def[symmetric] auto_photo_intent_record_def
      auto_photo_display_record_def split: TypeRef.split CapabilityRef.split option.split)

lemma no_user_no_upload:
  "\<not> has_user_unique r \<Longrightarrow> field_commands f r fi = []" "\<not> has_user_unique r \<Longrightarrow> field_records f r fi = []"
  by (simp_all add: field_commands_def field_records_def upload_policy_def)

lemma resource_step_adds:
  "ph_commands (photo_resource_step f r st) = ph_commands st @ concat (map (field_commands f r) (rs_fields r)) \<and>
   ph_records (photo_resource_step f r st) = ph_records st @ concat (map (field_records f r) (rs_fields r))"
proof (cases "has_user_unique r")
  case True
  have "ph_commands (fold (photo_field_step f r) fs st) = ph_commands st @ concat (map (field_commands f r) fs) \<and>
      ph_records (fold (photo_field_step f r) fs st) = ph_records st @ concat (map (field_records f r) fs)" for fs
    by (induction fs arbitrary: st) (simp_all add: field_step_adds[OF True])
  with True show ?thesis by (simp add: photo_resource_step_def)
next
  case False
  have "concat (map (field_commands f r) fs) = []" "concat (map (field_records f r) fs) = []" for fs
    using no_user_no_upload[OF False] by (induction fs) simp_all
  with False show ?thesis by (simp add: photo_resource_step_def)
qed

text \<open>The fields that take part, with their resources, in order.\<close>

definition upload_sites :: "feature_ir \<Rightarrow> (resource_ir \<times> field_ir) list" where
  "upload_sites feature = filter (\<lambda>(r, f). upload_policy feature r f \<noteq> None)
     (concat (map (\<lambda>r. map (Pair r) (rs_fields r)) (fe_resources feature)))"

lemma concat_sites:
  assumes "\<And>r f. upload_policy feature r f = None \<Longrightarrow> h r f = []"
  shows "concat (map (\<lambda>r. concat (map (h r) (rs_fields r))) rs) =
    concat (map (\<lambda>(r, f). h r f) (filter (\<lambda>(r, f). upload_policy feature r f \<noteq> None)
      (concat (map (\<lambda>r. map (Pair r) (rs_fields r)) rs))))"
proof (induction rs)
  case (Cons r rs)
  have "concat (map (h r) fs) = concat (map (\<lambda>(r, f). h r f) (filter (\<lambda>(r, f). upload_policy feature r f \<noteq> None) (map (Pair r) fs)))" for fs
    using assms by (induction fs) auto
  with Cons show ?case by simp
qed simp

lemma auto_photo_eq:
  "fe_commands (synthesize_auto_photo f) = fe_commands f @ concat (map (\<lambda>(r, fi). field_commands f r fi) (upload_sites f))"
  "fe_records (synthesize_auto_photo f) = fe_records f @ concat (map (\<lambda>(r, fi). field_records f r fi) (upload_sites f))"
proof -
  have "ph_commands (fold (photo_resource_step f) rs st) = ph_commands st @
      concat (map (\<lambda>r. concat (map (field_commands f r) (rs_fields r))) rs) \<and>
    ph_records (fold (photo_resource_step f) rs st) = ph_records st @
      concat (map (\<lambda>r. concat (map (field_records f r) (rs_fields r))) rs)" for rs st
    by (induction rs arbitrary: st) (simp_all add: resource_step_adds)
  then show "fe_commands (synthesize_auto_photo f) = fe_commands f @ concat (map (\<lambda>(r, fi). field_commands f r fi) (upload_sites f))"
    "fe_records (synthesize_auto_photo f) = fe_records f @ concat (map (\<lambda>(r, fi). field_records f r fi) (upload_sites f))"
    unfolding upload_sites_def
    by (simp_all add: synthesize_auto_photo_def Let_def concat_sites[where feature = f and h = "field_commands f"]
        concat_sites[where feature = f and h = "field_records f"] field_commands_def field_records_def)
qed

section \<open>When names clash\<close>

lemma command_name_inj [simp]:
  "auto_photo_command_name a r = auto_photo_command_name b s \<longleftrightarrow> a = b \<and> r = s"
  by (cases r; cases s) auto

lemma photo_roles_complete: "distinct photo_roles" "set photo_roles = UNIV"
proof -
  have "role \<in> set photo_roles" for role by (cases role) (simp_all add: photo_roles_def)
  then show "set photo_roles = UNIV" by auto
qed (simp add: photo_roles_def)

lemma distinct_by_role:
  assumes "\<And>a r b s. nm a r = nm b s \<longleftrightarrow> a = b \<and> r = s" "distinct roles"
  shows "distinct (filter P (concat (map (\<lambda>x. map (nm x) roles) xs))) \<longleftrightarrow>
    distinct (filter (\<lambda>x. list_ex (\<lambda>r. P (nm x r)) roles) xs)"
proof (induction xs)
  case (Cons x xs)
  have own: "distinct (filter P (map (nm x) roles))"
    using assms by (intro distinct_filter) (simp add: distinct_map inj_on_def)
  have meet: "set (filter P (map (nm x) roles)) \<inter> set (filter P (concat (map (\<lambda>x. map (nm x) roles) xs))) = {} \<longleftrightarrow>
      \<not> (list_ex (\<lambda>r. P (nm x r)) roles \<and> x \<in> set xs)"
  proof -
    have "nm x r \<in> nm y ` set roles \<longleftrightarrow> x = y" if "r \<in> set roles" for y r using that assms(1) by auto
    then show ?thesis unfolding disjoint_iff by (simp add: list_ex_iff) (metis imageE imageI)
  qed
  from Cons own meet show ?case by auto
qed simp

lemma site_names:
  assumes "upload_policy f r fi \<noteq> None"
  shows "map cm_name (field_commands f r fi) =
      filter (\<lambda>n. n \<notin> existing_command_names f) (map (auto_photo_command_name (fi_name fi)) photo_roles)"
    "map rd_name (field_records f r fi) =
      filter (\<lambda>n. n \<notin> set (map rd_name (fe_records f))) [intent_name fi, display_name fi]"
proof -
  obtain p where p: "upload_policy f r fi = Some p" using assms by auto
  have f: "map g (filter (\<lambda>x. P (g x)) xs) = filter P (map g xs)" for g :: "'a \<Rightarrow> string" and P xs by (simp add: filter_map comp_def)
  have g: "map g (filter (\<lambda>x. P (g x)) xs) = filter P (map g xs)" for g :: "'b \<Rightarrow> string" and P xs by (simp add: filter_map comp_def)
  show "map cm_name (field_commands f r fi) =
      filter (\<lambda>n. n \<notin> existing_command_names f) (map (auto_photo_command_name (fi_name fi)) photo_roles)"
    by (simp add: field_commands_def p f[of cm_name "\<lambda>n. n \<notin> existing_command_names _"] comp_def)
  show "map rd_name (field_records f r fi) =
      filter (\<lambda>n. n \<notin> set (map rd_name (fe_records f))) [intent_name fi, display_name fi]"
    by (simp add: field_records_def p auto_photo_intent_record_def auto_photo_display_record_def)
qed

lemma sites_policy: "(r, fi) \<in> set (upload_sites f) \<Longrightarrow> upload_policy f r fi \<noteq> None"
  by (auto simp: upload_sites_def)

lemma filter_concat_map: "filter P (concat (map h xs)) = concat (map (\<lambda>x. filter P (h x)) xs)"
  by (induction xs) simp_all

lemma auto_photo_names:
  "map cm_name (fe_commands (synthesize_auto_photo f)) = map cm_name (fe_commands f) @
     filter (\<lambda>n. n \<notin> existing_command_names f)
       (concat (map (\<lambda>n. map (auto_photo_command_name n) photo_roles) (map (\<lambda>(r, fi). fi_name fi) (upload_sites f))))"
  "map rd_name (fe_records (synthesize_auto_photo f)) = map rd_name (fe_records f) @
     filter (\<lambda>n. n \<notin> set (map rd_name (fe_records f)))
       (concat (map (\<lambda>(r, fi). [intent_name fi, display_name fi]) (upload_sites f)))"
proof -
  have "map cm_name (concat (map (\<lambda>(r, fi). field_commands f r fi) ss)) = filter (\<lambda>n. n \<notin> existing_command_names f)
      (concat (map (\<lambda>n. map (auto_photo_command_name n) photo_roles) (map (\<lambda>(r, fi). fi_name fi) ss)))"
    "map rd_name (concat (map (\<lambda>(r, fi). field_records f r fi) ss)) = filter (\<lambda>n. n \<notin> set (map rd_name (fe_records f)))
      (concat (map (\<lambda>(r, fi). [intent_name fi, display_name fi]) ss))"
    if "set ss \<subseteq> set (upload_sites f)" for ss
    using that by (induction ss) (auto simp: site_names sites_policy simp del: filter.simps)
  from this[OF subset_refl]
  show "map cm_name (fe_commands (synthesize_auto_photo f)) = map cm_name (fe_commands f) @
     filter (\<lambda>n. n \<notin> existing_command_names f)
       (concat (map (\<lambda>n. map (auto_photo_command_name n) photo_roles) (map (\<lambda>(r, fi). fi_name fi) (upload_sites f))))"
    "map rd_name (fe_records (synthesize_auto_photo f)) = map rd_name (fe_records f) @
     filter (\<lambda>n. n \<notin> set (map rd_name (fe_records f)))
       (concat (map (\<lambda>(r, fi). [intent_name fi, display_name fi]) (upload_sites f)))"
    by (simp_all add: auto_photo_eq)
qed

lemma photo_policy_chosen:
  "photo_policy f r cap = Some p \<Longrightarrow> fc_auto_photo_policy cap \<noteq> None \<or> declares_policy f p"
  by (auto simp: photo_policy_def policy_name_for_def Let_def split: option.splits if_splits)

section \<open>Properties\<close>


definition photo_field :: field_ir where
  "photo_field = simple_field ''photo'' (Capability (File
     \<lparr>fc_max_size = \<lparr>fz_bytes = 5242880, fz_literal = Mb 5\<rparr>, fc_accept = [], fc_visibility = Some Signed,
      fc_signed_ttl = None, fc_auto_photo_policy = Some ''@policy.host_only''\<rparr>)) False"

definition photo_resource :: "string \<Rightarrow> resource_ir" where
  "photo_resource name =
     crud_resource name [(simple_required_field ''user'' (UserDefined (local_name ''User'')))\<lparr>fi_unique := True\<rparr>, photo_field] []"


end
