(* ===== verification/Feature_Passes.thy ===== *)
theory Feature_Passes
  imports Auto_Photo
begin

text \<open>
  The passes that run over a lowered feature (\<^verbatim>\<open>feature.rs\<close>): the rate limit and audit a feature sets for its
  commands (\<^verbatim>\<open>apply_command_defaults\<close>), the events of its event groups (\<^verbatim>\<open>hoist_event_group_variants\<close>), the
  enum literals among the bindings (\<^verbatim>\<open>resolve_enum_literal_bindings\<close>), and the order in which
  \<^verbatim>\<open>lower_feature_skeleton\<close> runs them with the synthesis passes. What the passes promise each other is the locale
  \<open>feature_pass\<close>: none removes or renames a command, and none touches what the later ones are keyed by.

  Shown here: every pass keeps that promise and so does their sequence; running the sequence again changes
  nothing but the recorded origins; and where the commands of the result come from.
\<close>

section \<open>Defaults\<close>

definition default_audit_spec :: "DefaultsAudit option \<Rightarrow> audit_spec option" where
  "default_audit_spec audit = (case audit of
      Some AuditDefault \<Rightarrow> Some \<lparr>au_subjects = [''default''], au_emit_to = None, au_data_subject = None,
        au_record_before = False, au_record_after = False, au_retain_for = None, au_materialize = None\<rparr>
    | None \<Rightarrow> None)"

definition default_command :: "feature_defaults \<Rightarrow> command_ir \<Rightarrow> command_ir" where
  "default_command defaults command =
     (let command = (if cm_rate_limit command = None then
            (case df_rate_limit defaults of Some spec \<Rightarrow> command\<lparr>cm_rate_limit := Some (from_default spec)\<rparr> | None \<Rightarrow> command)
          else command) in
      if cm_audit command = None then
        (case default_audit_spec (df_audit defaults) of Some a \<Rightarrow> command\<lparr>cm_audit := Some a\<rparr> | None \<Rightarrow> command)
      else command)"

definition apply_command_defaults :: "feature_defaults \<Rightarrow> command_ir list \<Rightarrow> command_ir list" where
  "apply_command_defaults defaults commands =
     (if df_rate_limit defaults = None \<and> df_audit defaults = None then commands
      else map (default_command defaults) commands)"

section \<open>Events\<close>

definition event_group_variant_full_name :: "string \<Rightarrow> string \<Rightarrow> string" where
  "event_group_variant_full_name pattern short_name =
     (let prefix = (case strip_suffix ''*'' pattern of Some p \<Rightarrow> p | None \<Rightarrow> pattern) in
      if prefix = [] \<or> starts_with short_name prefix then short_name else prefix @ short_name)"

record hoist_state =
  hs_existing :: "string set"
  hs_hoisted :: "event_ir list"

definition hoisted_event :: "string \<Rightarrow> event_variant \<Rightarrow> event_ir" where
  "hoisted_event full_name variant =
     \<lparr>en_name = full_name, en_kind = (case vr_kind variant of CommittedVariant \<Rightarrow> DomainEvent | TraceVariant \<Rightarrow> TraceEvent),
      en_payload = vr_fields variant, en_payload_none = False, en_level = None, en_outbox = vr_outbox variant,
      en_previous_names = [], en_span_ref = vr_span_ref variant\<rparr>"

definition hoist_variant :: "event_group \<Rightarrow> event_variant \<Rightarrow> hoist_state \<Rightarrow> hoist_state" where
  "hoist_variant grp variant st =
     (let full_name = event_group_variant_full_name (eg_pattern grp) (vr_name variant) in
      if full_name \<in> hs_existing st then st
      else \<lparr>hs_existing = insert full_name (hs_existing st), hs_hoisted = hs_hoisted st @ [hoisted_event full_name variant]\<rparr>)"

definition hoist_event_group_variants :: "feature_ir \<Rightarrow> feature_ir" where
  "hoist_event_group_variants feature =
     (let st = fold (\<lambda>grp. fold (hoist_variant grp) (eg_variants grp)) (fe_event_groups feature)
        \<lparr>hs_existing = set (map en_name (fe_events feature)), hs_hoisted = []\<rparr> in
      feature\<lparr>fe_events := fe_events feature @ hs_hoisted st\<rparr>)"

section \<open>Enum literals\<close>

definition source_heads :: "string list" where
  "source_heads = [''input'', ''ctx'', ''target'', ''route'']"

definition lifted_value :: "string set \<Rightarrow> string set \<Rightarrow> Expr \<Rightarrow> Expr option" where
  "lifted_value enum_names let_names val = (case val of
      EPath [head, variant] \<Rightarrow>
        if head \<notin> set source_heads \<and> head \<in> enum_names
        then Some (EEnum \<lparr>el_type_name = Some \<lparr>qn_feature = None, qn_name = head\<rparr>, el_variant = variant\<rparr>) else None
    | EPath [name] \<Rightarrow>
        if name \<notin> set source_heads \<and> name \<notin> let_names
        then Some (EEnum \<lparr>el_type_name = None, el_variant = name\<rparr>) else None
    | _ \<Rightarrow> None)"

definition resolve_enum_assignments :: "string set \<Rightarrow> string set \<Rightarrow> assignment list \<Rightarrow> assignment list" where
  "resolve_enum_assignments enum_names let_names assignments =
     map (\<lambda>a. case lifted_value enum_names let_names (asg_value a) of
         Some expr \<Rightarrow> a\<lparr>asg_value := expr\<rparr> | None \<Rightarrow> a) assignments"

definition resolve_enum_command :: "string set \<Rightarrow> command_ir \<Rightarrow> command_ir" where
  "resolve_enum_command enum_names command =
     (let let_names = set (map let_name (cm_lets command)); resolve = resolve_enum_assignments enum_names let_names in
      command\<lparr>cm_effect := (case cm_effect command of
          Creates r from_input as \<Rightarrow> Creates r from_input (resolve as)
        | UpdatesRow r as wh \<Rightarrow> UpdatesRow r (resolve as) (resolve wh)
        | DeletesRow r wh \<Rightarrow> DeletesRow r (resolve wh)
        | other \<Rightarrow> other)\<rparr>)"

definition resolve_enum_literal_bindings :: "feature_ir \<Rightarrow> feature_ir" where
  "resolve_enum_literal_bindings feature =
     feature\<lparr>fe_commands := map (resolve_enum_command (set (map ed_name (fe_enums feature)))) (fe_commands feature)\<rparr>"

section \<open>The sequence\<close>

text \<open>The feature the structural lift assembles comes in with the commands as authored; the defaults are applied to
  them before the other passes run.\<close>

definition with_command_defaults :: "feature_ir \<Rightarrow> feature_ir" where
  "with_command_defaults feature =
     feature\<lparr>fe_commands := apply_command_defaults (fe_defaults feature) (fe_commands feature)\<rparr>"

definition conventions_pass :: "resource_decl list \<Rightarrow> feature_ir \<Rightarrow> feature_ir" where
  "conventions_pass resources feature =
     (let crud_overlays = collect_crud_overlays resources in
      fst (synthesize_conventions_with_overlays crud_overlays feature))"

definition synthesis_passes ::
  "(string \<Rightarrow> string) \<Rightarrow> (string \<Rightarrow> string) \<Rightarrow> resource_decl list \<Rightarrow> feature_ir \<Rightarrow> feature_ir" where
  "synthesis_passes up low resources feature =
     (let feature = hoist_event_group_variants feature;
          feature = lower_lifecycles up low feature resources;
          feature = synthesize_auto_photo feature;
          feature = conventions_pass resources feature in
      resolve_enum_literal_bindings feature)"

definition finish_feature ::
  "(string \<Rightarrow> string) \<Rightarrow> (string \<Rightarrow> string) \<Rightarrow> resource_decl list \<Rightarrow> feature_ir \<Rightarrow> feature_ir" where
  "finish_feature up low resources feature = synthesis_passes up low resources (with_command_defaults feature)"

section \<open>What a pass promises\<close>

locale feature_pass =
  fixes pass :: "feature_ir \<Rightarrow> feature_ir"
  assumes keeps_commands: "\<exists>ns. map cm_name (fe_commands (pass f)) = map cm_name (fe_commands f) @ ns"
    and keeps_queries: "\<exists>qs. fe_queries (pass f) = fe_queries f @ qs"
    and keeps_resources: "map rs_name (fe_resources (pass f)) = map rs_name (fe_resources f)"
    and keeps_conventions: "map rs_conventions (fe_resources (pass f)) = map rs_conventions (fe_resources f)"
    and keeps_frame: "fe_name (pass f) = fe_name f" "fe_uses (pass f) = fe_uses f" "fe_defaults (pass f) = fe_defaults f"
      "fe_policy_categories (pass f) = fe_policy_categories f" "fe_event_groups (pass f) = fe_event_groups f"
begin

lemma command_names_grow: "existing_command_names f \<subseteq> existing_command_names (pass f)"
  using keeps_commands[of f] by (auto simp: existing_command_names_def simp flip: set_map)

lemma query_names_grow: "existing_query_names f \<subseteq> existing_query_names (pass f)"
  using keeps_queries[of f] by (auto simp: existing_query_names_def)

lemma authored_position: "i < length (fe_commands f) \<Longrightarrow> cm_name (fe_commands (pass f) ! i) = cm_name (fe_commands f ! i)"
proof -
  assume i: "i < length (fe_commands f)"
  obtain ns where ns: "map cm_name (fe_commands (pass f)) = map cm_name (fe_commands f) @ ns" using keeps_commands by blast
  then have "length (fe_commands (pass f)) = length (fe_commands f) + length ns"
    by (metis length_append length_map)
  with i arg_cong[OF ns, of "\<lambda>l. l ! i"] show ?thesis by (simp add: nth_append)
qed

lemma policies_kept: "declares_policy (pass f) p = declares_policy f p"
  by (simp add: declares_policy_def keeps_frame)

end

lemma feature_pass_comp:
  assumes "feature_pass p" "feature_pass q"
  shows "feature_pass (\<lambda>f. q (p f))"
proof -
  note p = feature_pass.keeps_commands[OF assms(1)] feature_pass.keeps_queries[OF assms(1)]
    feature_pass.keeps_resources[OF assms(1)] feature_pass.keeps_conventions[OF assms(1)] feature_pass.keeps_frame[OF assms(1)]
  note q = feature_pass.keeps_commands[OF assms(2)] feature_pass.keeps_queries[OF assms(2)]
    feature_pass.keeps_resources[OF assms(2)] feature_pass.keeps_conventions[OF assms(2)] feature_pass.keeps_frame[OF assms(2)]
  show ?thesis
    by unfold_locales (metis p(1) q(1) append.assoc, metis p(2) q(2) append.assoc, simp_all add: p(3-) q(3-))
qed

lemma feature_pass_fold: "(\<And>x. x \<in> set xs \<Longrightarrow> feature_pass (p x)) \<Longrightarrow> feature_pass (fold p xs)"
proof (induction xs)
  case Nil
  show ?case by unfold_locales (simp_all add: exI[of _ "[]"])
next
  case (Cons x xs)
  then show ?case using feature_pass_comp[of "p x" "fold p xs"] by (simp add: comp_def)
qed

interpretation defaults_pass: feature_pass with_command_defaults
proof unfold_locales
  fix f
  have "map cm_name (apply_command_defaults d cs) = map cm_name cs" for d cs
    by (induction cs) (simp_all add: apply_command_defaults_def default_command_def Let_def split: option.split)
  then show "\<exists>ns. map cm_name (fe_commands (with_command_defaults f)) = map cm_name (fe_commands f) @ ns"
    by (simp add: with_command_defaults_def)
qed (simp_all add: with_command_defaults_def)

interpretation hoist_pass: feature_pass hoist_event_group_variants
  by unfold_locales (simp_all add: hoist_event_group_variants_def Let_def)

interpretation photo_pass: feature_pass synthesize_auto_photo
  by unfold_locales (simp_all add: auto_photo_names, simp_all add: synthesize_auto_photo_def Let_def)

lemma synthesize_frame:
  "fe_name (fst (synthesize_conventions_with_overlays ov f)) = fe_name f" "fe_uses (fst (synthesize_conventions_with_overlays ov f)) = fe_uses f"
  "fe_defaults (fst (synthesize_conventions_with_overlays ov f)) = fe_defaults f"
  "fe_resources (fst (synthesize_conventions_with_overlays ov f)) = fe_resources f"
  "fe_records (fst (synthesize_conventions_with_overlays ov f)) = fe_records f"
  "fe_enums (fst (synthesize_conventions_with_overlays ov f)) = fe_enums f"
  "fe_policy_categories (fst (synthesize_conventions_with_overlays ov f)) = fe_policy_categories f"
  "fe_events (fst (synthesize_conventions_with_overlays ov f)) = fe_events f"
  "fe_event_groups (fst (synthesize_conventions_with_overlays ov f)) = fe_event_groups f"
  by (simp_all add: synthesize_conventions_with_overlays_def Let_def)

interpretation conventions: feature_pass "conventions_pass resources"
  by unfold_locales (simp_all add: conventions_pass_def Let_def synthesize_eq, simp_all add: synthesize_frame)

lemma resolve_enum_command_name [simp]: "cm_name (resolve_enum_command es c) = cm_name c"
  by (simp add: resolve_enum_command_def Let_def)

interpretation enums_pass: feature_pass resolve_enum_literal_bindings
  by unfold_locales (simp_all add: resolve_enum_literal_bindings_def comp_def)

lemma lowered_resource_conventions: "rs_conventions (lowered_resource r ast en) = rs_conventions r"
proof -
  have "rs_conventions (timestamp_loop r ts) = rs_conventions r" for r ts
    by (induction r ts rule: timestamp_loop.induct) (simp_all split: option.split)
  then show ?thesis
    by (simp add: lowered_resource_def emit_timestamp_fields_def emit_discriminator_field_def)
qed

lemma lower_one_frame:
  "fe_name (lower_one_lifecycle up low d f) = fe_name f" "fe_uses (lower_one_lifecycle up low d f) = fe_uses f"
  "fe_defaults (lower_one_lifecycle up low d f) = fe_defaults f"
  "fe_policy_categories (lower_one_lifecycle up low d f) = fe_policy_categories f"
  "fe_event_groups (lower_one_lifecycle up low d f) = fe_event_groups f"
  "fe_queries (lower_one_lifecycle up low d f) = fe_queries f" "fe_events (lower_one_lifecycle up low d f) = fe_events f"
  "fe_records (lower_one_lifecycle up low d f) = fe_records f"
  by (simp_all add: lower_one_lifecycle_def Let_def emit_lifecycle_commands_def emit_lifecycle_enum_def split: option.split)

lemma lower_one_pass: "feature_pass (lower_one_lifecycle up low d)"
proof
  fix f
  have "\<exists>cs. fe_commands (lower_one_lifecycle up low d f) = fe_commands f @ cs \<and>
      map rs_conventions (fe_resources (lower_one_lifecycle up low d f)) = map rs_conventions (fe_resources f)"
  proof (cases rule: lower_one_cases[of up low d f])
    case (run ast i)
    then have "i < length (fe_resources f)" by (simp add: first_index_Some_iff)
    then show ?thesis
      using lower_one_effect(1,3)[OF run] lowered_resource_conventions by (simp add: map_update list_update_same_conv)
  qed simp
  then show "\<exists>ns. map cm_name (fe_commands (lower_one_lifecycle up low d f)) = map cm_name (fe_commands f) @ ns"
    "map rs_conventions (fe_resources (lower_one_lifecycle up low d f)) = map rs_conventions (fe_resources f)"
    by auto
qed (simp_all add: lower_one_frame lower_one_names)

interpretation lifecycle_pass: feature_pass "\<lambda>f. lower_lifecycles up low f resources"
  unfolding lower_lifecycles_def by (rule feature_pass_fold) (rule lower_one_pass)

interpretation synthesis: feature_pass "synthesis_passes up low resources"
  unfolding synthesis_passes_def Let_def
  by (intro feature_pass_comp[OF hoist_pass.feature_pass_axioms] feature_pass_comp[OF lifecycle_pass.feature_pass_axioms]
      feature_pass_comp[OF photo_pass.feature_pass_axioms] feature_pass_comp[OF conventions.feature_pass_axioms]
      enums_pass.feature_pass_axioms)

interpretation whole: feature_pass "finish_feature up low resources"
  unfolding finish_feature_def
  by (rule feature_pass_comp[OF defaults_pass.feature_pass_axioms synthesis.feature_pass_axioms])

section \<open>Hoisted events\<close>

fun first_new :: "'a set \<Rightarrow> 'a list \<Rightarrow> 'a list" where
  "first_new seen [] = []"
| "first_new seen (x # xs) = (if x \<in> seen then first_new seen xs else x # first_new (insert x seen) xs)"

lemma first_new_facts: "set (first_new seen xs) = set xs - seen" "distinct (first_new seen xs)"
  by (induction seen xs rule: first_new.induct) auto

lemma first_new_none: "set xs \<subseteq> seen \<Longrightarrow> first_new seen xs = []"
  by (induction seen xs rule: first_new.induct) auto

definition variant_names :: "event_group list \<Rightarrow> string list" where
  "variant_names groups =
     concat (map (\<lambda>g. map (\<lambda>v. event_group_variant_full_name (eg_pattern g) (vr_name v)) (eg_variants g)) groups)"

lemma hoisted_names:
  "map en_name (fe_events (hoist_event_group_variants f)) =
     map en_name (fe_events f) @ first_new (set (map en_name (fe_events f))) (variant_names (fe_event_groups f))"
proof -
  have one: "map en_name (hs_hoisted (fold (hoist_variant g) vs st)) = map en_name (hs_hoisted st) @
        first_new (hs_existing st) (map (\<lambda>v. event_group_variant_full_name (eg_pattern g) (vr_name v)) vs) \<and>
      hs_existing (fold (hoist_variant g) vs st) = hs_existing st \<union>
        set (map (\<lambda>v. event_group_variant_full_name (eg_pattern g) (vr_name v)) vs)" for g vs st
    by (induction vs arbitrary: st) (auto simp: hoist_variant_def Let_def hoisted_event_def)
  have app: "first_new seen (xs @ ys) = first_new seen xs @ first_new (seen \<union> set xs) ys" for seen and xs ys :: "string list"
    by (induction seen xs rule: first_new.induct) (auto simp: insert_absorb)
  have "map en_name (hs_hoisted (fold (\<lambda>g. fold (hoist_variant g) (eg_variants g)) gs st)) = map en_name (hs_hoisted st) @
      first_new (hs_existing st) (variant_names gs)" for gs st
    by (induction gs arbitrary: st) (simp_all add: one app variant_names_def)
  then show ?thesis by (simp add: hoist_event_group_variants_def Let_def)
qed

lemma hoist_fixed: "set (variant_names (fe_event_groups f)) \<subseteq> set (map en_name (fe_events f)) \<Longrightarrow> hoist_event_group_variants f = f"
proof -
  assume "set (variant_names (fe_event_groups f)) \<subseteq> set (map en_name (fe_events f))"
  then have "map en_name (fe_events (hoist_event_group_variants f)) = map en_name (fe_events f)"
    by (simp only: hoisted_names first_new_none append_Nil2)
  then have "fe_events (hoist_event_group_variants f) = fe_events f"
    by (auto simp: hoist_event_group_variants_def Let_def)
  then show ?thesis by (simp add: hoist_event_group_variants_def Let_def)
qed

lemma variants_hoisted: "set (variant_names (fe_event_groups f)) \<subseteq> set (map en_name (fe_events (hoist_event_group_variants f)))"
  unfolding hoisted_names by (auto simp: first_new_facts simp del: set_map)

section \<open>Resolved literals\<close>

lemma lifted_stays: "lifted_value es ls v = Some w \<Longrightarrow> lifted_value es ls w = None"
  by (auto simp: lifted_value_def split: Expr.splits list.splits if_splits)

lemma resolve_assignments_again:
  "resolve_enum_assignments es ls (resolve_enum_assignments es ls as) = resolve_enum_assignments es ls as"
  unfolding resolve_enum_assignments_def by (auto split: option.split dest: lifted_stays)

lemma resolve_command_again: "resolve_enum_command es (resolve_enum_command es c) = resolve_enum_command es c"
  by (cases "cm_effect c") (simp_all add: resolve_enum_command_def Let_def resolve_assignments_again)

lemma resolve_again: "resolve_enum_literal_bindings (resolve_enum_literal_bindings f) = resolve_enum_literal_bindings f"
  by (simp add: resolve_enum_literal_bindings_def comp_def resolve_command_again)

lemma resolve_assignments_fields: "map asg_field (resolve_enum_assignments es ls as) = map asg_field as"
  by (auto simp: resolve_enum_assignments_def split: option.split)

lemma resolve_command_keeps:
  "cm_kind (resolve_enum_command es c) = cm_kind c" "cm_rate_limit (resolve_enum_command es c) = cm_rate_limit c"
  "cm_derived_from (resolve_enum_command es c) = cm_derived_from c"
  "effect_resource (cm_effect (resolve_enum_command es c)) = effect_resource (cm_effect c)"
  "map asg_field (effect_assigns (cm_effect (resolve_enum_command es c))) = map asg_field (effect_assigns (cm_effect c))"
  by (cases "cm_effect c"; simp add: resolve_enum_command_def Let_def resolve_assignments_fields)+

section \<open>A second run\<close>

lemma auto_photo_fixed:
  assumes "\<And>n. n \<in> set (map (\<lambda>(r, fi). fi_name fi) (upload_sites g)) \<Longrightarrow>
      auto_photo_command_name n ` set photo_roles \<subseteq> existing_command_names g"
    "set (concat (map (\<lambda>(r, fi). [intent_name fi, display_name fi]) (upload_sites g))) \<subseteq> set (map rd_name (fe_records g))"
  shows "synthesize_auto_photo g = g"
proof -
  have "filter (\<lambda>n. n \<notin> existing_command_names g)
      (concat (map (\<lambda>n. map (auto_photo_command_name n) photo_roles) (map (\<lambda>(r, fi). fi_name fi) (upload_sites g)))) = []"
    using assms(1) by (fastforce simp: filter_empty_conv)
  then have "map cm_name (fe_commands (synthesize_auto_photo g)) = map cm_name (fe_commands g)"
    using auto_photo_names(1)[of g] by (simp only: append_Nil2)
  then have cs: "fe_commands (synthesize_auto_photo g) = fe_commands g"
    unfolding auto_photo_eq map_append by (simp only: append_self_conv map_is_Nil_conv append_Nil2)
  have "filter (\<lambda>n. n \<notin> set (map rd_name (fe_records g)))
      (concat (map (\<lambda>(r, fi). [intent_name fi, display_name fi]) (upload_sites g))) = []"
    using assms(2) unfolding filter_empty_conv by blast
  then have "map rd_name (fe_records (synthesize_auto_photo g)) = map rd_name (fe_records g)"
    using auto_photo_names(2)[of g] by (simp only: append_Nil2)
  then have "fe_records (synthesize_auto_photo g) = fe_records g"
    unfolding auto_photo_eq map_append by (simp only: append_self_conv map_is_Nil_conv append_Nil2)
  with cs show ?thesis by (simp add: synthesize_auto_photo_def Let_def)
qed

lemma in_concat_map: "n \<in> set ns \<Longrightarrow> m \<in> set (h n) \<Longrightarrow> m \<in> set (concat (map h ns))"
  by auto

lemma photo_names_exist:
  "n \<in> set (map (\<lambda>(r, fi). fi_name fi) (upload_sites f)) \<Longrightarrow>
     auto_photo_command_name n ` set photo_roles \<subseteq> existing_command_names (synthesize_auto_photo f)"
  "set (concat (map (\<lambda>(r, fi). [intent_name fi, display_name fi]) (upload_sites f))) \<subseteq>
     set (map rd_name (fe_records (synthesize_auto_photo f)))"
proof -
  show "auto_photo_command_name n ` set photo_roles \<subseteq> existing_command_names (synthesize_auto_photo f)"
    if "n \<in> set (map (\<lambda>(r, fi). fi_name fi) (upload_sites f))"
  proof
    fix m assume "m \<in> auto_photo_command_name n ` set photo_roles"
    then have "m \<in> set (map (auto_photo_command_name n) photo_roles)" by (simp only: set_map)
    with that have "m \<in> set (concat (map (\<lambda>n. map (auto_photo_command_name n) photo_roles)
        (map (\<lambda>(r, fi). fi_name fi) (upload_sites f))))" by (rule in_concat_map)
    then show "m \<in> existing_command_names (synthesize_auto_photo f)"
      unfolding existing_command_names_def[of "synthesize_auto_photo f"] auto_photo_names set_append set_filter
        existing_command_names_def[of f] by blast
  qed
  show "set (concat (map (\<lambda>(r, fi). [intent_name fi, display_name fi]) (upload_sites f))) \<subseteq>
     set (map rd_name (fe_records (synthesize_auto_photo f)))"
    unfolding auto_photo_names set_append set_filter by blast
qed

lemma upload_sites_cong:
  "fe_resources g = fe_resources f \<Longrightarrow> fe_policy_categories g = fe_policy_categories f \<Longrightarrow> upload_sites g = upload_sites f"
proof -
  assume same: "fe_resources g = fe_resources f" "fe_policy_categories g = fe_policy_categories f"
  have dp: "declares_policy g = declares_policy f" by (intro ext) (simp add: declares_policy_def same)
  have "photo_policy g = photo_policy f"
    unfolding photo_policy_def[abs_def] policy_name_for_def[abs_def] dp by (rule refl)
  then have "upload_policy g = upload_policy f" unfolding upload_policy_def[abs_def] by (rule arg_cong)
  then show "upload_sites g = upload_sites f" by (simp add: upload_sites_def same)
qed

lemma lowered_cong: "fe_resources g = fe_resources f \<Longrightarrow> lowered d g = lowered d f"
  unfolding lowered_def by (cases "first_index (\<lambda>r. rs_name r = rr_name d) (fe_resources f)") simp_all

lemma lower_lifecycles_fixed: "(\<And>d. d \<in> set ds \<Longrightarrow> lowered d f) \<Longrightarrow> lower_lifecycles up low f ds = f"
  unfolding lower_lifecycles_def by (induction ds) (simp_all add: lowered_fixed)

lemma conventions_fixed:
  assumes "\<And>r. \<lbrakk>r \<in> set (fe_resources g); Crud \<in> set (rs_conventions r)\<rbrakk> \<Longrightarrow>
      {create_name r, update_name r, delete_name r} \<subseteq> existing_command_names g"
    "\<And>r. r \<in> set (fe_resources g) \<Longrightarrow> set (query_names_of r) \<subseteq> existing_query_names g"
  shows "\<exists>os. conventions_pass ds g = g\<lparr>fe_synth_origins := os\<rparr>"
proof -
  have none: "commands_of ov g r = []" "queries_of g r = []" if "r \<in> set (fe_resources g)" for r ov
  proof -
    have "map cm_name (commands_of ov g r) = []"
      unfolding commands_of_names using assms(1)[OF that] by (auto simp: filter_empty_conv)
    then show "commands_of ov g r = []" by simp
    have "map query_name (queries_of g r) = []"
      unfolding queries_of_names using assms(2)[OF that] by (auto simp: filter_empty_conv)
    then show "queries_of g r = []" by simp
  qed
  let ?h = "conventions_pass ds g"
  have "fe_commands ?h = fe_commands g" "fe_queries ?h = fe_queries g"
    using none by (simp_all add: conventions_pass_def Let_def synthesize_eq)
  moreover have "\<exists>cs qs os. ?h = g\<lparr>fe_commands := cs, fe_queries := qs, fe_synth_origins := os\<rparr>"
    unfolding conventions_pass_def synthesize_conventions_with_overlays_def Let_def fst_conv by (rule exI)+ (rule refl)
  ultimately show ?thesis by auto
qed

lemma lower_lifecycles_frame:
  "fe_events (lower_lifecycles up low f ds) = fe_events f" "fe_records (lower_lifecycles up low f ds) = fe_records f"
  unfolding lower_lifecycles_def by (induction ds arbitrary: f) (simp_all add: lower_one_frame)

lemma photo_frame:
  "fe_resources (synthesize_auto_photo f) = fe_resources f" "fe_enums (synthesize_auto_photo f) = fe_enums f"
  "fe_events (synthesize_auto_photo f) = fe_events f" "fe_queries (synthesize_auto_photo f) = fe_queries f"
  by (simp_all add: synthesize_auto_photo_def Let_def)

lemma conventions_frame:
  "fe_resources (conventions_pass ds f) = fe_resources f" "fe_enums (conventions_pass ds f) = fe_enums f"
  "fe_events (conventions_pass ds f) = fe_events f" "fe_records (conventions_pass ds f) = fe_records f"
  by (simp_all add: conventions_pass_def Let_def synthesize_frame)

lemma resolve_frame:
  "fe_resources (resolve_enum_literal_bindings f) = fe_resources f" "fe_enums (resolve_enum_literal_bindings f) = fe_enums f"
  "fe_events (resolve_enum_literal_bindings f) = fe_events f" "fe_queries (resolve_enum_literal_bindings f) = fe_queries f"
  "fe_records (resolve_enum_literal_bindings f) = fe_records f"
  "existing_command_names (resolve_enum_literal_bindings f) = existing_command_names f"
  by (simp_all add: resolve_enum_literal_bindings_def existing_command_names_def image_image)

lemma resolve_fixed:
  "map (resolve_enum_command (set (map ed_name (fe_enums g)))) (fe_commands g) = fe_commands g \<Longrightarrow>
     resolve_enum_literal_bindings g = g"
  unfolding resolve_enum_literal_bindings_def by simp

lemma resolve_with_origins:
  assumes "resolve_enum_literal_bindings g = g"
  shows "resolve_enum_literal_bindings (g\<lparr>fe_synth_origins := os\<rparr>) = g\<lparr>fe_synth_origins := os\<rparr>"
proof (rule resolve_fixed)
  from arg_cong[OF assms, of fe_commands]
  show "map (resolve_enum_command (set (map ed_name (fe_enums (g\<lparr>fe_synth_origins := os\<rparr>))))) (fe_commands (g\<lparr>fe_synth_origins := os\<rparr>)) =
      fe_commands (g\<lparr>fe_synth_origins := os\<rparr>)"
    by (simp add: resolve_enum_literal_bindings_def)
qed

section \<open>Where commands come from\<close>

text \<open>The columns of a resource that a command writes, and whether it is a transition of the resource.\<close>

definition written_fields :: "string \<Rightarrow> command_ir \<Rightarrow> string set" where
  "written_fields resource c =
     (if effect_resource (cm_effect c) = Some resource then asg_field ` set (effect_assigns (cm_effect c)) else {})"

definition transition_of :: "string \<Rightarrow> command_ir \<Rightarrow> bool" where
  "transition_of resource c \<longleftrightarrow> (case cm_derived_from c of Some (FromLifecycle r _) \<Rightarrow> r = resource | None \<Rightarrow> False)"

text \<open>A write of the state column is by a transition, or assigned by the overlay the author gave.\<close>

definition state_write_accounted :: "(string \<rightharpoonup> crud_overlay) \<Rightarrow> command_ir \<Rightarrow> resource_ir \<Rightarrow> bool" where
  "state_write_accounted overlays c r \<longleftrightarrow> (case rs_lifecycle r of
      None \<Rightarrow> True
    | Some lc \<Rightarrow>
        if lc_discriminator_field lc \<in> written_fields (rs_name r) c
        then transition_of (rs_name r) c \<or>
          list_ex (\<lambda>a. asg_field a = lc_discriminator_field lc) (eo_assigns (overlay_for overlays r (cm_kind c)))
        else True)"

definition accounted :: "(string \<rightharpoonup> crud_overlay) \<Rightarrow> resource_ir list \<Rightarrow> command_ir \<Rightarrow> bool" where
  "accounted overlays rs c \<longleftrightarrow> (cm_rate_limit c = None \<longleftrightarrow> cm_derived_from c \<noteq> None) \<and>
     list_all (state_write_accounted overlays c) rs"

lemma transition_accounted: "accounted overlays rs (lower_transition_command up low r ast t en)"
  by (auto simp: accounted_def state_write_accounted_def written_fields_def transition_of_def list_all_iff
      lower_transition_command_def Let_def split: option.split)

lemma lifecycles_add: "\<exists>ts. fe_commands (lower_lifecycles up low f ds) = fe_commands f @ ts \<and> list_all (accounted overlays rs) ts"
  unfolding lower_lifecycles_def
proof (induction ds arbitrary: f)
  case (Cons d ds)
  have "\<exists>ts. fe_commands (lower_one_lifecycle up low d f) = fe_commands f @ ts \<and> list_all (accounted overlays rs) ts"
  proof (cases rule: lower_one_cases[of up low d f])
    case (run ast i)
    show ?thesis unfolding lower_one_effect(3)[OF run]
      by (intro exI conjI) (rule refl, simp add: list_all_iff transition_accounted)
  qed simp
  then obtain ts where ts: "fe_commands (lower_one_lifecycle up low d f) = fe_commands f @ ts" "list_all (accounted overlays rs) ts"
    by blast
  from Cons[of "lower_one_lifecycle up low d f"] ts show ?case by (auto simp: list_all_append)
qed simp

lemma photo_accounted: "accounted overlays rs (upload_command r fi p role)"
proof -
  have "effect_resource (cm_effect (upload_command r fi p role)) = None" by (cases role) (simp_all add: upload_command_def)
  then show ?thesis
    by (auto simp: accounted_def state_write_accounted_def written_fields_def list_all_iff upload_command_def
        build_auto_photo_command_def split: option.split prod.split)
qed

lemma photo_adds_accounted: "\<exists>ts. fe_commands (synthesize_auto_photo f) = fe_commands f @ ts \<and> list_all (accounted overlays rs) ts"
proof -
  have "list_all (accounted overlays rs) (field_commands f r fi)" for r fi
    by (auto simp: field_commands_def list_all_iff photo_accounted split: option.split)
  then show ?thesis unfolding auto_photo_eq by (intro exI conjI) (rule refl, auto simp: list_all_iff)
qed

lemma synthesized_not_derived: "c \<in> set (commands_of overlays f r) \<Longrightarrow> cm_derived_from c = None"
proof -
  have merges: "cm_derived_from (merge_create o' c) = cm_derived_from c" "cm_derived_from (merge_update o' c) = cm_derived_from c"
    "cm_derived_from (merge_delete o' c) = cm_derived_from c" "cm_derived_from (scope_command s c) = cm_derived_from c" for o' s c
    by (auto simp: merge_create_def merge_update_def merge_delete_def apply_input_excludes_def overlay_policy_def
        overlay_emits_def scope_command_def Let_def split: option.splits CommandEffect.splits)
  assume "c \<in> set (commands_of overlays f r)"
  then show ?thesis
    by (auto simp: commands_of_def Let_def synth_create_def synth_update_def synth_delete_def merge_overlay_def merges
        built_simps split: if_splits option.splits)
qed

lemma conventions_accounted:
  assumes "distinct (map rs_name (fe_resources f))" "r0 \<in> set (fe_resources f)" "c \<in> set (commands_of overlays f r0)"
  shows "accounted overlays (fe_resources f) c"
proof -
  have as: "synthesized_as overlays f r0 c" using commands_of_synthesized[OF assms(3)] by blast
  have "state_write_accounted overlays c r" if r: "r \<in> set (fe_resources f)" for r
  proof (cases "rs_lifecycle r")
    case (Some lc)
    show ?thesis
    proof (cases "lc_discriminator_field lc \<in> written_fields (rs_name r) c")
      case True
      then have "rs_name r = rs_name r0" and w: "lc_discriminator_field lc \<in> asg_field ` set (effect_assigns (cm_effect c))"
        using as by (auto simp: synthesized_as_def Let_def written_fields_def split: if_splits)
      then have r0: "r0 = r" using assms(1,2) r by (simp add: distinct_map inj_on_def)
      have "lc_discriminator_field lc \<notin> client_fields r" by (auto simp: client_fields_def is_auto_field_def Some)
      with w as have "lc_discriminator_field lc \<in> asg_field ` set (eo_assigns (overlay_for overlays r (cm_kind c)))"
        unfolding synthesized_as_def Let_def r0 by (auto split: if_splits)
      then show ?thesis using Some by (auto simp: state_write_accounted_def list_ex_iff)
    qed (simp add: state_write_accounted_def Some)
  qed (simp add: state_write_accounted_def)
  moreover have "cm_rate_limit c \<noteq> None" using as by (simp add: synthesized_as_def Let_def)
  ultimately show ?thesis using synthesized_not_derived[OF assms(3)] by (simp add: accounted_def list_all_iff)
qed

lemma conventions_add:
  assumes "distinct (map rs_name (fe_resources f))"
  shows "\<exists>ts. fe_commands (conventions_pass ds f) = fe_commands f @ ts \<and>
    list_all (accounted (collect_crud_overlays ds) (fe_resources f)) ts"
  unfolding conventions_pass_def Let_def synthesize_eq
  by (intro exI conjI) (rule refl, auto simp: list_all_iff intro: conventions_accounted[OF assms])

lemma resolve_accounted: "accounted overlays rs (resolve_enum_command es c) = accounted overlays rs c"
proof -
  have "asg_field ` set (effect_assigns (cm_effect (resolve_enum_command es c))) = asg_field ` set (effect_assigns (cm_effect c))"
    using arg_cong[OF resolve_command_keeps(5)[of es c], of set] by simp
  then have "state_write_accounted overlays (resolve_enum_command es c) = state_write_accounted overlays c"
    by (intro ext) (simp only: state_write_accounted_def written_fields_def transition_of_def resolve_command_keeps(1-4))
  then show ?thesis by (simp only: accounted_def resolve_command_keeps)
qed

section \<open>Properties\<close>

text \<open>
  C26. The sequence of synthesis passes is stable: run on its own result it changes nothing but the recorded
  origins (it finds every command, query, record, event and lifecycle already there). And after it every
  variant of an event group has its event: the events are the authored ones, then the variants that had none,
  once each, in order.
\<close>

theorem feature_passes_stable:
  "let g = synthesis_passes up low resources f; again = synthesis_passes up low resources g in
     again = g\<lparr>fe_synth_origins := fe_synth_origins again\<rparr> \<and>
     map en_name (fe_events g) =
       map en_name (fe_events f) @ first_new (set (map en_name (fe_events f))) (variant_names (fe_event_groups f))"
proof -
  define h1 where "h1 = hoist_event_group_variants f"
  define h2 where "h2 = lower_lifecycles up low h1 resources"
  define h3 where "h3 = synthesize_auto_photo h2"
  define h4 where "h4 = conventions_pass resources h3"
  define g where "g = resolve_enum_literal_bindings h4"
  have g: "synthesis_passes up low resources f = g"
    by (simp add: synthesis_passes_def Let_def g_def h1_def h2_def h3_def h4_def)
  have res: "fe_resources g = fe_resources h2" "fe_events g = fe_events h1" "fe_records g = fe_records h3"
    "fe_queries g = fe_queries h4" "fe_resources h3 = fe_resources g" "existing_command_names g = existing_command_names h4"
    by (simp_all add: g_def h4_def h3_def h2_def resolve_frame conventions_frame photo_frame lower_lifecycles_frame)
  have keyed: "fe_event_groups g = fe_event_groups f" "fe_policy_categories g = fe_policy_categories h2"
    by (simp_all add: g_def h4_def h3_def h2_def h1_def enums_pass.keeps_frame conventions.keeps_frame photo_pass.keeps_frame
        lifecycle_pass.keeps_frame hoist_pass.keeps_frame)
  have events: "map en_name (fe_events g) =
      map en_name (fe_events f) @ first_new (set (map en_name (fe_events f))) (variant_names (fe_event_groups f))"
    unfolding res h1_def by (rule hoisted_names)
  have "hoist_event_group_variants g = g"
    by (rule hoist_fixed) (unfold keyed res h1_def, rule variants_hoisted)
  moreover have "lower_lifecycles up low g resources = g"
    using lowered_all[of _ resources h1 up low] lowered_cong[OF res(1)]
    by (intro lower_lifecycles_fixed) (simp add: h2_def)
  moreover have "synthesize_auto_photo g = g"
  proof (rule auto_photo_fixed)
    have sites: "upload_sites g = upload_sites h2" by (rule upload_sites_cong[OF res(1) keyed(2)])
    have grow: "existing_command_names h3 \<subseteq> existing_command_names g"
      unfolding res h4_def by (rule conventions.command_names_grow)
    show "auto_photo_command_name n ` set photo_roles \<subseteq> existing_command_names g"
      if "n \<in> set (map (\<lambda>(r, fi). fi_name fi) (upload_sites g))" for n
      using photo_names_exist(1)[of n h2] that grow unfolding sites h3_def by blast
    show "set (concat (map (\<lambda>(r, fi). [intent_name fi, display_name fi]) (upload_sites g))) \<subseteq> set (map rd_name (fe_records g))"
      unfolding sites res h3_def by (rule photo_names_exist)
  qed
  moreover obtain os where "conventions_pass resources g = g\<lparr>fe_synth_origins := os\<rparr>"
  proof -
    have "existing_query_names g = existing_query_names h4" by (simp add: existing_query_names_def res)
    then have "\<exists>os. conventions_pass resources g = g\<lparr>fe_synth_origins := os\<rparr>"
      using names_exist_after[of _ h3] res(5,6) by (intro conventions_fixed) (simp_all add: h4_def conventions_pass_def Let_def)
    then show ?thesis using that by blast
  qed
  moreover have "resolve_enum_literal_bindings g = g" by (simp add: g_def resolve_again)
  ultimately have "synthesis_passes up low resources g = g\<lparr>fe_synth_origins := os\<rparr>"
    by (simp add: synthesis_passes_def Let_def resolve_with_origins)
  then show ?thesis unfolding g Let_def by (simp add: events)
qed

text \<open>
  C24. Where the commands of a finished feature come from. The authored ones stay in front, with the defaults of
  the feature filled in and their enum literals resolved. Of the commands the passes add, none writes the state
  column of a resource with a lifecycle, unless it is a transition of that resource or the author assigns the
  column in an overlay. The added commands without a rate limit are exactly the transitions: the rate limit a
  feature sets for its commands does not reach them.
\<close>

theorem finished_commands:
  assumes "distinct (map rs_name (fe_resources f))"
  shows "let g = finish_feature up low resources f in
    take (length (fe_commands f)) (fe_commands g) =
      map (resolve_enum_command (set (map ed_name (fe_enums g)))) (apply_command_defaults (fe_defaults f) (fe_commands f)) \<and>
    list_all (accounted (collect_crud_overlays resources) (fe_resources g)) (drop (length (fe_commands f)) (fe_commands g))"
proof -
  define h0 where "h0 = hoist_event_group_variants (with_command_defaults f)"
  define h1 where "h1 = lower_lifecycles up low h0 resources"
  define h2 where "h2 = synthesize_auto_photo h1"
  define h3 where "h3 = conventions_pass resources h2"
  define g where "g = resolve_enum_literal_bindings h3"
  let ?ok = "accounted (collect_crud_overlays resources) (fe_resources h2)"
  have g: "finish_feature up low resources f = g"
    by (simp add: finish_feature_def synthesis_passes_def Let_def g_def h0_def h1_def h2_def h3_def)
  have "map rs_name (fe_resources h2) = map rs_name (fe_resources f)"
    by (simp add: h2_def h1_def h0_def photo_pass.keeps_resources lifecycle_pass.keeps_resources hoist_pass.keeps_resources
        defaults_pass.keeps_resources)
  then have distinct: "distinct (map rs_name (fe_resources h2))" using assms by simp
  obtain a where a: "fe_commands h1 = fe_commands h0 @ a" "list_all ?ok a" using lifecycles_add[of up low h0 resources] h1_def by blast
  obtain b where b: "fe_commands h2 = fe_commands h1 @ b" "list_all ?ok b" using photo_adds_accounted[of h1] h2_def by blast
  obtain c where c: "fe_commands h3 = fe_commands h2 @ c" "list_all ?ok c" using conventions_add[OF distinct] h3_def by blast
  have h0: "fe_commands h0 = apply_command_defaults (fe_defaults f) (fe_commands f)"
    by (simp add: h0_def hoist_event_group_variants_def Let_def with_command_defaults_def)
  have len: "length (apply_command_defaults (fe_defaults f) (fe_commands f)) = length (fe_commands f)"
    by (simp add: apply_command_defaults_def)
  have frame: "fe_enums g = fe_enums h3" "fe_resources g = fe_resources h2"
    by (simp_all add: g_def h3_def resolve_frame conventions_frame)
  have commands: "fe_commands g = map (resolve_enum_command (set (map ed_name (fe_enums g))))
      (apply_command_defaults (fe_defaults f) (fe_commands f) @ a @ b @ c)"
    unfolding frame by (simp add: g_def resolve_enum_literal_bindings_def a b c h0)
  have "list_all ?ok (map (resolve_enum_command es) (a @ b @ c))" for es
    using a(2) b(2) c(2) by (auto simp: list_all_iff resolve_accounted)
  then show ?thesis unfolding g Let_def commands frame by (simp add: len)
qed

definition guarded_feature :: feature_ir where
  "guarded_feature = (crud_feature [crud_resource ''Doc'' [] [Crud]])
     \<lparr>fe_defaults := \<lparr>df_tenancy = None, df_timestamps = False, df_rate_limit = Some ''5 per minute per ip'', df_audit = None\<rparr>\<rparr>"

theorem finished_commands_witness:
  "list_ex (\<lambda>c. cm_name c = ''finish'' \<and> cm_rate_limit c = None) (fe_commands (finish_feature id id [sample_decl] guarded_feature))"
proof -
  let ?g = "finish_feature id id [sample_decl] guarded_feature"
  have f: "fe_commands guarded_feature = []" "distinct (map rs_name (fe_resources guarded_feature))" by code_simp+
  have "list_ex (\<lambda>c. cm_name c = ''finish'' \<and> cm_derived_from c = Some (FromLifecycle ''Doc'' ''finish'')) (fe_commands ?g)"
    by code_simp
  then show ?thesis using finished_commands[OF f(2), of id id "[sample_decl]"] f(1)
    by (auto simp: Let_def list_ex_iff list_all_iff accounted_def)
qed

end
