(* ===== verification/Doctor_Allow.thy ===== *)
theory Doctor_Allow
  imports Source_Text
begin

text \<open>
  Waivers of doctor findings. The line \<^verbatim>\<open>@doctor.allow(CODE, reason: "...")\<close> and the older comment
  \<^verbatim>\<open># doctor:allow CODE\<close> are read three times: by the strict parser behind the registry of a module and
  by the tolerant recognizer behind the text scan (\<^verbatim>\<open>lzi/doctor_allow.rs\<close>), by the text scan itself
  (\<^verbatim>\<open>allow_comment.rs\<close>), and through the registry (\<^verbatim>\<open>allow_registry.rs\<close>), which the loader fills with
  \<open>decl_to_ir\<close>. Shown here: the two readings of an annotation agree on the code, and what the two
  readings of a comment waive.
\<close>

section \<open>Annotations\<close>

definition NODE_HEAD :: string where "NODE_HEAD = ''@doctor.allow''"

datatype DoctorAllowScopeDecl = FileDecl | ConstructDecl nat

record doctor_allow_decl =
  dd_code :: string
  dd_reason :: "string option"
  dd_scope :: DoctorAllowScopeDecl
  dd_legacy :: bool
  dd_span :: "span option"

definition is_node_line :: "string \<Rightarrow> bool" where
  "is_node_line trimmed = (case strip_prefix NODE_HEAD trimmed of
     Some after \<Rightarrow> starts_with (trim_start after) ''('' | None \<Rightarrow> False)"

definition line_is_doctor_allow_node :: "string \<Rightarrow> bool" where
  "line_is_doctor_allow_node line = is_node_line (trim_start line)"

definition strip_doctor_allow_reason :: "string \<Rightarrow> string" where
  "strip_doctor_allow_reason line =
     (if \<not> is_node_line (trim_start line) then line
      else case find_str ''reason'' line of None \<Rightarrow> line
        | Some reason_pos \<Rightarrow> (case find_char dquote (drop reason_pos line) of None \<Rightarrow> line
          | Some open_rel \<Rightarrow>
              (let opened = reason_pos + open_rel in
               case find_char dquote (drop (opened + 1) line) of None \<Rightarrow> line
               | Some close_rel \<Rightarrow>
                   (let closed = opened + 1 + close_rel in
                    if closed \<le> opened + 1 then line
                    else take (opened + 1) line @ replicate (closed - (opened + 1)) CHR '' '' @ drop closed line))))"

text \<open>\<^verbatim>\<open>str::rfind\<close> for a character.\<close>

fun rfind_char :: "char \<Rightarrow> string \<Rightarrow> nat option" where
  "rfind_char c [] = None"
| "rfind_char c (x # s) =
     (case rfind_char c s of Some i \<Rightarrow> Some (Suc i) | None \<Rightarrow> if x = c then Some 0 else None)"

definition extract_reason_value :: "string \<Rightarrow> string option" where
  "extract_reason_value clause =
     Option.bind (strip_prefix ''reason'' (trim clause)) (\<lambda>after_key.
     Option.bind (strip_prefix '':'' (trim_start after_key)) (\<lambda>after_colon.
     Option.bind (strip_prefix [dquote] (trim_start after_colon)) (\<lambda>inner.
     map_option (\<lambda>close. take close inner) (find_char dquote inner))))"

definition split_code :: "string \<Rightarrow> string \<times> string option" where
  "split_code args = (case split_once CHR '','' args of
     Some (c, r) \<Rightarrow> (trim c, Some (trim r)) | None \<Rightarrow> (trim args, None))"

definition parse_args_loose :: "string \<Rightarrow> (string \<times> string option) option" where
  "parse_args_loose args0 =
     (let args = trim args0 in
      if args = [] then None
      else let (code_part, rest) = split_code args in
        if code_part = [] \<or> CHR '':'' \<in> set code_part then None
        else Some (code_part, Option.bind rest extract_reason_value))"

definition recognize_node_line :: "string \<Rightarrow> (string \<times> string option) option" where
  "recognize_node_line line =
     (let trimmed = trim_start line in
      if \<not> is_node_line trimmed then None
      else Option.bind (strip_prefix NODE_HEAD trimmed) (\<lambda>rest.
        Option.bind (strip_prefix ''('' (trim_start rest)) (\<lambda>inner.
        Option.bind (rfind_char CHR '')'' inner) (\<lambda>close. parse_args_loose (take close inner)))))"

definition unquote_reason :: "source_line \<Rightarrow> string \<Rightarrow> (ParseError, string) result" where
  "unquote_reason line value = (case strip_prefix [dquote] (trim value) of
       None \<Rightarrow> Err (line_error line (''`reason` value must be a `'' @ [dquote] @ ''...'' @ [dquote] @ ''` string literal''))
     | Some inner \<Rightarrow> (case find_char dquote inner of
           None \<Rightarrow> Err (line_error line ''`reason` string literal is missing its closing quote'')
         | Some close \<Rightarrow> Ok (take close inner)))"

fun named_reason :: "source_line \<Rightarrow> string option \<Rightarrow> target_arg_decl list \<Rightarrow> (ParseError, string option) result" where
  "named_reason line reason [] = Ok reason"
| "named_reason line reason (arg # rest) =
     (if ta_name arg = ''reason'' then
        try_bind (unquote_reason line (ta_value arg)) (\<lambda>r. named_reason line (Some r) rest)
      else Err (line_error line
        (''`@doctor.allow(...)` only accepts a `reason: '' @ [dquote] @ ''...'' @ [dquote] @ ''` named argument'')))"

definition code_example :: "string \<Rightarrow> string" where
  "code_example waived = ''e.g. `@doctor.allow('' @ waived @ '', reason: '' @ [dquote] @ ''why'' @ [dquote] @ '')`''"

definition parse_doctor_allow :: "source_line \<Rightarrow> DoctorAllowScopeDecl \<Rightarrow> (ParseError, doctor_allow_decl) result" where
  "parse_doctor_allow line scope =
     (case strip_prefix NODE_HEAD (trim_start (sl_text line)) of
        None \<Rightarrow> Err (line_error line ''expected `@doctor.allow(...)` waiver annotation'')
      | Some rest \<Rightarrow> try_bind (split_call_signature line rest) (\<lambda>(head, args).
          if head \<noteq> [] then
            Err (line_error line (''`@doctor.allow` takes its code in parentheses, '' @ code_example ''CODE''))
          else if trim args = [] then
            Err (line_error line (''`@doctor.allow(...)` requires a rule code, '' @ code_example ''LZI-FILE-SIZE-001''))
          else let (code_part, named) = split_code args;
                   named_part = (case named of Some r \<Rightarrow> r | None \<Rightarrow> []) in
            if code_part = [] then Err (line_error line ''`@doctor.allow(...)` requires a rule code'')
            else if CHR '':'' \<in> set code_part then
              Err (line_error line ''the first `@doctor.allow(...)` argument is the bare rule code (no `:`)'')
            else try_bind
              (if named_part = [] then Ok None
               else try_bind (parse_named_args line named_part) (named_reason line None)) (\<lambda>reason.
              Ok \<lparr>dd_code = code_part, dd_reason = reason, dd_scope = scope, dd_legacy = False,
                  dd_span = Some (Span (sl_start line) (max (sl_end line) (sl_start line + 1)))\<rparr>)))"

text \<open>\<open>next_construct_line offset lines\<close>: \<open>lines\<close> are those from the 0-based index \<open>offset\<close> on.\<close>

fun next_construct_line :: "nat \<Rightarrow> source_line list \<Rightarrow> nat option" where
  "next_construct_line offset [] = None"
| "next_construct_line offset (line # rest) =
     (let trimmed = trim_start (sl_text line) in
      if is_trivia trimmed \<or> is_node_line trimmed then next_construct_line (offset + 1) rest
      else Some (offset + 1))"

fun capture_node_lines :: "nat \<Rightarrow> source_line list \<Rightarrow> (ParseError, doctor_allow_decl list) result" where
  "capture_node_lines idx [] = Ok []"
| "capture_node_lines idx (line # rest) =
     (if \<not> is_node_line (trim_start (sl_text line)) then capture_node_lines (idx + 1) rest
      else let scope = (case next_construct_line (idx + 1) rest of Some n \<Rightarrow> ConstructDecl n | None \<Rightarrow> FileDecl) in
        try_bind (parse_doctor_allow line scope) (\<lambda>d.
          try_bind (capture_node_lines (idx + 1) rest) (\<lambda>ds. Ok (d # ds))))"

section \<open>Comments\<close>

definition extract_reason_after :: "string \<Rightarrow> string option" where
  "extract_reason_after after_keyword =
     Option.bind (find_char dquote after_keyword) (\<lambda>opened.
       let rest = drop (opened + 1) after_keyword in
       map_option (\<lambda>close. take close rest) (find_char dquote rest))"

definition recognize_legacy_comment_line :: "string \<Rightarrow> (string \<times> string option) option" where
  "recognize_legacy_comment_line line =
     Option.bind (find_str ''doctor:allow'' (to_ascii_lowercase line)) (\<lambda>pos.
       if CHR ''#'' \<notin> set (take pos line) then None
       else let after = trim_start (drop (pos + length ''doctor:allow'') line) in
         (case split_whitespace after of [] \<Rightarrow> None
          | waived # _ \<Rightarrow> if waived = [] then None
              else Some (waived, Option.bind (find_str ''reason'' (to_ascii_lowercase after)) (\<lambda>rpos.
                extract_reason_after (drop (rpos + length ''reason'') after)))))"

definition scan_legacy_comment_allows :: "string \<Rightarrow> doctor_allow_decl list" where
  "scan_legacy_comment_allows source =
     List.map_filter (\<lambda>line. map_option (\<lambda>(waived, reason).
         \<lparr>dd_code = waived, dd_reason = reason, dd_scope = FileDecl, dd_legacy = True, dd_span = None\<rparr>)
       (recognize_legacy_comment_line line)) (str_lines source)"

definition capture_doctor_allows :: "string \<Rightarrow> (ParseError, doctor_allow_decl list) result" where
  "capture_doctor_allows source =
     try_bind (capture_node_lines 0 (source_lines source)) (\<lambda>nodes. Ok (nodes @ scan_legacy_comment_allows source))"

section \<open>The text scan and the registry\<close>

definition eq_ignore_ascii_case :: "string \<Rightarrow> string \<Rightarrow> bool" where
  "eq_ignore_ascii_case a b \<longleftrightarrow> to_ascii_lowercase a = to_ascii_lowercase b"

text \<open>The two tests the scan makes of a line; the read of the file is its caller's.\<close>

definition comment_waives :: "string \<Rightarrow> string \<Rightarrow> bool" where
  "comment_waives rule line \<longleftrightarrow>
     (let trimmed = trim_start line in
      starts_with trimmed ''#'' \<and>
      find_str (''doctor:allow '' @ to_ascii_lowercase rule) (to_ascii_lowercase trimmed) \<noteq> None)"

definition node_waives :: "string \<Rightarrow> string \<Rightarrow> bool" where
  "node_waives rule line \<longleftrightarrow>
     (case recognize_node_line (trim_start line) of
        Some (node_code, _) \<Rightarrow> eq_ignore_ascii_case node_code rule | None \<Rightarrow> False)"

definition source_contains_doctor_allow :: "string \<Rightarrow> string \<Rightarrow> bool" where
  "source_contains_doctor_allow source rule =
     list_ex (\<lambda>line. comment_waives rule line \<or> node_waives rule line) (str_lines source)"

text \<open>The text of a file, or nothing when it cannot be read.\<close>

definition file_contains_doctor_allow :: "string option \<Rightarrow> string \<Rightarrow> bool" where
  "file_contains_doctor_allow file rule =
     (case file of None \<Rightarrow> False | Some source \<Rightarrow> source_contains_doctor_allow source rule)"

datatype DoctorAllowScope = FileWide | AtConstruct nat

record doctor_allow =
  dw_code :: string
  dw_reason :: "string option"
  dw_scope :: DoctorAllowScope
  dw_legacy :: bool
  dw_span :: "span option"

definition decl_to_ir :: "doctor_allow_decl \<Rightarrow> doctor_allow" where
  "decl_to_ir decl =
     \<lparr>dw_code = dd_code decl, dw_reason = dd_reason decl,
      dw_scope = (case dd_scope decl of FileDecl \<Rightarrow> FileWide | ConstructDecl line \<Rightarrow> AtConstruct line),
      dw_legacy = dd_legacy decl,
      dw_span = map_option (\<lambda>s. Span (sp_start s) (sp_end s)) (dd_span decl)\<rparr>"

definition module_allows :: "doctor_allow list \<Rightarrow> string \<Rightarrow> bool" where
  "module_allows doctor_allows rule = list_ex (\<lambda>w. eq_ignore_ascii_case (dw_code w) rule) doctor_allows"

definition module_allow_reason :: "doctor_allow list \<Rightarrow> string \<Rightarrow> string option" where
  "module_allow_reason doctor_allows rule =
     Option.bind (find (\<lambda>w. eq_ignore_ascii_case (dw_code w) rule) doctor_allows) dw_reason"

definition module_allows_at :: "doctor_allow list \<Rightarrow> string \<Rightarrow> nat \<Rightarrow> bool" where
  "module_allows_at doctor_allows rule line =
     list_ex (\<lambda>w. eq_ignore_ascii_case (dw_code w) rule \<and>
       (case dw_scope w of FileWide \<Rightarrow> True | AtConstruct l \<Rightarrow> l = line)) doctor_allows"


section \<open>Reading an annotation twice\<close>

lemma trim_by_drops:
  assumes "\<And>a. p1 a \<Longrightarrow> \<not> graphic a" "\<And>a b. p2 a b \<Longrightarrow> \<not> graphic a \<and> \<not> graphic b"
    "\<And>a b c. p3 a b c \<Longrightarrow> \<not> graphic a \<and> \<not> graphic b \<and> \<not> graphic c"
  shows "\<exists>p. s = p @ trim_by p1 p2 p3 s \<and> (\<forall>c \<in> set p. \<not> graphic c)"
proof (induction s rule: length_induct)
  case (1 s)
  show ?case
  proof (cases s)
    case (Cons a t)
    have IH: "\<exists>p. u = p @ trim_by p1 p2 p3 u \<and> (\<forall>c \<in> set p. \<not> graphic c)" if "length u < length s" for u
      using 1 that by blast
    have step: "\<exists>p. a # t = p @ trim_by p1 p2 p3 u \<and> (\<forall>c \<in> set p. \<not> graphic c)"
      if "a # t = k @ u" "k \<noteq> []" "\<forall>c \<in> set k. \<not> graphic c" for k u
    proof -
      have "length u < length s" using that(1,2) Cons by (cases k) auto
      then obtain p where "u = p @ trim_by p1 p2 p3 u" "\<forall>c \<in> set p. \<not> graphic c" using IH by blast
      with that show ?thesis by (intro exI[of _ "k @ p"]) auto
    qed
    have "\<exists>p. a # t = p @ trim_by p1 p2 p3 (a # t) \<and> (\<forall>c \<in> set p. \<not> graphic c)"
    proof (rule trim_by_Cons_cases[of p1 p2 p3 a t])
      assume "trim_by p1 p2 p3 (a # t) = a # t"
      then show ?thesis by (intro exI[of _ "[]"]) simp
    next
      assume "p1 a" "trim_by p1 p2 p3 (a # t) = trim_by p1 p2 p3 t"
      then show ?thesis using step[of "[a]" t] assms(1) by simp
    next
      fix b u assume "t = b # u" "p2 a b" "trim_by p1 p2 p3 (a # t) = trim_by p1 p2 p3 u"
      then show ?thesis using step[of "[a, b]" u] assms(2) by simp
    next
      fix b c u assume "t = b # c # u" "p3 a b c" "trim_by p1 p2 p3 (a # t) = trim_by p1 p2 p3 u"
      then show ?thesis using step[of "[a, b, c]" u] assms(3) by simp
    qed
    then show ?thesis by (simp add: Cons)
  qed simp
qed

lemma trim_start_drops: "\<exists>p. s = p @ trim_start s \<and> (\<forall>c \<in> set p. \<not> graphic c)"
  unfolding trim_start_def by (rule trim_by_drops) (use graphic_not_ws in blast)+

lemma trim_end_drops: "\<exists>q. s = trim_end s @ q \<and> (\<forall>c \<in> set q. \<not> graphic c)"
proof -
  obtain p where p: "rev s = p @ trim_by ws1 (\<lambda>b a. ws2 a b) (\<lambda>c b a. ws3 a b c) (rev s)" "\<forall>c \<in> set p. \<not> graphic c"
    using trim_by_drops[of ws1 "\<lambda>b a. ws2 a b" "\<lambda>c b a. ws3 a b c" "rev s"] graphic_not_ws by blast
  then have "s = trim_end s @ rev p" unfolding trim_end_def by (metis rev_append rev_rev_ident)
  with p(2) show ?thesis by (metis set_rev)
qed

lemma trim_start_idem [simp]: "trim_start (trim_start s) = trim_start s"
  unfolding trim_start_def by (simp add: begins_by_trim trim_by_fixed)

lemma rfind_char_None_iff: "rfind_char c s = None \<longleftrightarrow> c \<notin> set s"
  by (induction s) (auto split: option.splits)

lemma rfind_char_last: "c \<notin> set q \<Longrightarrow> rfind_char c (s @ c # q) = Some (length s)"
  by (induction s) (auto simp: rfind_char_None_iff[THEN iffD2])

lemma split_once_unique:
  assumes "a @ (x::char) # b = c @ x # d" "x \<notin> set a" "x \<notin> set c"
  shows "a = c \<and> b = d"
proof -
  have "Some (a, b) = split_once x (a @ x # b)" by (rule split_once_append[OF assms(2), symmetric])
  also have "\<dots> = Some (c, d)" unfolding assms(1) by (rule split_once_append[OF assms(3)])
  finally show ?thesis by simp
qed

lemma paren_graphic: "graphic CHR ''(''" "graphic CHR '')''"
  by (simp_all add: graphic_def)

text \<open>The arguments the strict splitter cuts out are those up to the last closing parenthesis.\<close>

lemma call_arguments:
  assumes "starts_with (trim_start rest) ''(''" "split_call_signature line rest = Inr (head, args)"
  shows "\<exists>inner close. trim_start rest = CHR ''('' # inner \<and> rfind_char CHR '')'' inner = Some close \<and>
    args = trim (take close inner)"
proof -
  obtain q where q: "rest = trim_end rest @ q" "\<forall>c \<in> set q. \<not> graphic c" using trim_end_drops by blast
  obtain inner where inner: "trim_start rest = CHR ''('' # inner" using assms(1) by (auto simp: starts_with_iff)
  obtain p where p: "rest = p @ CHR ''('' # inner" "\<forall>c \<in> set p. \<not> graphic c"
    using trim_start_drops[of rest] inner by metis
  have "CHR ''('' \<in> set (trim_end rest)"
    using q p(1) paren_graphic(1) by (metis Un_iff in_set_conv_decomp set_append)
  then obtain opened where opened: "find_char CHR ''('' (trim_end rest) = Some opened"
    by (metis find_char_None_iff not_Some_eq)
  define pre where "pre = take opened (trim_end rest)"
  define mid where "mid = drop (Suc opened) (trim_end rest)"
  have parts: "trim_end rest = pre @ CHR ''('' # mid" "CHR ''('' \<notin> set pre" "length pre = opened"
    using find_char_split[OF opened] opened by (simp_all add: pre_def mid_def find_char_Some_iff)
  have rest: "pre @ CHR ''('' # (mid @ q) = p @ CHR ''('' # inner" using parts(1) q(1) p(1) by simp
  have "inner = mid @ q" using split_once_unique[OF rest parts(2)] p(2) paren_graphic(1) by blast
  have closed: "ends_with (trim_end rest) '')''" and args: "args = trim (take (length (trim_end rest) - 1 - (opened + 1)) mid)"
    using assms(2) opened by (auto simp: split_call_signature_def Let_def mid_def split: if_splits)
  obtain r where "trim_end rest = r @ '')''" using closed by (auto simp: ends_with_iff)
  then have "last (pre @ CHR ''('' # mid) = CHR '')''" using parts(1) by simp
  then have "mid \<noteq> [] \<and> last mid = CHR '')''" by (cases "mid = []") simp_all
  then have mid: "mid = butlast mid @ [CHR '')'']" by (metis append_butlast_last_id)
  have "length (trim_end rest) - 1 - (opened + 1) = length (butlast mid)" using parts by simp
  then have "args = trim (butlast mid)" using args by (simp add: butlast_conv_take)
  moreover have "inner = butlast mid @ CHR '')'' # q" using \<open>inner = mid @ q\<close> mid by (metis append.assoc append_Cons append_Nil)
  moreover have "CHR '')'' \<notin> set q" using q(2) paren_graphic(2) by blast
  ultimately show ?thesis using inner rfind_char_last[of "CHR '')''" q "butlast mid"] by (intro exI conjI) auto
qed

lemma parsed_node_recognized:
  assumes "is_node_line (trim_start (sl_text line))" "parse_doctor_allow line scope = Inr d"
  shows "(\<exists>reason. recognize_node_line (sl_text line) = Some (dd_code d, reason)) \<and> dd_scope d = scope \<and> \<not> dd_legacy d"
proof -
  obtain rest where rest: "strip_prefix NODE_HEAD (trim_start (sl_text line)) = Some rest"
    "starts_with (trim_start rest) ''(''"
    using assms(1) by (auto simp: is_node_line_def split: option.splits)
  obtain args where args: "split_call_signature line rest = Inr ([], args)" "trim args \<noteq> []"
    using assms(2) rest(1) by (auto simp: parse_doctor_allow_def try_bind_Ok_iff split: if_splits)
  obtain code_part named where parts: "split_code args = (code_part, named)" by fastforce
  have d: "code_part \<noteq> []" "CHR '':'' \<notin> set code_part" "dd_code d = code_part" "dd_scope d = scope" "\<not> dd_legacy d"
    using assms(2) rest(1) args parts by (auto simp: parse_doctor_allow_def try_bind_Ok_iff Let_def split: if_splits)
  from call_arguments[OF rest(2) args(1)] obtain inner close where inner: "trim_start rest = CHR ''('' # inner"
    "rfind_char CHR '')'' inner = Some close" "args = trim (take close inner)" by blast
  have "parse_args_loose (take close inner) = Some (code_part, Option.bind named extract_reason_value)"
    using args(2) parts d(1,2) by (auto simp: parse_args_loose_def inner(3)[symmetric])
  then show ?thesis
    using assms(1) rest(1) inner d by (simp add: recognize_node_line_def)
qed

lemma recognized_node: "recognize_node_line line = Some r \<Longrightarrow> is_node_line (trim_start line)"
  by (auto simp: recognize_node_line_def Let_def split: if_splits)

lemma captured_nodes:
  "capture_node_lines idx lines = Inr ds \<Longrightarrow>
     list_all2 (\<lambda>l d. (\<exists>reason. recognize_node_line (sl_text l) = Some (dd_code d, reason)) \<and> \<not> dd_legacy d)
       (filter (\<lambda>l. is_node_line (trim_start (sl_text l))) lines) ds"
  by (induction idx lines arbitrary: ds rule: capture_node_lines.induct)
    (auto simp: try_bind_Ok_iff Let_def dest: parsed_node_recognized split: if_splits)

lemma node_waives_iff:
  assumes "capture_node_lines idx lines = Inr ds"
  shows "(\<exists>l \<in> set lines. node_waives rule (sl_text l)) \<longleftrightarrow> (\<exists>d \<in> set ds. eq_ignore_ascii_case (dd_code d) rule)"
proof -
  have node: "is_node_line (trim_start (sl_text l))" if "node_waives rule (sl_text l)" for l
    using that by (auto simp: node_waives_def dest!: recognized_node split: option.splits)
  have same: "recognize_node_line (trim_start line) = recognize_node_line line" for line
    by (simp add: recognize_node_line_def)
  from captured_nodes[OF assms] have
    "(\<exists>l \<in> set (filter (\<lambda>l. is_node_line (trim_start (sl_text l))) lines). node_waives rule (sl_text l)) \<longleftrightarrow>
     (\<exists>d \<in> set ds. eq_ignore_ascii_case (dd_code d) rule)"
    by (induction rule: list_all2_induct) (auto simp: node_waives_def same)
  then show ?thesis using node by auto
qed

lemma captured_not_legacy: "capture_node_lines idx lines = Inr ds \<Longrightarrow> \<forall>d \<in> set ds. \<not> dd_legacy d"
  by (drule captured_nodes) (auto simp: list_all2_conv_all_nth in_set_conv_nth)

lemma sl_text_source_lines: "map sl_text (source_lines_from offset ls) = ls"
  by (induction offset ls rule: source_lines_from.induct) (simp_all add: Let_def)

section \<open>Reading a comment twice\<close>

lemma find_str_Cons: "find_str p (c # s) = (if starts_with (c # s) p then Some 0 else map_option Suc (find_str p s))"
  by (simp add: find_str.simps)

lemma find_str_longer: "find_str p s = None \<Longrightarrow> find_str (p @ q) s = None"
proof (induction s)
  case Nil
  then show ?case by (auto simp: find_str.simps starts_with_iff split: if_splits)
next
  case (Cons c s)
  then show ?case by (auto simp: find_str_Cons starts_with_iff split: if_splits)
qed

lemma find_str_indent: "find_str (CHR ''d'' # p) (replicate n CHR '' '' @ s) = map_option ((+) n) (find_str (CHR ''d'' # p) s)"
proof (induction n)
  case (Suc n)
  then show ?case by (cases "find_str (CHR ''d'' # p) s") (simp_all add: find_str_Cons starts_with_def)
qed (simp add: option.map_id0[unfolded id_def])

definition comment_head :: string where "comment_head = ''# doctor:allow ''"

lemma lower_append [simp]: "to_ascii_lowercase (a @ b) = to_ascii_lowercase a @ to_ascii_lowercase b"
  by (simp add: to_ascii_lowercase_def)

lemma lower_comment_head: "to_ascii_lowercase comment_head = comment_head"
  by code_simp

lemma lower_spaces [simp]: "to_ascii_lowercase (replicate n CHR '' '') = replicate n CHR '' ''"
  by (simp add: to_ascii_lowercase_def to_ascii_lowercase_char_def char_class_defs)

lemma lower_graphic: "graphic c \<Longrightarrow> to_ascii_lowercase_char c \<noteq> CHR '' ''"
  by (auto simp: to_ascii_lowercase_char_def char_class_defs split: if_splits
      dest!: arg_cong[of "char_of _" "CHR '' ''" "of_char :: char \<Rightarrow> nat"])

lemma comment_search:
  assumes "find_str ''doctor:allow'' x = None"
  shows "find_str (''doctor:allow '' @ rule) (comment_head @ x) \<noteq> None \<longleftrightarrow> starts_with x rule"
    "find_str ''doctor:allow'' (comment_head @ x) = Some 2"
  using find_str_longer[OF assms, of "CHR '' '' # rule"]
  by (simp_all add: comment_head_def find_str_Cons starts_with_def)

lemma starts_before_space:
  assumes "CHR '' '' \<notin> set r" "t \<noteq> [] \<longrightarrow> hd t = CHR '' ''"
  shows "starts_with (a @ t) r \<longleftrightarrow> prefix r a"
proof -
  have "prefix r (a @ t) \<longleftrightarrow> prefix r a"
  proof
    assume "prefix r (a @ t)"
    then consider "prefix r a" | us where "r = a @ us" "prefix us t" by (auto simp: prefix_append)
    then show "prefix r a"
    proof cases
      fix us assume us: "r = a @ us" "prefix us t"
      then show "prefix r a" using assms by (cases us) (auto simp: prefix_def)
    qed
  qed (rule prefix_prefix)
  then show ?thesis by (simp add: starts_with_iff prefix_def)
qed

section \<open>Properties\<close>

text \<open>
  C3. The two readings of an annotation agree: when the registry can be built from a source, the text scan
  finds an annotation for a rule exactly when the registry has a waiver for it that was not a comment; and
  the scan as a whole adds only the lines whose comment names the rule.
\<close>

theorem waiver_readings_agree:
  assumes "capture_doctor_allows source = Inr ds"
  shows "(list_ex (node_waives rule) (str_lines source) \<longleftrightarrow>
      module_allows (map decl_to_ir (filter (\<lambda>d. \<not> dd_legacy d) ds)) rule) \<and>
    (source_contains_doctor_allow source rule \<longleftrightarrow>
      list_ex (comment_waives rule) (str_lines source) \<or>
      module_allows (map decl_to_ir (filter (\<lambda>d. \<not> dd_legacy d) ds)) rule)"
proof -
  obtain nodes where nodes: "capture_node_lines 0 (source_lines source) = Inr nodes"
    "ds = nodes @ scan_legacy_comment_allows source"
    using assms by (auto simp: capture_doctor_allows_def try_bind_Ok_iff)
  have "\<forall>d \<in> set (scan_legacy_comment_allows source). dd_legacy d"
    by (auto simp: scan_legacy_comment_allows_def set_map_filter_iff)
  then have "filter (\<lambda>d. \<not> dd_legacy d) ds = nodes"
    using captured_not_legacy[OF nodes(1)] by (simp add: nodes(2) filter_id_conv filter_empty_conv)
  moreover have "list_ex (node_waives rule) (str_lines source) \<longleftrightarrow> (\<exists>l \<in> set (source_lines source). node_waives rule (sl_text l))"
  proof -
    have "str_lines source = map sl_text (source_lines source)" by (simp add: source_lines_def sl_text_source_lines)
    then show ?thesis by (simp add: list_ex_iff)
  qed
  ultimately have "list_ex (node_waives rule) (str_lines source) \<longleftrightarrow>
      module_allows (map decl_to_ir (filter (\<lambda>d. \<not> dd_legacy d) ds)) rule"
    by (simp add: node_waives_iff[OF nodes(1)] module_allows_def decl_to_ir_def list_ex_iff)
  then show ?thesis by (auto simp: source_contains_doctor_allow_def list_ex_iff)
qed

definition sample_waivers :: string where
  "sample_waivers = ''@doctor.allow(X-1, reason: '' @ [dquote] @ ''a, b'' @ [dquote] @ '')'' @ [CHR 0x0A] @ ''feature x'' @ [CHR 0x0A]"

theorem waiver_readings_agree_witness:
  "source_contains_doctor_allow sample_waivers ''x-1'' \<and>
   capture_doctor_allows sample_waivers =
     Inr [\<lparr>dd_code = ''X-1'', dd_reason = Some ''a, b'', dd_scope = ConstructDecl 2, dd_legacy = False, dd_span = Some (Span 0 34)\<rparr>]"
proof -
  have captured: "capture_doctor_allows sample_waivers =
      Inr [\<lparr>dd_code = ''X-1'', dd_reason = Some ''a, b'', dd_scope = ConstructDecl 2, dd_legacy = False, dd_span = Some (Span 0 34)\<rparr>]"
    by code_simp
  have "module_allows (map decl_to_ir (filter (\<lambda>d. \<not> dd_legacy d)
      [\<lparr>dd_code = ''X-1'', dd_reason = Some ''a, b'', dd_scope = ConstructDecl 2, dd_legacy = False, dd_span = Some (Span 0 34)\<rparr>])) ''x-1''"
    by code_simp
  with waiver_readings_agree[OF captured, of "''x-1''"] captured show ?thesis by blast
qed



text \<open>
  The annotation as documented is read by both readers with its code and its reason, and blanking
  the reason out keeps everything else of the line in its column.
\<close>

lemma split_opaque:
  "dquote \<notin> set r \<Longrightarrow> split_commas_from 0 True p (r @ dquote # s) = split_commas_from 0 False (p @ r @ [dquote]) s"
  by (induction r arbitrary: p) auto

lemma waiver_line_read:
  assumes "rule \<noteq> []" "list_all graphic rule" "set rule \<inter> {CHR '','', CHR '':'', dquote} = {}" "dquote \<notin> set reason"
    "sl_text line = replicate n CHR '' '' @ NODE_HEAD @ ''('' @ rule @ '', reason: '' @ [dquote] @ reason @ [dquote] @ '')''"
  shows "parse_doctor_allow line scope = Inr \<lparr>dd_code = rule, dd_reason = Some reason, dd_scope = scope,
      dd_legacy = False, dd_span = Some (Span (sl_start line) (max (sl_end line) (sl_start line + 1)))\<rparr>"
    "recognize_node_line (sl_text line) = Some (rule, Some reason)"
proof -
  define tail where "tail = '' reason: '' @ [dquote] @ reason @ [dquote]"
  define args where "args = rule @ CHR '','' # tail"
  have line: "trim_start (sl_text line) = NODE_HEAD @ CHR ''('' # args @ [CHR '')'']"
    by (simp add: assms(5) NODE_HEAD_def graphic_def args_def tail_def)
  have node: "is_node_line (trim_start (sl_text line))"
    by (simp add: line is_node_line_def starts_with_def graphic_def)
  have args: "trim args = args" "args \<noteq> []"
    using assms(1,2) by (simp_all add: args_def tail_def trim_graphic_ends graphic_def list_all_iff)
  have parts: "split_code args = (rule, Some (''reason: '' @ [dquote] @ reason @ [dquote]))"
  proof -
    have "split_once CHR '','' args = Some (rule, tail)" using assms(3) by (simp add: args_def)
    moreover have "trim rule = rule" using assms(2) by (simp add: trim_all_graphic list_all_iff)
    moreover have "trim tail = ''reason: '' @ [dquote] @ reason @ [dquote]"
      unfolding trim_def tail_def by (simp add: char_class_defs(7) graphic_def trim_end_graphic_last)
    ultimately show ?thesis by (simp add: split_code_def)
  qed
  have clause: "trim (''reason: '' @ [dquote] @ reason @ [dquote]) = ''reason: '' @ [dquote] @ reason @ [dquote]"
    by (simp add: trim_graphic_ends graphic_def)
  have found: "find_char dquote (reason @ [dquote]) = Some (length reason)"
    using assms(4) by (simp add: find_char_Some_iff)
  have "extract_reason_value (''reason: '' @ [dquote] @ reason @ [dquote]) = Some reason"
    unfolding extract_reason_value_def clause using found
    by (simp add: char_class_defs(7) graphic_def)
  with args parts assms(1,3) have loose: "parse_args_loose args = Some (rule, Some reason)"
    by (simp add: parse_args_loose_def)
  have "rfind_char CHR '')'' (args @ [CHR '')'']) = Some (length args)" using rfind_char_last[of "CHR '')''" "[]" args] by simp
  with node line loose show "recognize_node_line (sl_text line) = Some (rule, Some reason)"
    by (simp add: recognize_node_line_def graphic_def)
  have quoted: "trim ([dquote] @ reason @ [dquote]) = [dquote] @ reason @ [dquote]"
    by (simp add: trim_graphic_ends graphic_def)
  have pieces: "split_top_level_commas (''reason: '' @ [dquote] @ reason @ [dquote]) = [''reason: '' @ [dquote] @ reason @ [dquote]]"
    using split_opaque[OF assms(4), of "''reason: '' @ [dquote]" "[]"] by (simp add: split_top_level_commas_def)
  have named: "parse_named_args line (''reason: '' @ [dquote] @ reason @ [dquote]) =
      Inr [\<lparr>ta_name = ''reason'', ta_value = [dquote] @ reason @ [dquote], ta_span = Span (sl_start line) (sl_end line)\<rparr>]"
    using clause quoted unfolding parse_named_args_def pieces
    by (simp add: Let_def pieces[simplified] trim_def char_class_defs(7) graphic_def trim_end_graphic_last)
  have call: "split_call_signature line (CHR ''('' # args @ [CHR '')'']) = Inr ([], args)"
    using args by (simp add: split_call_signature_def Let_def trim_end_graphic_last graphic_def ends_with_iff)
  show "parse_doctor_allow line scope = Inr \<lparr>dd_code = rule, dd_reason = Some reason, dd_scope = scope,
      dd_legacy = False, dd_span = Some (Span (sl_start line) (max (sl_end line) (sl_start line + 1)))\<rparr>"
    using assms(1,3) args parts call named quoted found
    by (simp add: parse_doctor_allow_def line unquote_reason_def)
qed

end
