(* ===== verification/Doctor_Crud.thy ===== *)
theory Doctor_Crud
  imports Doctor_Allow Convention_Synthesis
begin

text \<open>
  Three lints that look at the commands \<^verbatim>\<open>conventions [crud]\<close> makes: the one that recognizes a hand-written
  bundle (\<^verbatim>\<open>vocab/crud_synth_available.rs\<close>), the one that rejects a write without columns
  (\<^verbatim>\<open>correctness/creates_empty_bindings_001.rs\<close>), and the hint to hoist a repeated default
  (\<^verbatim>\<open>aggregators/audit/policy_hints.rs\<close>). Paths are texts; a file is its text, or nothing when it cannot be
  read. The snake-case helper of the first lint is a verbatim copy of the analyzer's, which is used here.

  Shown here: the first lint inverts the synthesis, which synthesized writes the second rejects, and that
  the hint fires on commands nobody wrote.
\<close>

section \<open>The hand-written bundle\<close>

record crud_synth_finding =
  cs_path :: string
  cs_resource :: string
  cs_matched :: "string list"
  cs_delete_excluded :: bool
  cs_resource_snake :: string
  cs_overlay_needed :: bool

definition CRUD_SYNTH_CODE :: string where "CRUD_SYNTH_CODE = ''VOCAB-CRUD-SYNTH-AVAILABLE-001''"

definition em_dash :: string where "em_dash = [CHR 0xE2, CHR 0x80, CHR 0x94]"

definition crud_synth_message :: "crud_synth_finding \<Rightarrow> string" where
  "crud_synth_message fd =
     (let n = length (cs_matched fd); plural = (if n = 1 then [] else ''s'') in
      ''Resource `'' @ cs_resource fd @ ''` hand-rolls '' @ nat_to_string n @ '' command'' @ plural @
      '' the `crud` convention would synthesize ('' @ join '', '' (cs_matched fd) @
      ''). Add `conventions [crud]` to the resource and delete them. If the explicit handlers are intentional, add '' @
      ''`# doctor:allow VOCAB-CRUD-SYNTH-AVAILABLE-001 '' @ em_dash @ '' reason '' @ [dquote] @ ''...'' @ [dquote] @ ''`.'' @
      (if cs_overlay_needed fd then
         '' These commands carry per-command policy / emits / default-literal assignments, so pair '' @
         ''`conventions [crud]` with a `crud` overlay (`crud` block: `create`/`update`/`delete` sub-blocks carrying '' @
         ''`policy` / `validate` / `input excludes` / `assign` / `emits`) '' @ em_dash @ '' see spec 0018.''
       else []) @
      (if cs_delete_excluded fd then
         '' Keep `delete_'' @ cs_resource_snake fd @ ''` explicit '' @ em_dash @
         '' it is a soft-delete; the synthesized delete is hard (see spec 0015).''
       else []))"

record synth_member_names =
  sm_create :: string
  sm_update :: string
  sm_delete :: string
  sm_lookup :: string
  sm_list :: string

definition synth_names_for_resource :: "string \<Rightarrow> synth_member_names" where
  "synth_names_for_resource name =
     (let r = pascal_to_snake name in
      \<lparr>sm_create = ''create_'' @ r, sm_update = ''update_'' @ r, sm_delete = ''delete_'' @ r,
       sm_lookup = ''lookup_'' @ r, sm_list = ''list_'' @ r @ ''s''\<rparr>)"

definition plain_assignment :: "assignment \<Rightarrow> bool" where
  "plain_assignment a = (case asg_value a of
     EPath segments \<Rightarrow> length segments = 2 \<and> segments ! 0 = ''input'' \<and> segments ! 1 = asg_field a | _ \<Rightarrow> False)"

definition command_needs_overlay :: "command_ir \<Rightarrow> bool" where
  "command_needs_overlay c =
     (let policy_overlay = (case cm_policy c of RefLocal p \<Rightarrow> p \<noteq> ''authenticated'' | RefNone \<Rightarrow> False | _ \<Rightarrow> True) in
      if policy_overlay \<or> cm_emits c \<noteq> [] then True
      else case cm_effect c of
          Creates _ _ assignments \<Rightarrow> list_ex (\<lambda>a. \<not> plain_assignment a) assignments
        | UpdatesRow _ assignments _ \<Rightarrow> list_ex (\<lambda>a. \<not> plain_assignment a) assignments
        | _ \<Rightarrow> False)"

text \<open>The commands by name are a \<^verbatim>\<open>HashMap\<close> collected in order: of two commands of one name the last stays.\<close>

definition commands_by_name :: "feature_ir \<Rightarrow> string \<rightharpoonup> command_ir" where
  "commands_by_name feature = map_of (rev (map (\<lambda>c. (cm_name c, c)) (fe_commands feature)))"

definition check_crud_resource ::
  "resource_ir \<Rightarrow> (string \<rightharpoonup> command_ir) \<Rightarrow> string set \<Rightarrow> string \<Rightarrow> crud_synth_finding option" where
  "check_crud_resource resource commands query_names path =
     (if Crud \<in> set (rs_conventions resource) then None
      else
        let names = synth_names_for_resource (rs_name resource);
            has_create = commands (sm_create names) \<noteq> None; has_update = commands (sm_update names) \<noteq> None in
        if \<not> (has_create \<and> has_update) then None
        else
          let delete_matched = commands (sm_delete names) \<noteq> None;
              soft = rs_soft_delete resource \<or> rs_retention resource \<noteq> None;
              matched = [sm_create names, sm_update names] @
                (if delete_matched \<and> \<not> soft then [sm_delete names] else []) @
                (if sm_lookup names \<in> query_names then [sm_lookup names] else []) @
                (if sm_list names \<in> query_names then [sm_list names] else []) in
          if matched = [] then None
          else Some \<lparr>cs_path = path, cs_resource = rs_name resource, cs_matched = matched,
            cs_delete_excluded = (delete_matched \<and> soft), cs_resource_snake = pascal_to_snake (rs_name resource),
            cs_overlay_needed = list_ex command_needs_overlay
              (List.map_filter commands [sm_create names, sm_update names, sm_delete names])\<rparr>)"

definition crud_synth_check :: "feature_ir \<Rightarrow> string \<Rightarrow> string option \<Rightarrow> crud_synth_finding list" where
  "crud_synth_check feature path file =
     (if file_contains_doctor_allow file CRUD_SYNTH_CODE then []
      else List.map_filter (\<lambda>resource. check_crud_resource resource (commands_by_name feature)
          (set (map query_name (fe_queries feature))) path) (fe_resources feature))"

section \<open>Writes without columns\<close>

definition IDENTITY :: string where "IDENTITY = ''id''"
definition TIMESTAMPS :: "string list" where "TIMESTAMPS = [''created_at'', ''updated_at'']"
definition SOFT_DELETE :: "string list" where "SOFT_DELETE = [''deleted_at'', ''deleted_by'']"

definition is_synthesized_column :: "string \<Rightarrow> bool" where
  "is_synthesized_column name \<longleftrightarrow> name = IDENTITY \<or> name \<in> set TIMESTAMPS \<or> name \<in> set SOFT_DELETE"

definition is_timestamp_column :: "string \<Rightarrow> bool" where
  "is_timestamp_column name \<longleftrightarrow> name \<in> set TIMESTAMPS"

datatype EffectKind = CreatesKind | UpdatesKind

fun effect_keyword :: "EffectKind \<Rightarrow> string" where
  "effect_keyword CreatesKind = ''creates''"
| "effect_keyword UpdatesKind = ''updates''"

fun degenerate_write :: "EffectKind \<Rightarrow> string" where
  "degenerate_write CreatesKind = ''an empty/degenerate INSERT (an all-default row)''"
| "degenerate_write UpdatesKind = ''a no-op UPDATE (the SET map is empty)''"

record empty_bindings_finding =
  eb_feature :: string
  eb_command :: string
  eb_resource :: string
  eb_kind :: EffectKind
  eb_path :: string

definition EMPTY_BINDINGS_CODE :: string where "EMPTY_BINDINGS_CODE = ''CREATES-EMPTY-BINDINGS-001''"

definition empty_bindings_message :: "empty_bindings_finding \<Rightarrow> string" where
  "empty_bindings_message fd =
     ''command '' @ [squote] @ eb_feature fd @ ''.'' @ eb_command fd @ [squote] @ '' declares `'' @
     effect_keyword (eb_kind fd) @ '' '' @ eb_resource fd @ ''` but binds no meaningful columns, so it lowers to '' @
     degenerate_write (eb_kind fd) @ ''. Add `<column> = <input.field | ctx.* | literal>` bindings, use a '' @
     ''`handler @fn.<name>` escape hatch if a Go handler fills the row, or remove the effect. If the empty effect is '' @
     ''an intentional marker whose real write is delegated to a bound validator/handler, silence it with '' @
     ''`# doctor:allow CREATES-EMPTY-BINDINGS-001 '' @ em_dash @ '' reason '' @ [dquote] @ ''...'' @ [dquote] @
     ''`. (Auto-managed columns '' @ em_dash @ '' id, created_at, updated_at '' @ em_dash @
     '' do not count; soft-delete columns deleted_at/deleted_by DO count as a real write.)''"

definition is_auto_managed_column :: "string \<Rightarrow> bool" where
  "is_auto_managed_column name \<longleftrightarrow> name = IDENTITY \<or> is_timestamp_column name"

definition author_binding_count :: "string list \<Rightarrow> nat" where
  "author_binding_count columns = length (filter (\<lambda>column. \<not> is_auto_managed_column column) columns)"

definition make_empty_bindings_finding ::
  "feature_ir \<Rightarrow> command_ir \<Rightarrow> qualified_name \<Rightarrow> EffectKind \<Rightarrow> string \<Rightarrow> empty_bindings_finding" where
  "make_empty_bindings_finding feature command resource kind path =
     \<lparr>eb_feature = fe_name feature, eb_command = cm_name command, eb_resource = qn_name resource, eb_kind = kind,
      eb_path = path\<rparr>"

text \<open>The body of the loop over the commands.\<close>

definition check_command_bindings :: "feature_ir \<Rightarrow> string \<Rightarrow> command_ir \<Rightarrow> empty_bindings_finding list" where
  "check_command_bindings feature path command =
     (if cm_handler command \<noteq> None then []
      else case cm_effect command of
          Creates resource _ assignments \<Rightarrow>
            if author_binding_count (map asg_field assignments) = 0
            then [make_empty_bindings_finding feature command resource CreatesKind path] else []
        | UpdatesRow resource assignments _ \<Rightarrow>
            if cm_triggers command \<noteq> [] then []
            else if author_binding_count (map asg_field assignments) = 0
            then [make_empty_bindings_finding feature command resource UpdatesKind path] else []
        | _ \<Rightarrow> [])"

definition empty_bindings_check_with_source :: "feature_ir \<Rightarrow> string \<Rightarrow> string \<Rightarrow> empty_bindings_finding list" where
  "empty_bindings_check_with_source feature path source =
     (if source_contains_doctor_allow source EMPTY_BINDINGS_CODE then []
      else concat (map (check_command_bindings feature path) (fe_commands feature)))"

definition empty_bindings_check :: "feature_ir \<Rightarrow> string \<Rightarrow> string option \<Rightarrow> empty_bindings_finding list" where
  "empty_bindings_check feature path file =
     empty_bindings_check_with_source feature path (case file of Some source \<Rightarrow> source | None \<Rightarrow> [])"

section \<open>Hoisting a repeated default\<close>

datatype DoctorSeverity = DoctorError | DoctorWarning | DoctorInfo | DoctorHint

text \<open>The slots of a diagnostic that the hints fill; the others are \<^verbatim>\<open>None\<close>. Of the facts of a feature, which
  are harvested from the lowered feature, those the hints read.\<close>

record doctor_diagnostic =
  dg_path :: string
  dg_line :: nat
  dg_column :: nat
  dg_severity :: DoctorSeverity
  dg_code :: string
  dg_message :: string

record tier3_feature_facts =
  tf_feature :: string
  tf_path :: string
  tf_feature_line :: nat
  tf_defaults_rate_limit :: bool
  tf_defaults_audit :: bool
  tf_commands :: "command_ir list"

definition harvest_facts :: "string \<Rightarrow> nat \<Rightarrow> feature_ir \<Rightarrow> tier3_feature_facts" where
  "harvest_facts path feature_line feature =
     \<lparr>tf_feature = fe_name feature, tf_path = path, tf_feature_line = feature_line,
      tf_defaults_rate_limit = (df_rate_limit (fe_defaults feature) \<noteq> None),
      tf_defaults_audit = (df_audit (fe_defaults feature) \<noteq> None), tf_commands = fe_commands feature\<rparr>"

definition is_default_audit_command :: "command_ir \<Rightarrow> bool" where
  "is_default_audit_command command = (case cm_audit command of None \<Rightarrow> False
     | Some audit \<Rightarrow> (let subjects = filter (\<lambda>s. s \<noteq> []) (map trim (au_subjects audit)) in
         length subjects = 1 \<and> eq_ignore_ascii_case (subjects ! 0) ''default''))"

definition is_write_effect_command :: "command_ir \<Rightarrow> bool" where
  "is_write_effect_command command \<longleftrightarrow> cm_kind command \<in> {Create, Update, Delete}"

definition hoistable_spec :: "command_ir \<Rightarrow> string option" where
  "hoistable_spec command = Option.bind (cm_rate_limit command) (\<lambda>spec.
     if rl_by_env spec = [] \<and> rl_default spec \<noteq> [] then Some (rl_default spec) else None)"

text \<open>\<^verbatim>\<open>*entry(spec).or_default() += 1\<close> on a \<^verbatim>\<open>BTreeMap\<close>, and \<^verbatim>\<open>max_by_key\<close>, which keeps the last maximum.\<close>

definition count_spec :: "string \<Rightarrow> (string \<times> nat) list \<Rightarrow> (string \<times> nat) list" where
  "count_spec spec counts = bmap_insert spec ((case map_of counts spec of Some n \<Rightarrow> n | None \<Rightarrow> 0) + 1) counts"

definition max_by_count :: "(string \<times> nat) list \<Rightarrow> (string \<times> nat) option" where
  "max_by_count counts = fold (\<lambda>x best. case best of None \<Rightarrow> Some x
     | Some b \<Rightarrow> if snd b \<le> snd x then Some x else Some b) counts None"

definition hoist_threshold :: nat where "hoist_threshold = 3"

definition rate_limit_hint :: "tier3_feature_facts \<Rightarrow> doctor_diagnostic list" where
  "rate_limit_hint feature =
     (if tf_defaults_rate_limit feature then []
      else case max_by_count (fold count_spec (List.map_filter hoistable_spec (tf_commands feature)) []) of
          None \<Rightarrow> []
        | Some (spec, count) \<Rightarrow> if hoist_threshold \<le> count
            then [\<lparr>dg_path = tf_path feature, dg_line = tf_feature_line feature, dg_column = 1, dg_severity = DoctorHint,
              dg_code = ''defaults_hoist_rate_limit_hint'',
              dg_message = ''feature `'' @ tf_feature feature @ ''` repeats the same `rate_limit '' @ [dquote] @ spec @ [dquote] @
                ''` on '' @ nat_to_string count @ '' commands. Hoist it into the feature `defaults` block (`defaults rate_limit '' @
                [dquote] @ spec @ [dquote] @ ''`) and let each command inherit; override only where a command differs. '' @
                ''See docs/lazuli_way/feature-defaults.md.''\<rparr>]
            else [])"

definition audit_hint :: "tier3_feature_facts \<Rightarrow> doctor_diagnostic list" where
  "audit_hint feature =
     (if tf_defaults_audit feature then []
      else let count = length (filter is_default_audit_command (tf_commands feature)) in
        if hoist_threshold \<le> count
        then [\<lparr>dg_path = tf_path feature, dg_line = tf_feature_line feature, dg_column = 1, dg_severity = DoctorHint,
          dg_code = ''defaults_hoist_audit_hint'',
          dg_message = ''feature `'' @ tf_feature feature @ ''` repeats `audit default` on '' @ nat_to_string count @
            '' commands. Hoist it into the feature `defaults` block (`defaults audit default`) and let each command '' @
            ''inherit; use `audit none` to opt a command out. See docs/lazuli_way/feature-defaults.md.''\<rparr>]
        else [])"

definition defaults_hoist_hints :: "tier3_feature_facts list \<Rightarrow> doctor_diagnostic list" where
  "defaults_hoist_hints facts = concat (map (\<lambda>feature. rate_limit_hint feature @ audit_hint feature) facts)"

section \<open>The bundle, written out\<close>

text \<open>The feature an author gets who writes out what the pass makes and strikes the convention.\<close>

definition strike_crud :: "resource_ir \<Rightarrow> resource_ir" where
  "strike_crud r = r\<lparr>rs_conventions := filter (\<lambda>c. c \<noteq> Crud) (rs_conventions r)\<rparr>"

definition written_out :: "(string \<rightharpoonup> crud_overlay) \<Rightarrow> feature_ir \<Rightarrow> feature_ir" where
  "written_out overlays f = (let g = fst (synthesize_conventions_with_overlays overlays f) in
     g\<lparr>fe_resources := map strike_crud (fe_resources g)\<rparr>)"

text \<open>An overlay that bare \<^verbatim>\<open>conventions [crud]\<close> would lose.\<close>

definition overlay_demands :: "CommandKind \<Rightarrow> effect_overlay \<Rightarrow> bool" where
  "overlay_demands kind eo \<longleftrightarrow>
     (case eo_policy eo of Some (RefLocal p) \<Rightarrow> p \<noteq> ''authenticated'' | Some RefNone \<Rightarrow> False | Some _ \<Rightarrow> True | None \<Rightarrow> False) \<or>
     eo_emits eo \<noteq> [] \<or> (kind \<noteq> Delete \<and> list_ex (\<lambda>a. \<not> plain_assignment a) (eo_assigns eo))"

lemma merged_slots:
  "cm_emits (merge_create eo c) = cm_emits c @ eo_emits eo" "cm_emits (merge_update eo c) = cm_emits c @ eo_emits eo"
  "cm_emits (merge_delete eo c) = cm_emits c @ eo_emits eo"
  "cm_handler (merge_create eo c) = cm_handler c" "cm_handler (merge_update eo c) = cm_handler c"
  "cm_handler (merge_delete eo c) = cm_handler c"
  "cm_triggers (merge_create eo c) = cm_triggers c" "cm_triggers (merge_update eo c) = cm_triggers c"
  "cm_audit (merge_create eo c) = cm_audit c" "cm_audit (merge_update eo c) = cm_audit c" "cm_audit (merge_delete eo c) = cm_audit c"
  by (auto simp: merge_create_def merge_update_def merge_delete_def apply_input_excludes_def overlay_policy_def
      overlay_emits_def Let_def split: option.splits CommandEffect.splits)

lemma scoped_slots:
  "cm_emits (scope_command s c) = cm_emits c" "cm_handler (scope_command s c) = cm_handler c"
  "cm_triggers (scope_command s c) = cm_triggers c" "cm_audit (scope_command s c) = cm_audit c"
  by (simp_all add: scope_command_def split: option.splits)

definition bound_inputs :: "effect_overlay \<Rightarrow> (field_ir \<times> bool) list \<Rightarrow> assignment list" where
  "bound_inputs eo fs = filter (\<lambda>a. asg_field a \<notin> set (eo_input_excludes eo)) (input_field_assignments fs)"

lemma synth_create_slots:
  fixes overlays r os
  defines "eo \<equiv> overlay_for overlays r Create" and "c \<equiv> synth_create overlays os r"
  shows "cm_effect c = Creates (local_name (rs_name r)) True (bound_inputs eo (create_input_fields (categorize_fields r)) @ eo_assigns eo)"
    "cm_policy c = (case eo_policy eo of Some p \<Rightarrow> p | None \<Rightarrow> RefLocal ''authenticated'')" "cm_emits c = eo_emits eo"
    "cm_handler c = None" "cm_triggers c = []" "cm_rate_limit c = Some (from_default crud_write_rate_limit)"
    "cm_audit c = Some default_audit" "cm_kind c = Create"
proof -
  define b where "b = (scope_command (full_scope os)
      (build_create_command (create_name r) (rs_name r) (create_input_fields (categorize_fields r))))\<lparr>cm_invalidates := invalidated r\<rparr>"
  have b: "cm_effect b = Creates (local_name (rs_name r)) True (input_field_assignments (create_input_fields (categorize_fields r)))"
    "cm_policy b = RefLocal ''authenticated''" "cm_emits b = []" "cm_handler b = None" "cm_triggers b = []"
    "cm_rate_limit b = Some (from_default crud_write_rate_limit)" "cm_audit b = Some default_audit" "cm_kind b = Create"
    by (simp_all add: b_def scope_command_facts scoped_slots built_simps)
  have c: "c = merge_create eo b" by (simp add: c_def eo_def b_def synth_create_def merge_overlay_for)
  show "cm_effect c = Creates (local_name (rs_name r)) True (bound_inputs eo (create_input_fields (categorize_fields r)) @ eo_assigns eo)"
    "cm_policy c = (case eo_policy eo of Some p \<Rightarrow> p | None \<Rightarrow> RefLocal ''authenticated'')" "cm_emits c = eo_emits eo"
    "cm_handler c = None" "cm_triggers c = []" "cm_rate_limit c = Some (from_default crud_write_rate_limit)"
    "cm_audit c = Some default_audit" "cm_kind c = Create"
    unfolding c by (simp_all only: merge_create_facts[OF b(1)] merged_slots b bound_inputs_def append_Nil)
qed

lemma synth_update_slots:
  fixes overlays r os
  defines "eo \<equiv> overlay_for overlays r Update" and "c \<equiv> synth_update overlays os r"
  shows "cm_effect c = UpdatesRow (local_name (rs_name r)) (bound_inputs eo (update_input_fields (categorize_fields r)) @ eo_assigns eo) []"
    "cm_policy c = (case eo_policy eo of Some p \<Rightarrow> p | None \<Rightarrow> RefLocal ''authenticated'')" "cm_emits c = eo_emits eo"
    "cm_handler c = None" "cm_triggers c = []" "cm_rate_limit c = Some (from_default crud_write_rate_limit)"
    "cm_audit c = Some default_audit" "cm_kind c = Update"
proof -
  define b where "b = (scope_command (where_scope os)
      (build_update_command (update_name r) (rs_name r) (update_input_fields (categorize_fields r))))\<lparr>cm_invalidates := invalidated r\<rparr>"
  have b: "cm_effect b = UpdatesRow (local_name (rs_name r)) (input_field_assignments (update_input_fields (categorize_fields r))) []"
    "cm_policy b = RefLocal ''authenticated''" "cm_emits b = []" "cm_handler b = None" "cm_triggers b = []"
    "cm_rate_limit b = Some (from_default crud_write_rate_limit)" "cm_audit b = Some default_audit" "cm_kind b = Update"
    by (simp_all add: b_def scope_command_facts scoped_slots built_simps)
  have c: "c = merge_update eo b" by (simp add: c_def eo_def b_def synth_update_def merge_overlay_for)
  show "cm_effect c = UpdatesRow (local_name (rs_name r)) (bound_inputs eo (update_input_fields (categorize_fields r)) @ eo_assigns eo) []"
    "cm_policy c = (case eo_policy eo of Some p \<Rightarrow> p | None \<Rightarrow> RefLocal ''authenticated'')" "cm_emits c = eo_emits eo"
    "cm_handler c = None" "cm_triggers c = []" "cm_rate_limit c = Some (from_default crud_write_rate_limit)"
    "cm_audit c = Some default_audit" "cm_kind c = Update"
    unfolding c by (simp_all only: merge_update_facts[OF b(1)] merged_slots b bound_inputs_def append_Nil)
qed

lemma synth_delete_slots:
  fixes overlays r os
  defines "eo \<equiv> overlay_for overlays r Delete" and "c \<equiv> synth_delete overlays os r"
  shows "cm_effect c = DeletesRow (local_name (rs_name r)) []"
    "cm_policy c = (case eo_policy eo of Some p \<Rightarrow> p | None \<Rightarrow> RefLocal ''authenticated'')" "cm_emits c = eo_emits eo"
    "cm_handler c = None" "cm_rate_limit c = Some (from_default crud_write_rate_limit)"
    "cm_audit c = Some default_audit" "cm_kind c = Delete"
  unfolding c_def eo_def synth_delete_def merge_overlay_for merge_delete_facts merged_slots
  by (simp_all add: scope_command_facts scoped_slots built_simps split: option.split)

lemma bound_inputs_plain: "list_all plain_assignment (bound_inputs eo fs)"
  by (auto simp: bound_inputs_def input_field_assignments_def list_all_iff plain_assignment_def)

lemma synthesized_need_overlay:
  "command_needs_overlay (synth_create overlays os r) \<longleftrightarrow> overlay_demands Create (overlay_for overlays r Create)"
  "command_needs_overlay (synth_update overlays os r) \<longleftrightarrow> overlay_demands Update (overlay_for overlays r Update)"
  "command_needs_overlay (synth_delete overlays os r) \<longleftrightarrow> overlay_demands Delete (overlay_for overlays r Delete)"
proof -
  have "\<not> list_ex (\<lambda>a. \<not> plain_assignment a) (bound_inputs eo fs)" for eo fs
    using bound_inputs_plain[of eo fs] by (simp add: list_all_iff list_ex_iff)
  then show "command_needs_overlay (synth_create overlays os r) \<longleftrightarrow> overlay_demands Create (overlay_for overlays r Create)"
    "command_needs_overlay (synth_update overlays os r) \<longleftrightarrow> overlay_demands Update (overlay_for overlays r Update)"
    "command_needs_overlay (synth_delete overlays os r) \<longleftrightarrow> overlay_demands Delete (overlay_for overlays r Delete)"
    by (simp_all add: command_needs_overlay_def overlay_demands_def synth_create_slots synth_update_slots synth_delete_slots
        list_ex_append split: option.split PolicyRef.split)
qed

lemma found_by_name:
  assumes "c \<in> set cs" "\<And>d. d \<in> set cs \<Longrightarrow> cm_name d = cm_name c \<Longrightarrow> d = c"
  shows "map_of (rev (map (\<lambda>c. (cm_name c, c)) cs)) (cm_name c) = Some c"
proof -
  have "cm_name c \<in> fst ` set (rev (map (\<lambda>c. (cm_name c, c)) cs))" using assms(1) by force
  then obtain d where d: "map_of (rev (map (\<lambda>c. (cm_name c, c)) cs)) (cm_name c) = Some d"
    by (metis map_of_eq_None_iff not_Some_eq)
  from map_of_SomeD[OF this] have "d \<in> set cs" "cm_name d = cm_name c" by auto
  with assms(2) d show ?thesis by simp
qed

lemma command_names_apart [simp]:
  "create_name r \<noteq> update_name r'" "update_name r' \<noteq> create_name r" "create_name r \<noteq> delete_name r'" "delete_name r' \<noteq> create_name r"
  "update_name r \<noteq> delete_name r'" "delete_name r' \<noteq> update_name r"
  "create_name r = create_name r' \<longleftrightarrow> pascal_to_snake (rs_name r) = pascal_to_snake (rs_name r')"
  "update_name r = update_name r' \<longleftrightarrow> pascal_to_snake (rs_name r) = pascal_to_snake (rs_name r')"
  "delete_name r = delete_name r' \<longleftrightarrow> pascal_to_snake (rs_name r) = pascal_to_snake (rs_name r')"
  by (simp_all add: create_name_def update_name_def delete_name_def)

text \<open>With different resource names the three commands of a bundle are the ones found under their names.\<close>

lemma written_commands:
  assumes "distinct (map (\<lambda>r. pascal_to_snake (rs_name r)) (fe_resources f))" "r \<in> set (fe_resources f)"
    "Crud \<in> set (rs_conventions r)" "{create_name r, update_name r, delete_name r} \<inter> existing_command_names f = {}"
    "c \<in> {synth_create overlays os r, synth_update overlays os r, synth_delete overlays os r}"
    "os = fst (resolve_owner_scope f r [])"
  shows "commands_by_name (written_out overlays f) (cm_name c) = Some c"
proof -
  let ?cs = "fe_commands f @ concat (map (commands_of overlays f) (fe_resources f))"
  have own: "commands_of overlays f r = [synth_create overlays os r, synth_update overlays os r, synth_delete overlays os r]"
    using assms(3,4) by (simp add: commands_of_def Let_def assms(6)[symmetric])
  have snake: "cm_name c \<in> {create_name r, update_name r, delete_name r}" using assms(5) by auto
  have unique: "d = c" if d: "d \<in> set ?cs" "cm_name d = cm_name c" for d
  proof -
    have "cm_name d \<notin> existing_command_names f" using d(2) snake assms(4) by auto
    then have "d \<notin> set (fe_commands f)" by (auto simp: existing_command_names_def)
    then obtain r' where r': "r' \<in> set (fe_resources f)" "d \<in> set (commands_of overlays f r')" using d(1) by auto
    have "cm_name d \<in> set (map cm_name (commands_of overlays f r'))" using r'(2) by simp
    then have "cm_name d \<in> {create_name r', update_name r', delete_name r'}"
      unfolding commands_of_names by (auto split: if_splits)
    then have "pascal_to_snake (rs_name r') = pascal_to_snake (rs_name r)" using d(2) snake by auto
    then have "r' = r" using assms(1,2) r'(1) by (auto simp: distinct_map dest: inj_onD)
    then show ?thesis using r'(2) own d(2) assms(5) by auto
  qed
  have "c \<in> set (commands_of overlays f r)" using own assms(5) by auto
  then have "c \<in> set ?cs" using assms(2) by auto
  from found_by_name[OF this unique] show ?thesis
    by (simp add: commands_by_name_def written_out_def Let_def synthesize_eq)
qed

lemma filter_map_filter:
  assumes "distinct (map nm rs)" "r \<in> set rs" "\<And>x d. h x = Some d \<Longrightarrow> ky d = nm x"
  shows "filter (\<lambda>d. ky d = nm r) (List.map_filter h rs) = (case h r of Some d \<Rightarrow> [d] | None \<Rightarrow> [])"
  using assms(1,2)
proof (induction rs)
  case (Cons x xs)
  have none: "filter (\<lambda>d. ky d = nm r) (List.map_filter h xs) = []" if "nm r \<notin> nm ` set xs"
  proof -
    have "ky d \<noteq> nm r" if d: "d \<in> set (List.map_filter h xs)" for d
    proof -
      obtain x where "x \<in> set xs" "h x = Some d" using d by (auto simp: set_map_filter_iff)
      then show ?thesis using assms(3) \<open>nm r \<notin> nm ` set xs\<close> by (metis imageI)
    qed
    then show ?thesis by (simp add: filter_empty_conv)
  qed
  show ?case
  proof (cases "x = r")
    case True
    then show ?thesis using Cons.prems(1) none assms(3)[of r] by (auto simp: List.map_filter_simps split: option.split)
  next
    case False
    then have "nm x \<noteq> nm r" using Cons.prems by auto
    then show ?thesis using Cons False assms(3)[of x] by (auto simp: List.map_filter_simps split: option.split)
  qed
qed simp

lemma found_resource: "check_crud_resource r cs qs path = Some d \<Longrightarrow> cs_resource d = rs_name r"
  by (auto simp: check_crud_resource_def Let_def split: if_splits)

lemma written_queries:
  assumes "r \<in> set (fe_resources f)" "Crud \<in> set (rs_conventions r)"
  shows "{lookup_name r, list_name r} \<subseteq> set (map query_name (fe_queries (written_out overlays f)))"
  using names_exist_after(2)[OF assms(1), of overlays] assms(2)
  by (auto simp: written_out_def Let_def query_names_of_def existing_query_names_def)

section \<open>What the empty-write lint sees\<close>

definition writes_nothing :: "(string \<rightharpoonup> crud_overlay) \<Rightarrow> resource_ir \<Rightarrow> command_ir \<Rightarrow> bool" where
  "writes_nothing overlays r c \<longleftrightarrow> cm_kind c \<noteq> Delete \<and>
     list_all (\<lambda>fd. is_tenant_field r fd \<or> is_auto_field r fd \<or>
       fi_name fd \<in> set (eo_input_excludes (overlay_for overlays r (cm_kind c)))) (rs_fields r) \<and>
     list_all (\<lambda>a. is_auto_managed_column (asg_field a)) (eo_assigns (overlay_for overlays r (cm_kind c)))"

lemma author_binding_count_0: "author_binding_count ns = 0 \<longleftrightarrow> list_all is_auto_managed_column ns"
  by (simp add: author_binding_count_def filter_empty_conv list_all_iff)

lemma auto_managed_auto_field: "is_auto_managed_column (fi_name fd) \<Longrightarrow> is_auto_field r fd"
  by (auto simp: is_auto_managed_column_def is_auto_field_def IDENTITY_def TIMESTAMPS_def is_timestamp_column_def)

lemma bound_inputs_auto:
  assumes "fst ` set fs = {fd \<in> set (rs_fields r). \<not> is_tenant_field r fd \<and> \<not> is_auto_field r fd}"
  shows "list_all is_auto_managed_column (map asg_field (bound_inputs eo fs)) \<longleftrightarrow>
    list_all (\<lambda>fd. is_tenant_field r fd \<or> is_auto_field r fd \<or> fi_name fd \<in> set (eo_input_excludes eo)) (rs_fields r)"
proof -
  have "list_all is_auto_managed_column (map asg_field (bound_inputs eo fs)) \<longleftrightarrow>
      (\<forall>fd \<in> fst ` set fs. fi_name fd \<in> set (eo_input_excludes eo) \<or> is_auto_managed_column (fi_name fd))"
    by (force simp: bound_inputs_def input_field_assignments_def list_all_iff)
  also have "\<dots> \<longleftrightarrow> list_all (\<lambda>fd. is_tenant_field r fd \<or> is_auto_field r fd \<or> fi_name fd \<in> set (eo_input_excludes eo)) (rs_fields r)"
    using auto_managed_auto_field[of _ r] unfolding assms list_all_iff by blast
  finally show ?thesis .
qed

definition empty_write_finding :: "feature_ir \<Rightarrow> string \<Rightarrow> resource_ir \<Rightarrow> command_ir \<Rightarrow> empty_bindings_finding" where
  "empty_write_finding f path r c =
     \<lparr>eb_feature = fe_name f, eb_command = cm_name c, eb_resource = rs_name r,
      eb_kind = (if cm_kind c = Create then CreatesKind else UpdatesKind), eb_path = path\<rparr>"

lemma synthesized_bindings:
  assumes "c \<in> set (commands_of overlays f r)" "fe_name g = fe_name f"
  shows "check_command_bindings g path c = (if writes_nothing overlays r c then [empty_write_finding f path r c] else [])"
proof -
  let ?os = "fst (resolve_owner_scope f r [])"
  have "c \<in> {synth_create overlays ?os r, synth_update overlays ?os r, synth_delete overlays ?os r}"
    using assms(1) by (auto simp: commands_of_def Let_def split: if_splits)
  then consider "c = synth_create overlays ?os r" | "c = synth_update overlays ?os r" | "c = synth_delete overlays ?os r" by blast
  then show ?thesis
  proof cases
    case 1
    then show ?thesis using bound_inputs_auto[OF input_fields_names(1)[of r], of "overlay_for overlays r Create"]
      by (simp add: check_command_bindings_def synth_create_slots author_binding_count_0 writes_nothing_def
          make_empty_bindings_finding_def empty_write_finding_def assms(2) local_name_def list_all_append list.pred_map o_def)
  next
    case 2
    then show ?thesis using bound_inputs_auto[OF input_fields_names(2)[of r], of "overlay_for overlays r Update"]
      by (simp add: check_command_bindings_def synth_update_slots author_binding_count_0 writes_nothing_def
          make_empty_bindings_finding_def empty_write_finding_def assms(2) local_name_def list_all_append list.pred_map o_def)
  next
    case 3
    then show ?thesis by (simp add: check_command_bindings_def synth_delete_slots writes_nothing_def)
  qed
qed

section \<open>Counting specs\<close>

lemma count_spec_fold:
  assumes "strictly_sorted (map fst m)"
  shows "strictly_sorted (map fst (fold count_spec xs m)) \<and>
    map_of (fold count_spec xs m) s = (if s \<in> set xs
      then Some ((case map_of m s of Some n \<Rightarrow> n | None \<Rightarrow> 0) + count_list xs s) else map_of m s)"
  using assms
proof (induction xs arbitrary: m)
  case (Cons x xs)
  have sorted: "strictly_sorted (map fst (count_spec x m))" using Cons.prems by (simp add: count_spec_def)
  have look: "map_of (count_spec x m) = (map_of m)(x \<mapsto> (case map_of m x of Some n \<Rightarrow> n | None \<Rightarrow> 0) + 1)"
    using Cons.prems by (simp add: count_spec_def)
  show ?case using Cons.IH[OF sorted] count_notin[of x xs] by (auto simp: look split: option.split)
qed simp

lemma max_by_count_spec:
  "counts \<noteq> [] \<Longrightarrow> \<exists>b. max_by_count counts = Some b \<and> b \<in> set counts \<and> (\<forall>x \<in> set counts. snd x \<le> snd b)"
proof (induction counts rule: rev_induct)
  case (snoc x xs)
  show ?case
  proof (cases "xs = []")
    case False
    with snoc.IH obtain b where b: "max_by_count xs = Some b" "b \<in> set xs" "\<forall>x \<in> set xs. snd x \<le> snd b" by blast
    then have "max_by_count (xs @ [x]) = Some (if snd b \<le> snd x then x else b)" by (simp add: max_by_count_def)
    then show ?thesis using b by force
  qed (simp add: max_by_count_def)
qed simp

lemma max_by_count_iff:
  "(\<exists>s n. max_by_count (fold count_spec xs []) = Some (s, n) \<and> hoist_threshold \<le> n) \<longleftrightarrow>
   (\<exists>s \<in> set xs. hoist_threshold \<le> count_list xs s)"
proof -
  let ?m = "fold count_spec xs []"
  have m: "strictly_sorted (map fst ?m)" "map_of ?m s = (if s \<in> set xs then Some (count_list xs s) else None)" for s
    using count_spec_fold[of "[]" xs s] by simp_all
  have entry: "(s, n) \<in> set ?m \<longleftrightarrow> s \<in> set xs \<and> n = count_list xs s" for s n
    using map_of_eq_Some_iff[OF strictly_sorted_distinct[OF m(1)], of s n] m(2)[of s] by (auto split: if_splits)
  show ?thesis
  proof (cases "?m = []")
    case True
    then have "xs = []" using entry by (cases xs) auto
    then show ?thesis by (simp add: max_by_count_def)
  next
    case False
    from max_by_count_spec[OF this] obtain b where b: "max_by_count ?m = Some b" "b \<in> set ?m" "\<forall>x \<in> set ?m. snd x \<le> snd b"
      by blast
    obtain t n where bt: "b = (t, n)" by (cases b)
    have top: "t \<in> set xs" "n = count_list xs t" using b(2) entry by (simp_all add: bt)
    have "count_list xs s \<le> n" if "s \<in> set xs" for s using b(3) entry[of s "count_list xs s"] that by (auto simp: bt)
    then show ?thesis using b(1) top unfolding bt by (auto intro: le_trans)
  qed
qed

lemma rate_limit_hint_iff:
  "rate_limit_hint feature \<noteq> [] \<longleftrightarrow> \<not> tf_defaults_rate_limit feature \<and>
     (\<exists>s \<in> set (List.map_filter hoistable_spec (tf_commands feature)).
       hoist_threshold \<le> count_list (List.map_filter hoistable_spec (tf_commands feature)) s)"
  unfolding max_by_count_iff[symmetric] rate_limit_hint_def by (auto split: option.split prod.split)

lemma bundle_among_commands:
  assumes "r \<in> set (fe_resources f)"
  shows "\<exists>before after. fe_commands (fst (synthesize_conventions_with_overlays overlays f)) =
    before @ commands_of overlays f r @ after"
proof -
  obtain xs ys where "fe_resources f = xs @ r # ys" using assms by (meson split_list)
  then have "fe_commands (fst (synthesize_conventions_with_overlays overlays f)) =
      (fe_commands f @ concat (map (commands_of overlays f) xs)) @ commands_of overlays f r @ concat (map (commands_of overlays f) ys)"
    by (simp add: synthesize_eq)
  then show ?thesis by blast
qed

lemma synthesis_keeps:
  "fe_name (fst (synthesize_conventions_with_overlays overlays f)) = fe_name f"
  "fe_defaults (fst (synthesize_conventions_with_overlays overlays f)) = fe_defaults f"
  "fe_resources (fst (synthesize_conventions_with_overlays overlays f)) = fe_resources f"
  by (simp_all add: synthesize_conventions_with_overlays_def Let_def)

lemma whole_bundle:
  assumes "Crud \<in> set (rs_conventions r)" "{create_name r, update_name r, delete_name r} \<inter> existing_command_names f = {}"
  shows "commands_of overlays f r = [synth_create overlays (fst (resolve_owner_scope f r [])) r,
    synth_update overlays (fst (resolve_owner_scope f r [])) r, synth_delete overlays (fst (resolve_owner_scope f r [])) r]"
  using assms by (simp add: commands_of_def Let_def)

lemma default_audit_counts: "cm_audit c = Some default_audit \<Longrightarrow> is_default_audit_command c"
proof -
  have "let subjects = filter (\<lambda>s. s \<noteq> []) (map trim (au_subjects default_audit)) in
      length subjects = 1 \<and> eq_ignore_ascii_case (subjects ! 0) ''default''" by code_simp
  then show "cm_audit c = Some default_audit \<Longrightarrow> is_default_audit_command c" by (simp add: is_default_audit_command_def)
qed

section \<open>Properties\<close>



text \<open>
  C19. Which synthesized writes are rejected. Where the source has no waiver, the pass adds exactly these
  findings to those of the author's commands: a creation or an update whose resource has no field left for
  the client, and whose overlay assigns no column besides the generated ones.
\<close>

theorem empty_bindings_of_synthesis:
  assumes "\<not> source_contains_doctor_allow source EMPTY_BINDINGS_CODE"
  shows "empty_bindings_check_with_source (fst (synthesize_conventions_with_overlays overlays f)) path source =
    empty_bindings_check_with_source f path source @
    concat (map (\<lambda>r. map (empty_write_finding f path r) (filter (writes_nothing overlays r) (commands_of overlays f r))) (fe_resources f))"
proof -
  let ?g = "fst (synthesize_conventions_with_overlays overlays f)"
  have "concat (map (check_command_bindings ?g path) cs) = map (empty_write_finding f path r) (filter (writes_nothing overlays r) cs)"
    if "set cs \<subseteq> set (commands_of overlays f r)" for r cs
    using that by (induction cs) (simp_all add: synthesized_bindings[where overlays = overlays and f = f and r = r, OF _ synthesis_keeps(1)])
  then have "concat (map (check_command_bindings ?g path) (concat (map (commands_of overlays f) rs))) =
      concat (map (\<lambda>r. map (empty_write_finding f path r) (filter (writes_nothing overlays r) (commands_of overlays f r))) rs)" for rs
    by (induction rs) simp_all
  moreover have "make_empty_bindings_finding ?g = make_empty_bindings_finding f"
    by (simp add: fun_eq_iff make_empty_bindings_finding_def synthesis_keeps)
  then have "check_command_bindings ?g path = check_command_bindings f path"
    by (intro ext) (simp only: check_command_bindings_def)
  ultimately show ?thesis using assms
    by (simp add: empty_bindings_check_with_source_def synthesize_eq)
qed

theorem empty_bindings_of_synthesis_witness:
  "map eb_command (empty_bindings_check_with_source
     (fst (synthesize_conventions_with_overlays Map.empty (crud_feature [crud_resource ''Doc'' [] [Crud]]))) ''blog.lzi'' ''feature blog'') =
   [''create_doc'', ''update_doc'']"
proof -
  have "\<not> source_contains_doctor_allow ''feature blog'' EMPTY_BINDINGS_CODE" by code_simp
  moreover have "map eb_command (empty_bindings_check_with_source (crud_feature [crud_resource ''Doc'' [] [Crud]]) ''blog.lzi'' ''feature blog'' @
      concat (map (\<lambda>r. map (empty_write_finding (crud_feature [crud_resource ''Doc'' [] [Crud]]) ''blog.lzi'' r)
        (filter (writes_nothing Map.empty r) (commands_of Map.empty (crud_feature [crud_resource ''Doc'' [] [Crud]]) r)))
        (fe_resources (crud_feature [crud_resource ''Doc'' [] [Crud]])))) = [''create_doc'', ''update_doc'']"
    by code_simp
  ultimately show ?thesis by (simp only: empty_bindings_of_synthesis not_False_eq_True)
qed

text \<open>
  C25. The hints to hoist count commands nobody wrote: one resource whose bundle the pass makes in full is
  enough for both of them, each unless the feature sets that default.
\<close>

theorem hoist_hints_of_synthesis:
  assumes "r \<in> set (fe_resources f)" "Crud \<in> set (rs_conventions r)"
    "{create_name r, update_name r, delete_name r} \<inter> existing_command_names f = {}"
  shows "let hints = defaults_hoist_hints [harvest_facts path line (fst (synthesize_conventions_with_overlays overlays f))] in
    (list_ex (\<lambda>d. dg_code d = ''defaults_hoist_rate_limit_hint'') hints \<longleftrightarrow> df_rate_limit (fe_defaults f) = None) \<and>
    (list_ex (\<lambda>d. dg_code d = ''defaults_hoist_audit_hint'') hints \<longleftrightarrow> df_audit (fe_defaults f) = None)"
proof -
  let ?g = "fst (synthesize_conventions_with_overlays overlays f)" and ?os = "fst (resolve_owner_scope f r [])"
  let ?facts = "harvest_facts path line ?g"
  obtain before after where g: "fe_commands ?g = before @ [synth_create overlays ?os r, synth_update overlays ?os r,
      synth_delete overlays ?os r] @ after"
    using bundle_among_commands[OF assms(1), of overlays] whole_bundle[OF assms(2,3), of overlays] by metis
  have specs: "hoistable_spec (synth_create overlays ?os r) = Some crud_write_rate_limit"
    "hoistable_spec (synth_update overlays ?os r) = Some crud_write_rate_limit"
    "hoistable_spec (synth_delete overlays ?os r) = Some crud_write_rate_limit"
    by (simp_all add: hoistable_spec_def synth_create_slots synth_update_slots synth_delete_slots from_default_def
        crud_write_rate_limit_def)
  have append: "List.map_filter h (xs @ ys) = List.map_filter h xs @ List.map_filter h ys" for h :: "command_ir \<Rightarrow> string option" and xs ys
    by (simp add: List.map_filter_def)
  have "crud_write_rate_limit \<in> set (List.map_filter hoistable_spec (fe_commands ?g)) \<and>
      hoist_threshold \<le> count_list (List.map_filter hoistable_spec (fe_commands ?g)) crud_write_rate_limit"
    unfolding g by (simp add: append List.map_filter_simps specs hoist_threshold_def)
  then have rate: "rate_limit_hint ?facts \<noteq> [] \<longleftrightarrow> df_rate_limit (fe_defaults f) = None"
    unfolding rate_limit_hint_iff by (auto simp: harvest_facts_def synthesis_keeps)
  have "hoist_threshold \<le> length (filter is_default_audit_command (fe_commands ?g))"
    unfolding g by (simp add: hoist_threshold_def default_audit_counts synth_create_slots synth_update_slots synth_delete_slots)
  then have audit: "audit_hint ?facts \<noteq> [] \<longleftrightarrow> df_audit (fe_defaults f) = None"
    by (simp add: audit_hint_def harvest_facts_def synthesis_keeps)
  have codes: "d \<in> set (rate_limit_hint fs) \<Longrightarrow> dg_code d = ''defaults_hoist_rate_limit_hint''"
    "d \<in> set (audit_hint fs) \<Longrightarrow> dg_code d = ''defaults_hoist_audit_hint''" for d fs
    by (auto simp: rate_limit_hint_def audit_hint_def Let_def split: if_splits option.splits prod.splits)
  have only: "list_ex P (xs @ ys) \<longleftrightarrow> xs \<noteq> []" "list_ex Q (xs @ ys) \<longleftrightarrow> ys \<noteq> []"
    if "\<forall>d \<in> set xs. P d \<and> \<not> Q d" "\<forall>d \<in> set ys. Q d \<and> \<not> P d" for P Q and xs ys :: "doctor_diagnostic list"
    using that by (cases xs; cases ys; auto simp: list_ex_iff)+
  have "\<forall>d \<in> set (rate_limit_hint fs). dg_code d = ''defaults_hoist_rate_limit_hint'' \<and> dg_code d \<noteq> ''defaults_hoist_audit_hint''"
    "\<forall>d \<in> set (audit_hint fs). dg_code d = ''defaults_hoist_audit_hint'' \<and> dg_code d \<noteq> ''defaults_hoist_rate_limit_hint''" for fs
    using codes[of _ fs] by auto
  note only[OF this]
  then show ?thesis using rate audit by (simp add: defaults_hoist_hints_def Let_def)
qed

theorem hoist_hints_of_synthesis_witness:
  "list_ex (\<lambda>d. dg_code d = ''defaults_hoist_rate_limit_hint'') (defaults_hoist_hints [harvest_facts ''blog.lzi'' 1
     (fst (synthesize_conventions_with_overlays Map.empty (crud_feature [my_post_resource])))])"
proof -
  have "fe_resources (crud_feature [my_post_resource]) = [my_post_resource]" "Crud \<in> set (rs_conventions my_post_resource)"
    "existing_command_names (crud_feature [my_post_resource]) = {}" "df_rate_limit (fe_defaults (crud_feature [my_post_resource])) = None"
    by (simp_all add: crud_feature_def my_post_resource_def crud_resource_def existing_command_names_def)
  then show ?thesis
    using hoist_hints_of_synthesis[of my_post_resource "crud_feature [my_post_resource]" "''blog.lzi''" 1 Map.empty]
    by (simp add: Let_def)
qed

end
