(* ===== verification/Doctor_Records.thy ===== *)
theory Doctor_Records
  imports Doctor_Crud Sql_Column
begin

text \<open>
  The lint that tells which columns of a resource store a record (\<^verbatim>\<open>correctness/record_column_storage.rs\<close>)
  and its dispatch in the doctor (\<^verbatim>\<open>aggregators/correctness/mod.rs\<close>). It claims to resolve a name exactly
  as the emitter of the migrations does; shown here is when that is so.
\<close>

section \<open>The index of records\<close>

record record_owner =
  ro_name :: string
  ro_feature :: string

definition build_record_index :: "feature_ir list \<Rightarrow> record_owner list" where
  "build_record_index features =
     concat (map (\<lambda>feature. map (\<lambda>r. \<lparr>ro_name = rd_name r, ro_feature = fe_name feature\<rparr>) (fe_records feature)) features)"

definition owning_feature :: "record_owner list \<Rightarrow> string \<Rightarrow> string option" where
  "owning_feature record_index name = map_option ro_feature (find (\<lambda>entry. ro_name entry = name) record_index)"

fun resolves_to_record :: "TypeRef \<Rightarrow> (string \<times> bool) option" where
  "resolves_to_record (UserDefined qname) = Some (qn_name qname, False)"
| "resolves_to_record (Many (UserDefined qname)) = Some (qn_name qname, True)"
| "resolves_to_record _ = None"

section \<open>Findings\<close>

record record_column_finding =
  rc_path :: string
  rc_feature :: string
  rc_resource :: string
  rc_field :: string
  rc_record_type :: string
  rc_many :: bool
  rc_cross_feature_owner :: "string option"

definition RECORD_CODE_INFO :: string where "RECORD_CODE_INFO = ''@info.record_column_jsonb''"
definition RECORD_CODE_CROSS_FEATURE :: string where
  "RECORD_CODE_CROSS_FEATURE = ''@correctness.record_column_cross_feature''"

definition is_cross_feature :: "record_column_finding \<Rightarrow> bool" where
  "is_cross_feature fd \<longleftrightarrow> rc_cross_feature_owner fd \<noteq> None"

definition record_finding_code :: "record_column_finding \<Rightarrow> string" where
  "record_finding_code fd = (if is_cross_feature fd then RECORD_CODE_CROSS_FEATURE else RECORD_CODE_INFO)"

definition quoted :: "string \<Rightarrow> string" where "quoted s = [squote] @ s @ [squote]"

definition record_finding_message :: "record_column_finding \<Rightarrow> string" where
  "record_finding_message fd = (case rc_cross_feature_owner fd of
       None \<Rightarrow> ''resource '' @ quoted (rc_resource fd) @ '' field '' @ quoted (rc_field fd) @ '' is typed as record '' @
         quoted (rc_record_type fd) @ ''; stored as JSONB in the database.''
     | Some owned_by \<Rightarrow> ''resource '' @ quoted (rc_resource fd) @ '' field '' @ quoted (rc_field fd) @ '' is typed as record '' @
         quoted (rc_record_type fd) @ '' which is declared in feature '' @ quoted owned_by @ '', not '' @ quoted (rc_feature fd) @
         ''. Codegen lowers it to a JSONB copy of '' @ quoted (rc_record_type fd) @ '' embedded in '' @ quoted (rc_resource fd) @
         '', not a foreign-key relation to feature '' @ quoted owned_by @
         ''. If you intended a relation, point the field at a `resource` in '' @ quoted owned_by @
         ''; if the embedded-document copy is intended, add `# doctor:allow '' @ RECORD_CODE_CROSS_FEATURE @ ''`.'')"

text \<open>The body of the loop over the fields: a field that names no record, or whose code is waived, is skipped.\<close>

definition check_record_field ::
  "feature_ir \<Rightarrow> record_owner list \<Rightarrow> string \<Rightarrow> string option \<Rightarrow> resource_ir \<Rightarrow> field_ir \<Rightarrow> record_column_finding option" where
  "check_record_field feature record_index path file resource field =
     Option.bind (resolves_to_record (fi_type_ref field)) (\<lambda>(record_type, many).
       let local_record_names = set (map rd_name (fe_records feature)) in
       Option.bind
         (if record_type \<in> local_record_names then Some None
          else case owning_feature record_index record_type of Some owned_by \<Rightarrow> Some (Some owned_by) | None \<Rightarrow> None)
         (\<lambda>cross_feature_owner.
           if (if cross_feature_owner \<noteq> None then file_contains_doctor_allow file RECORD_CODE_CROSS_FEATURE
               else file_contains_doctor_allow file RECORD_CODE_INFO) then None
           else Some \<lparr>rc_path = path, rc_feature = fe_name feature, rc_resource = rs_name resource,
             rc_field = fi_name field, rc_record_type = record_type, rc_many = many,
             rc_cross_feature_owner = cross_feature_owner\<rparr>))"

definition record_column_check ::
  "feature_ir \<Rightarrow> record_owner list \<Rightarrow> string \<Rightarrow> string option \<Rightarrow> record_column_finding list" where
  "record_column_check feature record_index path file =
     (if record_index = [] \<or> fe_resources feature = [] then []
      else concat (map (\<lambda>resource. List.map_filter (check_record_field feature record_index path file resource)
          (rs_fields resource)) (fe_resources feature)))"

definition record_column_diagnostics :: "bool \<Rightarrow> nat \<Rightarrow> record_column_finding list \<Rightarrow> doctor_diagnostic list" where
  "record_column_diagnostics strict feature_line findings =
     List.map_filter (\<lambda>finding.
       if \<not> is_cross_feature finding \<and> \<not> strict then None
       else Some \<lparr>dg_path = rc_path finding, dg_line = feature_line, dg_column = 1,
         dg_severity = (if is_cross_feature finding then DoctorError else DoctorInfo),
         dg_code = record_finding_code finding, dg_message = record_finding_message finding\<rparr>) findings"

section \<open>The lint and the emitter\<close>

lemma owning_feature_iff: "owning_feature (build_record_index m) name \<noteq> None \<longleftrightarrow> name_is_record m name"
proof -
  have "map ro_name (build_record_index m) = map rd_name (concat (map fe_records m))"
    by (induction m) (simp_all add: build_record_index_def)
  then have "ro_name ` set (build_record_index m) = rd_name ` set (concat (map fe_records m))" by (metis set_map)
  moreover have "owning_feature (build_record_index m) name \<noteq> None \<longleftrightarrow> name \<in> ro_name ` set (build_record_index m)"
    by (auto simp: owning_feature_def find_None_iff image_iff simp del: not_None_eq)
  moreover have "name_is_record m name \<longleftrightarrow> name \<in> rd_name ` set (concat (map fe_records m))"
    unfolding name_is_record_def list_ex_iff by blast
  ultimately show ?thesis by simp
qed

lemma local_record: "f \<in> set m \<Longrightarrow> name \<in> set (map rd_name (fe_records f)) \<Longrightarrow> name_is_record m name"
  by (auto simp: name_is_record_def list_ex_iff)

lemma check_record_field_iff:
  assumes "f \<in> set m"
  shows "check_record_field f (build_record_index m) path None r fd \<noteq> None \<longleftrightarrow>
    (\<exists>name many. resolves_to_record (fi_type_ref fd) = Some (name, many) \<and> name_is_record m name)"
proof (cases "resolves_to_record (fi_type_ref fd)")
  case None
  then show ?thesis by (simp add: check_record_field_def)
next
  case (Some p)
  then obtain name many where p: "resolves_to_record (fi_type_ref fd) = Some (name, many)" by (cases p) auto
  show ?thesis
  proof (cases "name \<in> set (map rd_name (fe_records f))")
    case True
    then show ?thesis using local_record[OF assms True] p
      by (simp add: check_record_field_def file_contains_doctor_allow_def)
  next
    case False
    then show ?thesis using p owning_feature_iff[of m name]
      by (auto simp: check_record_field_def file_contains_doctor_allow_def split: option.split)
  qed
qed

definition is_relation :: "module_ir \<Rightarrow> cross_feature_index \<Rightarrow> TypeRef \<Rightarrow> bool" where
  "is_relation m ix t = (case t of UserDefined q \<Rightarrow> foreign_key_owner m q ix \<noteq> None | _ \<Rightarrow> False)"

lemma record_column_type:
  assumes "resolves_to_record (fi_type_ref fd) = Some (name, many)"
  shows "pg_sql (pg_type_for_field m fd ix) = ''JSONB'' \<longleftrightarrow> name_is_record m name \<and> \<not> is_relation m ix (fi_type_ref fd)"
proof -
  have storage: "(case k of IntStorage \<Rightarrow> ''BIGINT'' | StringStorage \<Rightarrow> ''TEXT'') \<noteq> ''JSONB''" for k by (cases k) simp_all
  have enum: "enum_pg_type m n = Some t \<Longrightarrow> pg_sql t \<noteq> ''JSONB''" for n t
    using storage by (auto simp: enum_pg_type_def)
  show ?thesis using assms
    by (cases "fi_type_ref fd" rule: resolves_to_record.cases)
      (auto simp: pg_type_for_field_def is_relation_def dest: enum split: option.splits)
qed

section \<open>Properties\<close>

text \<open>
  C2. The lint and the emitter disagree on relations. On a field typed by a name, and without a waiver, the
  lint says that the column stores a record exactly when some feature declares a record of that name; the
  emitter stores \<^verbatim>\<open>JSONB\<close> exactly when the lint says so, unless the field is a relation: a single value whose
  name is a resource as well. Its column is a \<^verbatim>\<open>BIGINT\<close>. An error is reported exactly when the feature of the
  resource does not declare the record itself.
\<close>

theorem record_column_agrees_iff:
  assumes "f \<in> set m" "resolves_to_record (fi_type_ref fd) = Some (name, many)"
  shows "let reported = check_record_field f (build_record_index m) path None r fd;
             stored = pg_sql (pg_type_for_field m fd ix) in
    (reported \<noteq> None \<longleftrightarrow> name_is_record m name) \<and>
    ((reported \<noteq> None \<longleftrightarrow> stored = ''JSONB'') \<longleftrightarrow> \<not> (name_is_record m name \<and> is_relation m ix (fi_type_ref fd))) \<and>
    (is_relation m ix (fi_type_ref fd) \<longrightarrow> stored = ''BIGINT'') \<and>
    (map_option is_cross_feature reported = Some True \<longleftrightarrow>
       name_is_record m name \<and> name \<notin> set (map rd_name (fe_records f)))"
proof -
  have reported: "check_record_field f (build_record_index m) path None r fd \<noteq> None \<longleftrightarrow> name_is_record m name"
    unfolding check_record_field_iff[OF assms(1)] assms(2) by simp
  have relation: "pg_sql (pg_type_for_field m fd ix) = ''BIGINT''" if "is_relation m ix (fi_type_ref fd)"
    using that by (auto simp: is_relation_def pg_type_for_field_def split: TypeRef.splits)
  have cross: "map_option is_cross_feature (check_record_field f (build_record_index m) path None r fd) = Some True \<longleftrightarrow>
      name_is_record m name \<and> name \<notin> set (map rd_name (fe_records f))"
  proof (cases "name \<in> set (map rd_name (fe_records f))")
    case True
    then show ?thesis using assms(2) by (simp add: check_record_field_def file_contains_doctor_allow_def is_cross_feature_def)
  next
    case False
    then show ?thesis using assms(2) owning_feature_iff[of m name]
      by (auto simp: check_record_field_def file_contains_doctor_allow_def is_cross_feature_def split: option.splits)
  qed
  show ?thesis unfolding Let_def
    using reported relation cross record_column_type[OF assms(2), of m ix] by blast
qed

definition shadowed_module :: module_ir where
  "shadowed_module =
     [(crud_feature [crud_resource ''Address'' [] [], crud_resource ''Host'' [crud_field ''address'' (UserDefined (local_name ''Address'')) True None] []])
       \<lparr>fe_records := [\<lparr>rd_name = ''Address'', rd_fields = []\<rparr>]\<rparr>]"

theorem record_column_agrees_iff_witness:
  "check_record_field (hd shadowed_module) (build_record_index shadowed_module) ''blog.lzi'' None
     (crud_resource ''Host'' [] []) (crud_field ''address'' (UserDefined (local_name ''Address'')) True None) \<noteq> None \<and>
   pg_sql (pg_type_for_field shadowed_module (crud_field ''address'' (UserDefined (local_name ''Address'')) True None) (build shadowed_module)) = ''BIGINT''"
proof -
  let ?fd = "crud_field ''address'' (UserDefined (local_name ''Address'')) True None"
  have "hd shadowed_module \<in> set shadowed_module" "resolves_to_record (fi_type_ref ?fd) = Some (''Address'', False)"
    by (simp_all add: shadowed_module_def crud_field_def local_name_def)
  from record_column_agrees_iff[OF this, of "''blog.lzi''" "crud_resource ''Host'' [] []" "build shadowed_module"]
  have "name_is_record shadowed_module ''Address'' \<longrightarrow> check_record_field (hd shadowed_module) (build_record_index shadowed_module)
      ''blog.lzi'' None (crud_resource ''Host'' [] []) ?fd \<noteq> None"
    "is_relation shadowed_module (build shadowed_module) (fi_type_ref ?fd) \<longrightarrow>
      pg_sql (pg_type_for_field shadowed_module ?fd (build shadowed_module)) = ''BIGINT''"
    by (simp_all add: Let_def)
  moreover have "name_is_record shadowed_module ''Address''" "is_relation shadowed_module (build shadowed_module) (fi_type_ref ?fd)"
    by code_simp+
  ultimately show ?thesis by blast
qed

end
