(* ===== verification/Spec2Isabelle.thy ===== *)
theory Spec2Isabelle
  imports Rbac_Catalog Lifecycle_Syntax Lifecycle_Triggers Rate_Limit Type_Syntax Migration_Baseline Alter_Migration
    Changelog Edit_Distance Expr_Lowering Lifecycle_Lowering Feature_Passes Doctor_Records
begin

text \<open>
  Lazuli, a language for product features, as its Rust sources under \<^verbatim>\<open>src/crates\<close> have it.

  \<^bold>\<open>The program.\<close> A feature file is parsed line by line (\<^verbatim>\<open>lazuli_syntax\<close>), lowered to an intermediate
  representation (\<^verbatim>\<open>lazuli_analyzer\<close>, \<^verbatim>\<open>lazuli_ir\<close>), completed by passes that add commands and queries,
  checked, and turned into Go, TypeScript and SQL (\<^verbatim>\<open>lazuli_codegen_go\<close> and others). The development follows
  one thread through all of it: source text, access-control policies and roles, lifecycles, rate limits, type
  references, the synthesis passes in the order the analyzer runs them, and the SQL migrations of the
  resources with their later differences.

  \<^bold>\<open>The model.\<close> A string is a list of bytes, so positions are the byte offsets of the code; Unicode white
  space is recognised by its UTF-8 bytes. A struct is a record, an enum a datatype with the constructors
  of the source (prefixed where HOL has the name already), a \<^verbatim>\<open>Result\<close> a sum with \<open>Err\<close> and \<open>Ok\<close>, a loop
  a recursion, a \<^verbatim>\<open>BTreeSet\<close> or \<^verbatim>\<open>BTreeMap\<close> a strictly sorted list, a \<^verbatim>\<open>HashMap\<close> that is only looked
  up a map. A cursor into the text is the text that remains.

  \<^bold>\<open>The theories\<close>, each with the files it models:
  \<^item> \<^verbatim>\<open>Lazuli_Prelude\<close>: the string functions of the standard library, ordered containers, decimal numbers,
    and the two shared interfaces. \<open>closed_catalog\<close> is a token table with its inverse, provided by the
    environment names and the currencies; \<open>keyed_diff\<close> is a difference by key, provided by the columns of
    a table and by the commands of the change log.
  \<^item> \<^verbatim>\<open>Source_Text\<close> (\<^verbatim>\<open>parser/common.rs\<close>, \<^verbatim>\<open>error.rs\<close>, \<^verbatim>\<open>lzi/helpers.rs\<close>): lines and spans, comments, token
    search, lists. C1: spans are exact; they drift after carriage returns (\<open>source_lines_crlf_drift\<close>), and
    splitting loses nothing (\<open>split_top_level_commas_roundtrip\<close>).
  \<^item> \<^verbatim>\<open>Policy_Expr\<close>, \<^verbatim>\<open>Policy_Print\<close> (\<^verbatim>\<open>lzx/policy_expr\<close>): the policy expression parser. Recursive descent
    is one recursion over the productions with fuel \<open>6 * length + 6\<close>: every production either consumes a
    byte or moves down one of at most six levels, and C6 shows that the fuel always suffices. C7, C8:
    parsing inverts printing and accepts only well-formed expressions; lists are disjunctions
    (\<open>inline_atom_list_is_disjunction\<close>).
  \<^item> \<^verbatim>\<open>Rbac_Syntax\<close> (\<^verbatim>\<open>lzi/package.rs\<close>), \<^verbatim>\<open>Rbac_Catalog\<close> (\<^verbatim>\<open>analyzer/rbac.rs\<close>): roles, permissions, their
    inheritance. C12, C14, C15: a closure is exactly what the chain of parents grants; cycles are found; a
    silent analysis means consistency. The three permission grammars agree (\<open>permission_grammars_agree\<close>), a
    parsed package is well formed, and heirs keep their parents' permissions.
  \<^item> \<^verbatim>\<open>Lifecycle_Syntax\<close> (\<^verbatim>\<open>lzi/lifecycle.rs\<close>), \<^verbatim>\<open>Lifecycle_Triggers\<close>
    (\<^verbatim>\<open>checks/lifecycle_transition\<close>): state machines and the commands that drive them. C18, C21: accepted
    blocks are well formed, the check is silent exactly on runs; clauses are given once
    (\<open>transition_clauses_once\<close>), the walk over uses is exact (\<open>reachable_exact\<close>).
  \<^item> \<^verbatim>\<open>Lifecycle_Lowering\<close> (\<^verbatim>\<open>analyzer/lifecycle\<close>, \<^verbatim>\<open>test_lowering.rs\<close>): a parsed lifecycle becomes an enum,
    fields and commands. C16, C22: every command stores the state its transition names, and the check of
    the lowered feature is silent exactly on the runs of the lifecycle as authored.
  \<^item> \<^verbatim>\<open>Crud_Overlay_Syntax\<close> (\<^verbatim>\<open>lzi/resource/crud_overlay.rs\<close>): the \<^verbatim>\<open>crud\<close> block by which an author changes the
    commands of a convention. C9: a printed block is read back, its parts in any order.
  \<^item> \<^verbatim>\<open>Owner_Scope\<close>, \<^verbatim>\<open>Crud_Conventions\<close>, \<^verbatim>\<open>Convention_Synthesis\<close> (\<^verbatim>\<open>analyzer/conventions\<close>): ownership
    annotations, the entries of \<^verbatim>\<open>conventions [crud, me]\<close> and the pass that places them. C10: which names are
    added; C13: everything added is scoped to the owner and confined to the fields of a client; C23: when two
    bundles clash.
  \<^item> \<^verbatim>\<open>Auto_Photo\<close> (\<^verbatim>\<open>auto_photo.rs\<close>): the upload commands of file fields. C11: what is added, under which policy,
    and when names clash.
  \<^item> \<^verbatim>\<open>Feature_Passes\<close> (\<^verbatim>\<open>feature.rs\<close>): command defaults, events of event groups, enum literals, and all passes
    in their order. The locale \<open>feature_pass\<close> is what each pass promises the next, provided by all of them and
    by their sequence. C26: the sequence is stable; C24: where the commands of a finished feature come from, and
    that only transitions write a lifecycle state.
  \<^item> \<^verbatim>\<open>Text_Helpers\<close>, \<^verbatim>\<open>Edit_Distance\<close> (\<^verbatim>\<open>analyzer/helpers.rs\<close> and the suggestions of \<^verbatim>\<open>errors.rs\<close> and
    \<^verbatim>\<open>owner_scope.rs\<close>): scans, case conversion and distances. C4: both routines compute the edit distance.
    C34: when the analyzer and the migrations agree on the name of a table.
  \<^item> \<^verbatim>\<open>Expr_Lowering\<close> (\<^verbatim>\<open>analyzer/expr.rs\<close>, the predicates of \<^verbatim>\<open>agent.rs\<close>, \<^verbatim>\<open>query.rs\<close>, \<^verbatim>\<open>workflow.rs\<close>):
    expressions and comparisons. C30, C38: lowering inverts printing; C17: when it panics.
  \<^item> \<^verbatim>\<open>Rate_Limit\<close> (\<^verbatim>\<open>lzi/numerics.rs\<close>, \<^verbatim>\<open>resource_rate_limit.rs\<close>): limits per environment
    (\<open>lower_rate_limit_resolves\<close>); lines parse back and fold in order (\<open>rate_limit_line_roundtrip\<close>,
    \<open>rate_limit_fold_spec\<close>).
  \<^item> \<^verbatim>\<open>Ir_Core\<close>, \<^verbatim>\<open>Type_Syntax\<close> (\<^verbatim>\<open>analyzer/types.rs\<close>): the data of the intermediate representation and the
    lowering of type references. C31, C32: lowering inverts both spellings; file sizes fit their words.
  \<^item> \<^verbatim>\<open>Cross_Feature\<close>, \<^verbatim>\<open>Fk_Topo\<close> (\<^verbatim>\<open>cross_feature.rs\<close>, \<^verbatim>\<open>migration_ddl/topo.rs\<close>): names declared in several
    features (\<open>cross_feature_owner_iff\<close>), and the order of the tables. C27, C28: tables come after those they
    refer to.
  \<^item> \<^verbatim>\<open>Schema_Diff\<close> (\<^verbatim>\<open>schema_diff\<close>): the columns of a printed table and their difference. C29, C40: the
    difference is a correct plan, the errors of the parser are exact.
  \<^item> \<^verbatim>\<open>Sql_Text\<close>, \<^verbatim>\<open>Sql_Column\<close>, \<^verbatim>\<open>Create_Table\<close> (\<^verbatim>\<open>migration_ddl\<close>): quoting, types, the emitted tables,
    indexes and rollbacks. C33: names cannot leave their quotes; the two type mappings agree
    (\<open>pg_type_mappings_agree\<close>).
  \<^item> \<^verbatim>\<open>Baseline_Rows\<close>, \<^verbatim>\<open>Migration_Baseline\<close>: the emitter against the reader. C36, C37: an emitted
    migration reads back; what regenerating an unchanged resource plans.
  \<^item> \<^verbatim>\<open>Alter_Migration\<close> (\<^verbatim>\<open>migration_ddl/alter_table.rs\<close>): the \<^verbatim>\<open>ALTER\<close> pair. C39: exactly the permitted
    part of the difference runs, and the rollback restores the columns. \<open>alter_rows\<close> is the interface
    between a section and its rows, provided by each of the six renderers.
  \<^item> \<^verbatim>\<open>Changelog\<close> (\<^verbatim>\<open>lazuli_changelog\<close>): the difference of two modules' commands. C5: nothing removed and
    nothing breaking means exactly that every request accepted before still is.

  \<^item> \<^verbatim>\<open>Doctor_Allow\<close> (\<^verbatim>\<open>lzi/doctor_allow.rs\<close>, \<^verbatim>\<open>allow_comment.rs\<close>, \<^verbatim>\<open>allow_registry.rs\<close>): waivers of findings, read by
    a strict parser, a tolerant recognizer and a text scan. C3: the two readings of an annotation agree; C20: what
    a comment waives.
  \<^item> \<^verbatim>\<open>Doctor_Crud\<close>, \<^verbatim>\<open>Doctor_Records\<close> (\<^verbatim>\<open>lazuli_doctor\<close>, its dispatch in \<^verbatim>\<open>lazuli_doctor_run\<close>): lints over the
    lowered feature. C35: the one for hand-written bundles inverts the synthesis; C19: which synthesized writes
    are rejected; C25: the hints fire on commands nobody wrote; C2: when the lint for record columns and the
    emitter of the migrations disagree.

  \<^bold>\<open>Bounds.\<close> Besides the fuel of the policy parser no definition is bounded: the other loops end by a
  measure. File sizes are 32- and 64-bit words; counters that the code keeps in \<^verbatim>\<open>usize\<close> are natural
  numbers, since they are bounded by the length of a text in memory. The depth counters of the scanners
  are integers: they stay within the length of the text.

  \<^bold>\<open>Findings.\<close> Spans drift on sources with carriage returns (\<open>source_lines_crlf_drift\<close>); a closure that grants everything is not
  sorted (\<open>rbac_closure_order\<close>); a cycle of two roles is reported twice (\<open>rbac_two_cycle_reported_twice\<close>);
  an unquoted accented word in a predicate aborts the compiler (C17); the owner check of a resource with an
  acronym in its name reads a table that no migration creates (C34); a resource with a composite primary key gets
  an \<^verbatim>\<open>id\<close> column planned when it is regenerated unchanged (C37); the change log is silent about a
  command whose method or path changes (C5); \<^verbatim>\<open>MyPost [crud]\<close> beside \<^verbatim>\<open>Post [me]\<close> gives two queries of one name
  (C23); two resources with a file field of the same name get its commands twice (C11); the default rate limit of
  a feature does not reach its transition commands (C24); a waiver comment silences every rule whose code the
  written one begins with (C20); the hints to hoist a repeated default count synthesized commands (C25); a field
  whose name is a resource and a record is reported as stored \<^verbatim>\<open>JSONB\<close> and stored as \<^verbatim>\<open>BIGINT\<close> (C2).

  \<^bold>\<open>Not modelled.\<close> Reading and writing files, the command line, the language server and the protocol glue;
  the other lints of the doctor, some three hundred independent ones; the emitters of Go and TypeScript source, which are
  templates for compilers that are not here; the block parsers and lowerings of commands, queries and
  surfaces, with the dispatch to them in \<^verbatim>\<open>lower_feature_skeleton\<close>; \<^verbatim>\<open>parse_default\<close> and
  \<^verbatim>\<open>restrict_where_sql\<close>, which use the Unicode tables and the derived debug printer. The passes over a
  lowered feature take it as it comes from the structural lift.
\<close>

end
